(* ===== verification/Prelude.thy ===== *)
theory Prelude
  imports "HOL-Library.Word"
begin

unbundle bit_operations_syntax

text \<open>
  Shared vocabulary of the development: the widths the firmware's C types have, the
  byte lanes of a 32-bit bus word, the shape of a C counting loop, and the generic lemmas
  on them.  The collections: \<open>lane_simps\<close> holds the byte-lane equations, \<open>wrap_simps\<close> the
  facts that turn an addition on a wrapped address into one on naturals.
\<close>

named_theorems lane_simps
named_theorems wrap_simps

type_synonym u8 = "8 word"
type_synonym u16 = "16 word"
type_synonym u32 = "32 word"

lemma unat_bounds:
  "unat (a :: u8) < 256" "unat (b :: u16) < 65536" "unat (c :: u32) < 4294967296"
  using unsigned_less [of a] unsigned_less [of b] unsigned_less [of c] by simp_all

section \<open>Byte lanes\<close>

text \<open>
  The bridge RAM is word-addressed and little-endian: byte \<open>k\<close> of a word is
  \<open>(w >> (8 * k)) & 0xFF\<close>, and \<open>b0 | (b1 << 8) | (b2 << 16) | (b3 << 24)\<close> puts four bytes
  back.  Both spellings occur all over the firmware.
\<close>

definition byte_of :: "u32 \<Rightarrow> nat \<Rightarrow> u8" where
  "byte_of w k = ucast (drop_bit (8 * k) w)"

definition pack4 :: "u8 \<Rightarrow> u8 \<Rightarrow> u8 \<Rightarrow> u8 \<Rightarrow> u32" where
  "pack4 b0 b1 b2 b3 =
     ucast b0 OR push_bit 8 (ucast b1) OR push_bit 16 (ucast b2) OR push_bit 24 (ucast b3)"

lemma bit_u8_high [simp]: "8 \<le> n \<Longrightarrow> \<not> bit (w :: u8) n"
  using bit_imp_le_length [of w n] by auto

lemma byte_of_pack4 [lane_simps]:
  "byte_of (pack4 a b c d) 0 = a"
  "byte_of (pack4 a b c d) 1 = b"
  "byte_of (pack4 a b c d) (Suc 0) = b"
  "byte_of (pack4 a b c d) 2 = c"
  "byte_of (pack4 a b c d) 3 = d"
  by (rule bit_word_eqI; auto simp: byte_of_def pack4_def bit_simps)+

lemma pack4_byte_of [lane_simps]:
  "pack4 (byte_of w 0) (byte_of w 1) (byte_of w 2) (byte_of w 3) = w"
proof (rule bit_word_eqI)
  fix n assume "n < LENGTH(32)"
  then have "n < 8 \<or> 8 \<le> n \<and> n < 16 \<or> 16 \<le> n \<and> n < 24 \<or> 24 \<le> n \<and> n < 32" by auto
  then show "bit (pack4 (byte_of w 0) (byte_of w 1) (byte_of w 2) (byte_of w 3)) n = bit w n"
    by (auto simp: byte_of_def pack4_def bit_simps)
qed

text \<open>Two words with the same four bytes are equal.\<close>

lemma word_byte_eqI:
  assumes "\<And>k. k < 4 \<Longrightarrow> byte_of v k = byte_of w k"
  shows "v = w"
proof -
  have "pack4 (byte_of v 0) (byte_of v 1) (byte_of v 2) (byte_of v 3)
      = pack4 (byte_of w 0) (byte_of w 1) (byte_of w 2) (byte_of w 3)"
    using assms by simp
  then show ?thesis by (simp only: pack4_byte_of)
qed

text \<open>The bits of the masks the firmware writes as hexadecimal literals.\<close>

named_theorems mask_bits

lemma bit_masks [mask_bits]:
  fixes n :: nat
  shows "bit (0xFF :: 'a::len word) n \<longleftrightarrow> n < LENGTH('a) \<and> n < 8"
    "bit (0xFFFF :: 'a word) n \<longleftrightarrow> n < LENGTH('a) \<and> n < 16"
    "bit (0xF :: 'a word) n \<longleftrightarrow> n < LENGTH('a) \<and> n < 4"
    "bit (0x3 :: 'a word) n \<longleftrightarrow> n < LENGTH('a) \<and> n < 2"
proof -
  have m: "mask 8 = (0xFF :: 'a word)" "mask 16 = (0xFFFF :: 'a word)"
    "mask 4 = (0xF :: 'a word)" "mask 2 = (3 :: 'a word)"
    by (simp_all add: mask_eq_exp_minus_1)
  show "bit (0xFF :: 'a word) n \<longleftrightarrow> n < LENGTH('a) \<and> n < 8"
    "bit (0xFFFF :: 'a word) n \<longleftrightarrow> n < LENGTH('a) \<and> n < 16"
    "bit (0xF :: 'a word) n \<longleftrightarrow> n < LENGTH('a) \<and> n < 4"
    "bit (0x3 :: 'a word) n \<longleftrightarrow> n < LENGTH('a) \<and> n < 2"
    unfolding m [symmetric] by (auto simp: bit_mask_iff)
qed

section \<open>Counting loops\<close>

text \<open>
  \<open>for (i = 0; i < n; i++) body\<close>, the body without an early exit: the state goes through
  \<open>body 0\<close>, \<open>body 1\<close>, \dots in that order.
\<close>

definition for_to :: "nat \<Rightarrow> (nat \<Rightarrow> 's \<Rightarrow> 's) \<Rightarrow> 's \<Rightarrow> 's" where
  "for_to n body s = fold body [0..<n] s"

lemma for_to_0 [simp]: "for_to 0 body s = s"
  by (simp add: for_to_def)

lemma for_to_Suc: "for_to (Suc n) body s = body n (for_to n body s)"
  by (simp add: for_to_def)

lemma for_to_numeral [simp]:
  "for_to (numeral k) body s = body (pred_numeral k) (for_to (pred_numeral k) body s)"
  by (simp add: numeral_eq_Suc for_to_Suc)

lemma for_to_1 [simp]: "for_to (Suc 0) body s = body 0 s"
  by (simp add: for_to_Suc)

text \<open>The loop rule: an invariant indexed by the number of rounds done.\<close>

lemma for_to_inv:
  assumes "I 0 s"
    and "\<And>k t. k < n \<Longrightarrow> I k t \<Longrightarrow> I (Suc k) (body k t)"
  shows "I n (for_to n body s)"
proof -
  have "m \<le> n \<Longrightarrow> I m (for_to m body s)" for m
    by (induction m) (use assms in \<open>auto simp: for_to_Suc\<close>)
  then show ?thesis by simp
qed

text \<open>An observation no round changes is unchanged by the loop.\<close>

lemma for_to_frame:
  assumes "\<And>k t. k < n \<Longrightarrow> f (body k t) = f t"
  shows "f (for_to n body s) = f s"
  by (rule for_to_inv [where I = "\<lambda>_ t. f t = f s"]) (use assms in auto)

text \<open>\<open>n\<close> reads of a port, the values in order.\<close>

fun collect :: "nat \<Rightarrow> ('s \<Rightarrow> 'a \<times> 's) \<Rightarrow> 's \<Rightarrow> 'a list \<times> 's" where
  "collect 0 f s = ([], s)"
| "collect (Suc n) f s = (let (x, s) = f s; (xs, s) = collect n f s in (x # xs, s))"

lemma length_collect [simp]: "length (fst (collect n f s)) = n"
  by (induction n arbitrary: s) (auto split: prod.split simp: Let_def case_prod_beta)

section \<open>Wrapped addresses\<close>

text \<open>
  Auto-incrementing ports walk \<open>base, base + 1, \<dots>\<close> in a small word type.  The distance
  \<open>unat (a - base)\<close> is the index of the access that touches \<open>a\<close>; it identifies the address
  for runs no longer than the address space.
\<close>

lemma unat_sub_of_nat [wrap_simps]:
  assumes "n < 2 ^ LENGTH('a)"
  shows "unat (base + of_nat n - base :: 'a::len word) = n"
  using assms by (simp add: unat_of_nat)

lemma addr_eq_iff_dist:
  fixes a base :: "'a::len word"
  assumes "n < 2 ^ LENGTH('a)"
  shows "a = base + of_nat n \<longleftrightarrow> unat (a - base) = n"
proof
  assume "a = base + of_nat n"
  then show "unat (a - base) = n" using assms by (simp add: unat_of_nat)
next
  assume "unat (a - base) = n"
  then have "of_nat n = a - base" by auto
  then show "a = base + of_nat n" by simp
qed

lemma unat_ucast_up [wrap_simps]:
  assumes "LENGTH('a) \<le> LENGTH('b)"
  shows "unat (ucast (w :: 'a::len word) :: 'b::len word) = unat w"
proof -
  have "unat w < 2 ^ LENGTH('a)" by simp
  also have "(2 :: nat) ^ LENGTH('a) \<le> 2 ^ LENGTH('b)" using assms by simp
  finally show ?thesis by (simp add: unsigned_ucast_eq take_bit_nat_eq_self)
qed

text \<open>Reading a run of consecutive cells.\<close>

definition cells :: "('a::len word \<Rightarrow> 'b) \<Rightarrow> 'a word \<Rightarrow> nat \<Rightarrow> 'b list" where
  "cells m base n = map (\<lambda>i. m (base + of_nat i)) [0..<n]"

lemma length_cells [simp]: "length (cells m base n) = n"
  by (simp add: cells_def)

lemma nth_cells [simp]: "i < n \<Longrightarrow> cells m base n ! i = m (base + of_nat i)"
  by (simp add: cells_def)

lemma cells_cong: "(\<And>i. i < n \<Longrightarrow> m (base + of_nat i) = m' (base + of_nat i)) \<Longrightarrow>
    cells m base n = cells m' base n"
  by (simp add: cells_def)

text \<open>The bytes a run of little-endian words spells.\<close>

definition ram_bytes :: "('a::len word \<Rightarrow> u32) \<Rightarrow> 'a word \<Rightarrow> nat \<Rightarrow> u8 list" where
  "ram_bytes m base n = map (\<lambda>i. byte_of (m (base + of_nat (i div 4))) (i mod 4)) [0..<n]"

lemma length_ram_bytes [simp]: "length (ram_bytes m base n) = n"
  by (simp add: ram_bytes_def)

lemma nth_ram_bytes [simp]:
  "i < n \<Longrightarrow> ram_bytes m base n ! i = byte_of (m (base + of_nat (i div 4))) (i mod 4)"
  by (simp add: ram_bytes_def)

lemma ram_bytes_cong:
  "(\<And>j. j < (n + 3) div 4 \<Longrightarrow> m (base + of_nat j) = m' (base + of_nat j)) \<Longrightarrow>
   ram_bytes m base n = ram_bytes m' base n"
  by (rule nth_equalityI) (auto simp: less_eq_div_iff_mult_less_eq)

text \<open>Storing a run of values through an auto-incrementing port.\<close>

definition mem_put :: "('a::len word \<Rightarrow> 'b) \<Rightarrow> 'a word \<Rightarrow> 'b list \<Rightarrow> 'a word \<Rightarrow> 'b" where
  "mem_put m base bs a = (if unat (a - base) < length bs then bs ! unat (a - base) else m a)"

lemma mem_put_Nil [simp]: "mem_put m base [] = m"
  by (simp add: mem_put_def fun_eq_iff)

lemma mem_put_single: "m(base := b) = mem_put m base [b]"
proof
  fix a
  have "a = base" if "unat (a - base) = 0" using that unat_eq_zero [of "a - base"] by simp
  then show "(m(base := b)) a = mem_put m base [b] a" by (auto simp: mem_put_def)
qed

lemma mem_put_append:
  fixes base :: "'a::len word"
  assumes "length xs + length ys \<le> 2 ^ LENGTH('a)"
  shows "mem_put (mem_put m base xs) (base + of_nat (length xs)) ys = mem_put m base (xs @ ys)"
proof
  fix a :: "'a word"
  let ?d = "unat (a - base)" and ?n = "length xs"
  have bound: "?d < 2 ^ LENGTH('a)" by simp
  show "mem_put (mem_put m base xs) (base + of_nat ?n) ys a = mem_put m base (xs @ ys) a"
  proof (cases "ys = []")
    case False
    then have "?n < 2 ^ LENGTH('a)" using assms by (cases ys) auto
    then have n: "unat (of_nat ?n :: 'a word) = ?n" by (simp add: unat_of_nat)
    have e: "a - (base + of_nat ?n) = (a - base) - of_nat ?n" by (simp add: algebra_simps)
    show ?thesis
    proof (cases "?d < ?n")
      case True
      have "unat (a - (base + of_nat ?n)) = 2 ^ LENGTH('a) + ?d - ?n"
        unfolding e using True n by (simp add: unat_sub_if_size word_size word_le_nat_alt)
      then have "\<not> unat (a - (base + of_nat ?n)) < length ys" using assms True by linarith
      then show ?thesis using True by (simp add: mem_put_def nth_append)
    next
      case ge: False
      have "unat (a - (base + of_nat ?n)) = ?d - ?n"
        unfolding e using ge n by (simp add: unat_sub_if_size word_size word_le_nat_alt)
      then show ?thesis using ge by (auto simp: mem_put_def nth_append)
    qed
  qed simp
qed

lemma mem_put_nth:
  fixes base :: "'a::len word"
  assumes "i < length bs" "length bs \<le> 2 ^ LENGTH('a)"
  shows "mem_put m base bs (base + of_nat i) = bs ! i"
  using assms unat_sub_of_nat [of i base] by (simp only: mem_put_def) simp

lemma cells_mem_put:
  fixes base :: "'a::len word"
  assumes "length bs \<le> 2 ^ LENGTH('a)"
  shows "cells (mem_put m base bs) base (length bs) = bs"
  by (rule nth_equalityI) (use assms in \<open>auto simp: mem_put_nth\<close>)

lemma mem_put_outside: "length bs \<le> unat (a - base) \<Longrightarrow> mem_put m base bs a = m a"
  by (simp add: mem_put_def)

lemma cells_append:
  "cells m base (j + k) = cells m base j @ cells m (base + of_nat j) k"
  by (rule nth_equalityI) (auto simp: nth_append algebra_simps)

lemma ram_bytes_Suc4:
  "ram_bytes m base (4 * Suc n)
   = ram_bytes m base (4 * n) @ map (byte_of (m (base + of_nat n))) [0..<4]"
proof (rule nth_equalityI)
  fix i assume "i < length (ram_bytes m base (4 * Suc n))"
  then have i: "i < 4 * Suc n" by simp
  show "ram_bytes m base (4 * Suc n) ! i
      = (ram_bytes m base (4 * n) @ map (byte_of (m (base + of_nat n))) [0..<4]) ! i"
  proof (cases "i < 4 * n")
    case True
    then show ?thesis by (simp add: nth_append ram_bytes_def)
  next
    case False
    then have "i div 4 = n" using i by simp
    moreover from this have "i mod 4 = i - 4 * n" by (simp add: modulo_nat_def)
    ultimately have e: "i div 4 = n" "i mod 4 = i - 4 * n" "i - 4 * n < 4" using i by simp_all
    then show ?thesis using i False by (simp add: nth_append ram_bytes_def)
  qed
qed simp

lemma for_to_fold_nth: "n \<le> length xs \<Longrightarrow> for_to n (\<lambda>i. f (xs ! i)) s = fold f (take n xs) s"
  by (induction n) (auto simp: for_to_Suc take_Suc_conv_app_nth)

lemma ram_bytes_words:
  assumes "ram_bytes m base (4 * n) = ram_bytes m' base (4 * n)" and "i < n"
  shows "m (base + of_nat i) = m' (base + of_nat i)"
proof (rule word_byte_eqI)
  fix k :: nat assume k: "k < 4"
  then have j: "4 * i + k < 4 * n" "(4 * i + k) div 4 = i" "(4 * i + k) mod 4 = k" using assms(2) by auto
  have "ram_bytes m base (4 * n) ! (4 * i + k) = ram_bytes m' base (4 * n) ! (4 * i + k)"
    using assms(1) by simp
  then show "byte_of (m (base + of_nat i)) k = byte_of (m' (base + of_nat i)) k"
    unfolding nth_ram_bytes [OF j(1)] j .
qed

end
