(* ===== verification/Bridge.thy ===== *)
theory Bridge
  imports Prelude
begin

text \<open>
  The softcore's disk bridge as the firmware sees it: the register block of
  \<open>firmware/softcpu_regs.h\<close> (implemented by \<open>fpga/core/softcpu_fdd_bridge.sv\<close>) and the code
  of \<open>firmware/disk_tds.c\<close>.  The state holds the 1024-word bridge RAM with its
  auto-incrementing address, the target-dataslot registers, the datatable window and the
  ordered trace of stores to write-only registers.  The host on the other side of the
  dataslot port is not part of the repository: it is the parameter \<open>apf\<close>, and what the
  services rely on is the interface \<open>dataslot\<close>.
\<close>

section \<open>Registers and state\<close>

text \<open>Write-only registers; a store to one is observable only as an event on its wire.\<close>

datatype mmio =
    VKB_CTRL | VKB_KEY | SETTINGS_REG | OSD_ACTION | OSD_ORIGIN | SOFT_GUEST_HOLD
  | KEYCFG_REG | SOFT_SCSI_MEDIA | GPU_XY | GPU_WH | GPU_FILL | GPU_OUTLINE | GPU_CHAR
  | IRQ_MASK | FONT_WORD nat

text \<open>A command as the APF host receives it.\<close>

record tds_req =
  rq_slot :: u16
  rq_offset :: u32
  rq_bridge :: u32
  rq_length :: u32
  rq_dir :: u32

type_synonym bram = "10 word \<Rightarrow> u32"

text \<open>
  One dataslot command answered by the host: its own next state, the bridge RAM when the
  firmware stops waiting, and the status word each successive poll of \<open>FDD_TDS_STATUS\<close> reads.
\<close>

type_synonym 'h apf = "'h \<Rightarrow> tds_req \<Rightarrow> bram \<Rightarrow> 'h \<times> bram \<times> (nat \<Rightarrow> u32)"

record 'h hw =
  host :: 'h
  bram :: bram
  bram_addr :: "10 word"
  tds_id :: u16
  tds_offset :: u32
  tds_bridge :: u32
  tds_length :: u32
  tds_log :: "tds_req list"
  dtbl :: "8 word \<Rightarrow> u32"
  dtbl_addr :: "8 word"
  outs :: "(mmio \<times> u32) list"

definition emit :: "mmio \<Rightarrow> u32 \<Rightarrow> ('h, 'z) hw_scheme \<Rightarrow> ('h, 'z) hw_scheme" where
  "emit r v s = s\<lparr>outs := outs s @ [(r, v)]\<rparr>"

text \<open>Constants of \<open>softcpu_regs.h\<close>.\<close>

definition FDD_BRIDGE_BASE :: u32 where "FDD_BRIDGE_BASE = 0x60000000"
definition FDD_TDS_READ :: u32 where "FDD_TDS_READ = 1"
definition FDD_TDS_WRITE :: u32 where "FDD_TDS_WRITE = 2"
definition FDD_TDS_DONE :: u32 where "FDD_TDS_DONE = 1"
definition FDD_TDS_ERR :: u32 where "FDD_TDS_ERR = 14"
definition SECTOR_BYTES :: u32 where "SECTOR_BYTES = 512"
definition SECTOR_WORDS :: nat where "SECTOR_WORDS = 128"
definition DISK_SPIN_LIMIT :: nat where "DISK_SPIN_LIMIT = 4000000"

definition FDD0_SLOT_ID :: u16 where "FDD0_SLOT_ID = 3"
definition FDD1_SLOT_ID :: u16 where "FDD1_SLOT_ID = 4"
definition HDD0_SLOT_ID :: u16 where "HDD0_SLOT_ID = 5"
definition SETTINGS_SLOT_ID :: u16 where "SETTINGS_SLOT_ID = 7"
definition SETTINGS_SLOT_BYTES :: u32 where "SETTINGS_SLOT_BYTES = 512"

lemmas reg_defs = FDD_BRIDGE_BASE_def FDD_TDS_READ_def FDD_TDS_WRITE_def FDD_TDS_DONE_def
  FDD_TDS_ERR_def SECTOR_BYTES_def SECTOR_WORDS_def

section \<open>The bridge RAM port\<close>

text \<open>\<open>FDD_BRAM_ADDR\<close>, \<open>FDD_BRAM_RDATA\<close> and \<open>FDD_BRAM_WDATA\<close>: ten address bits, and every
  data access moves to the next word.\<close>

definition bram_seek :: "u32 \<Rightarrow> ('h, 'z) hw_scheme \<Rightarrow> ('h, 'z) hw_scheme" where
  "bram_seek a s = s\<lparr>bram_addr := ucast a\<rparr>"

definition bram_read :: "('h, 'z) hw_scheme \<Rightarrow> u32 \<times> ('h, 'z) hw_scheme" where
  "bram_read s = (bram s (bram_addr s), s\<lparr>bram_addr := bram_addr s + 1\<rparr>)"

definition bram_write :: "u32 \<Rightarrow> ('h, 'z) hw_scheme \<Rightarrow> ('h, 'z) hw_scheme" where
  "bram_write w s = s\<lparr>bram := (bram s)(bram_addr s := w), bram_addr := bram_addr s + 1\<rparr>"

lemmas bram_port_defs = bram_seek_def bram_read_def bram_write_def

section \<open>Dataslot transfers\<close>

text \<open>\<open>FDD_TDS_TRIG\<close>: the latched registers go to the host as one command.\<close>

definition tds_trig ::
  "'h apf \<Rightarrow> u32 \<Rightarrow> ('h, 'z) hw_scheme \<Rightarrow> (nat \<Rightarrow> u32) \<times> ('h, 'z) hw_scheme" where
  "tds_trig apf dir s =
     (let rq = \<lparr>rq_slot = tds_id s, rq_offset = tds_offset s, rq_bridge = tds_bridge s,
                rq_length = tds_length s, rq_dir = dir\<rparr>;
          (h', b', st) = apf (host s) rq (bram s)
      in (st, s\<lparr>host := h', bram := b', tds_log := tds_log s @ [rq]\<rparr>))"

text \<open>
  \<open>while (!((st = *FDD_TDS_STATUS) & FDD_TDS_DONE) && --to) {}\<close> with \<open>to > 0\<close> polls left:
  the last status read and what is left of \<open>to\<close>.
\<close>

fun tds_spin :: "(nat \<Rightarrow> u32) \<Rightarrow> nat \<Rightarrow> nat \<Rightarrow> u32 \<times> nat" where
  "tds_spin st k 0 = (st k, 0)"
| "tds_spin st k (Suc t) =
     (if st k AND FDD_TDS_DONE \<noteq> 0 then (st k, Suc t)
      else if t = 0 then (st k, 0)
      else tds_spin st (Suc k) t)"

definition tds_transfer_to ::
  "'h apf \<Rightarrow> u16 \<Rightarrow> u32 \<Rightarrow> u32 \<Rightarrow> u32 \<Rightarrow> u32 \<Rightarrow> ('h, 'z) hw_scheme \<Rightarrow> bool \<times> ('h, 'z) hw_scheme" where
  "tds_transfer_to apf slot offset dir bytes bridge_addr s =
     (let s = s\<lparr>tds_id := slot, tds_offset := offset, tds_bridge := bridge_addr,
                tds_length := bytes\<rparr>;
          (polls, s) = tds_trig apf dir s;
          (st, to) = tds_spin polls 0 DISK_SPIN_LIMIT
      in (to \<noteq> 0 \<and> st AND FDD_TDS_ERR = 0, s))"

definition tds_transfer ::
  "'h apf \<Rightarrow> u16 \<Rightarrow> u32 \<Rightarrow> u32 \<Rightarrow> u32 \<Rightarrow> ('h, 'z) hw_scheme \<Rightarrow> bool \<times> ('h, 'z) hw_scheme" where
  "tds_transfer apf slot offset dir bytes s =
     tds_transfer_to apf slot offset dir bytes FDD_BRIDGE_BASE s"

section \<open>The datatable\<close>

text \<open>The size word's index for a slot id: the first of 32 entries whose low half is the id,
  or \<open>-1\<close>.  The address register is left on the last entry probed.\<close>

fun dtbl_scan :: "u16 \<Rightarrow> nat list \<Rightarrow> ('h, 'z) hw_scheme \<Rightarrow> int \<times> ('h, 'z) hw_scheme" where
  "dtbl_scan sid [] s = (-1, s)"
| "dtbl_scan sid (k # ks) s =
     (let s = s\<lparr>dtbl_addr := of_nat (2 * k)\<rparr>
      in if dtbl s (dtbl_addr s) AND 0xFFFF = ucast sid then (int (2 * k + 1), s)
         else dtbl_scan sid ks s)"

definition dtbl_size_word :: "u16 \<Rightarrow> ('h, 'z) hw_scheme \<Rightarrow> int \<times> ('h, 'z) hw_scheme" where
  "dtbl_size_word sid s = dtbl_scan sid [0..<32] s"

definition slot_bytes :: "u16 \<Rightarrow> ('h, 'z) hw_scheme \<Rightarrow> u32 \<times> ('h, 'z) hw_scheme" where
  "slot_bytes sid s =
     (let (w, s) = dtbl_size_word sid s
      in if w < 0 then (0, s)
         else let s = s\<lparr>dtbl_addr := of_int w\<rparr> in (dtbl s (dtbl_addr s), s))"

definition slot_declare_size :: "u16 \<Rightarrow> u32 \<Rightarrow> ('h, 'z) hw_scheme \<Rightarrow> bool \<times> ('h, 'z) hw_scheme" where
  "slot_declare_size sid bytes s =
     (let (w, s) = dtbl_size_word sid s
      in if w < 0 then (False, s)
         else let s = s\<lparr>dtbl_addr := of_int w\<rparr>
              in (True, s\<lparr>dtbl := (dtbl s)(dtbl_addr s := bytes)\<rparr>))"

section \<open>The polling loop\<close>

definition done_at :: "(nat \<Rightarrow> u32) \<Rightarrow> nat \<Rightarrow> bool" where
  "done_at st i \<longleftrightarrow> st i AND FDD_TDS_DONE \<noteq> 0"

text \<open>The host serves a command when a done status without an error shows up within the spin
  limit; later polls and the error bits of not-done words do not count.\<close>

definition served :: "(nat \<Rightarrow> u32) \<Rightarrow> bool" where
  "served st \<longleftrightarrow>
     (\<exists>i<DISK_SPIN_LIMIT. done_at st i \<and> (\<forall>j<i. \<not> done_at st j) \<and> st i AND FDD_TDS_ERR = 0)"

lemma tds_spin_timeout:
  "(\<And>i. i < t \<Longrightarrow> \<not> done_at st (k + i)) \<Longrightarrow> snd (tds_spin st k t) = 0"
proof (induction t arbitrary: k)
  case 0
  then show ?case by simp
next
  case (Suc t)
  have "\<not> done_at st k" using Suc.prems[of 0] by simp
  moreover have "snd (tds_spin st (Suc k) t) = 0"
  proof (rule Suc.IH)
    fix i assume "i < t"
    then show "\<not> done_at st (Suc k + i)" using Suc.prems[of "Suc i"] by simp
  qed
  ultimately show ?case by (simp add: done_at_def)
qed

lemma tds_spin_first:
  "i < t \<Longrightarrow> done_at st (k + i) \<Longrightarrow> (\<And>j. j < i \<Longrightarrow> \<not> done_at st (k + j)) \<Longrightarrow>
   tds_spin st k t = (st (k + i), t - i)"
proof (induction t arbitrary: k i)
  case 0
  then show ?case by simp
next
  case (Suc t)
  show ?case
  proof (cases i)
    case 0
    with Suc.prems show ?thesis by (simp add: done_at_def)
  next
    case (Suc m)
    have nd: "\<not> done_at st k" using Suc.prems(3)[of 0] Suc by simp
    have "tds_spin st (Suc k) t = (st (Suc k + m), t - m)"
    proof (rule Suc.IH)
      show "m < t" using Suc.prems(1) Suc by simp
      show "done_at st (Suc k + m)" using Suc.prems(2) Suc by simp
      show "\<not> done_at st (Suc k + j)" if "j < m" for j
        using Suc.prems(3)[of "Suc j"] Suc that by simp
    qed
    moreover have "t \<noteq> 0" using Suc.prems(1) Suc by simp
    ultimately show ?thesis using nd Suc by (simp add: done_at_def)
  qed
qed

lemma tds_spin_served:
  "(case tds_spin st 0 DISK_SPIN_LIMIT of (w, to) \<Rightarrow> to \<noteq> 0 \<and> w AND FDD_TDS_ERR = 0) = served st"
proof (cases "\<exists>i<DISK_SPIN_LIMIT. done_at st i")
  case True
  define i where "i = (LEAST i. done_at st i)"
  from True obtain m where m: "m < DISK_SPIN_LIMIT" "done_at st m" by blast
  have d: "done_at st i" unfolding i_def using m(2) by (rule LeastI)
  have first: "\<not> done_at st j" if "j < i" for j using not_less_Least that unfolding i_def by blast
  have "i \<le> m" unfolding i_def using m(2) by (rule Least_le)
  with m have lim: "i < DISK_SPIN_LIMIT" by simp
  have uniq: "j = i" if "done_at st j" "\<forall>l<j. \<not> done_at st l" for j
    using that d first by (meson linorder_neqE_nat)
  have "tds_spin st 0 DISK_SPIN_LIMIT = (st i, DISK_SPIN_LIMIT - i)"
    using tds_spin_first[of i DISK_SPIN_LIMIT st 0] lim d first by simp
  moreover have "served st \<longleftrightarrow> st i AND FDD_TDS_ERR = 0"
    unfolding served_def using lim d first uniq by blast
  ultimately show ?thesis using lim by simp
next
  case False
  then have "snd (tds_spin st 0 DISK_SPIN_LIMIT) = 0" by (intro tds_spin_timeout) auto
  moreover have "\<not> served st" using False by (auto simp: served_def)
  ultimately show ?thesis by (auto split: prod.split)
qed

text \<open>A transfer in closed form: what is asked of the host, and what its answer means.\<close>

abbreviation tds_rq :: "u16 \<Rightarrow> u32 \<Rightarrow> u32 \<Rightarrow> u32 \<Rightarrow> u32 \<Rightarrow> tds_req" where
  "tds_rq slot offset dir bytes ba \<equiv>
     \<lparr>rq_slot = slot, rq_offset = offset, rq_bridge = ba, rq_length = bytes, rq_dir = dir\<rparr>"

lemma tds_transfer_to_eq:
  "tds_transfer_to apf slot offset dir bytes ba s =
     (case apf (host s) (tds_rq slot offset dir bytes ba) (bram s) of (h', b', st) \<Rightarrow>
        (served st,
         s\<lparr>tds_id := slot, tds_offset := offset, tds_bridge := ba, tds_length := bytes,
           host := h', bram := b', tds_log := tds_log s @ [tds_rq slot offset dir bytes ba]\<rparr>))"
  by (simp add: tds_transfer_to_def tds_trig_def Let_def tds_spin_served [symmetric]
      split: prod.splits)

lemma tds_transfer_to_frame:
  assumes "tds_transfer_to apf slot offset dir bytes ba s = (ok, t)"
  shows "hw.more t = hw.more s" "outs t = outs s" "dtbl t = dtbl s" "bram_addr t = bram_addr s"
    "tds_log t = tds_log s @ [tds_rq slot offset dir bytes ba]"
  using assms by (auto simp: tds_transfer_to_eq split: prod.splits)

text \<open>Commands a stretch of code sends, each satisfying \<open>P\<close>.\<close>

definition log_ext :: "(tds_req \<Rightarrow> bool) \<Rightarrow> ('h, 'z) hw_scheme \<Rightarrow> ('h, 'z) hw_scheme \<Rightarrow> bool" where
  "log_ext P s t \<longleftrightarrow> (\<exists>L. tds_log t = tds_log s @ L \<and> (\<forall>rq\<in>set L. P rq))"

lemma log_ext_refl: "tds_log t = tds_log s \<Longrightarrow> log_ext P s t"
  by (simp add: log_ext_def)

lemma log_ext_one: "tds_log t = tds_log s @ [rq] \<Longrightarrow> P rq \<Longrightarrow> log_ext P s t"
  by (simp add: log_ext_def)

lemma log_ext_trans: "log_ext P s t \<Longrightarrow> log_ext P t u \<Longrightarrow> log_ext P s u"
  unfolding log_ext_def by (metis Un_iff append.assoc set_append)

lemma log_ext_mono: "log_ext P s t \<Longrightarrow> (\<And>rq. P rq \<Longrightarrow> Q rq) \<Longrightarrow> log_ext Q s t"
  unfolding log_ext_def by auto

text \<open>The bridge words a stretch of code leaves alone.\<close>

definition bram_keeps :: "(10 word \<Rightarrow> bool) \<Rightarrow> ('h, 'z) hw_scheme \<Rightarrow> ('h, 'z) hw_scheme \<Rightarrow> bool" where
  "bram_keeps K s t \<longleftrightarrow> (\<forall>a. K a \<longrightarrow> bram t a = bram s a)"

lemma bram_keeps_refl: "bram t = bram s \<Longrightarrow> bram_keeps K s t"
  by (simp add: bram_keeps_def)

lemma bram_keeps_trans: "bram_keeps K s t \<Longrightarrow> bram_keeps K t u \<Longrightarrow> bram_keeps K s u"
  by (simp add: bram_keeps_def)

section \<open>The dataslot interface\<close>

text \<open>
  What the services rely on.  \<open>slot_file h slot\<close> is the content the host holds for a slot.  A
  command touches no bridge word outside its span; a write command changes no bridge word; a
  served read inside the file lands exactly the file's bytes and a served write inside the
  file replaces exactly the addressed bytes.  Nothing is said of commands that time out or
  fail: the span may then hold anything.
\<close>

definition rq_word :: "tds_req \<Rightarrow> 10 word" where
  "rq_word rq = ucast (drop_bit 2 (rq_bridge rq))"

definition in_span :: "tds_req \<Rightarrow> 10 word \<Rightarrow> bool" where
  "in_span rq a \<longleftrightarrow> unat (a - rq_word rq) < (unat (rq_length rq) + 3) div 4"

definition overwrite :: "'a list \<Rightarrow> nat \<Rightarrow> 'a list \<Rightarrow> 'a list" where
  "overwrite xs off ys = take off xs @ ys @ drop (off + length ys) xs"

lemma length_overwrite: "off + length ys \<le> length xs \<Longrightarrow> length (overwrite xs off ys) = length xs"
  by (simp add: overwrite_def)

lemma overwrite_append:
  "off + length ys + length zs \<le> length xs \<Longrightarrow>
   overwrite (overwrite xs off ys) (off + length ys) zs = overwrite xs off (ys @ zs)"
  by (simp add: overwrite_def add.assoc add.commute add.left_commute)

lemma overwrite_Nil [simp]: "overwrite xs off [] = xs"
  by (simp add: overwrite_def)

definition rq_inside :: "tds_req \<Rightarrow> nat \<Rightarrow> bool" where
  "rq_inside rq n \<longleftrightarrow> unat (rq_offset rq) + unat (rq_length rq) \<le> n"

locale dataslot =
  fixes apf :: "'h apf"
    and slot_file :: "'h \<Rightarrow> u16 \<Rightarrow> u8 list"
  assumes ram_frame:
      "apf h rq b = (h', b', st) \<Longrightarrow> \<not> in_span rq a \<Longrightarrow> b' a = b a"
    and write_ram:
      "apf h rq b = (h', b', st) \<Longrightarrow> rq_dir rq = FDD_TDS_WRITE \<Longrightarrow> b' = b"
    and read_file:
      "apf h rq b = (h', b', st) \<Longrightarrow> rq_dir rq = FDD_TDS_READ \<Longrightarrow> slot_file h' = slot_file h"
    and read_data:
      "apf h rq b = (h', b', st) \<Longrightarrow> rq_dir rq = FDD_TDS_READ \<Longrightarrow> served st \<Longrightarrow>
       rq_inside rq (length (slot_file h (rq_slot rq))) \<Longrightarrow>
       ram_bytes b' (rq_word rq) (unat (rq_length rq))
         = take (unat (rq_length rq)) (drop (unat (rq_offset rq)) (slot_file h (rq_slot rq)))"
    and write_data:
      "apf h rq b = (h', b', st) \<Longrightarrow> rq_dir rq = FDD_TDS_WRITE \<Longrightarrow> served st \<Longrightarrow>
       rq_inside rq (length (slot_file h (rq_slot rq))) \<Longrightarrow>
       slot_file h' = (slot_file h)(rq_slot rq :=
         overwrite (slot_file h (rq_slot rq)) (unat (rq_offset rq))
           (ram_bytes b (rq_word rq) (unat (rq_length rq))))"

context dataslot
begin

lemma transfer_ram_frame:
  assumes "tds_transfer_to apf slot off dir len ba s = (ok, t)"
    and "\<not> in_span (tds_rq slot off dir len ba) a"
  shows "bram t a = bram s a"
  using assms by (auto simp: tds_transfer_to_eq split: prod.splits dest: ram_frame)

lemma read_keeps_files:
  assumes "tds_transfer_to apf slot off FDD_TDS_READ len ba s = (ok, t)"
  shows "slot_file (host t) = slot_file (host s)"
  using assms by (auto simp: tds_transfer_to_eq split: prod.splits dest: read_file)

lemma read_lands_file:
  assumes "tds_transfer_to apf slot off FDD_TDS_READ len ba s = (True, t)"
    and "unat off + unat len \<le> length (slot_file (host s) slot)"
  shows "ram_bytes (bram t) (ucast (drop_bit 2 ba)) (unat len)
       = take (unat len) (drop (unat off) (slot_file (host s) slot))"
  using assms read_data [of "host s" "tds_rq slot off FDD_TDS_READ len ba" "bram s"]
  by (auto simp: tds_transfer_to_eq rq_inside_def rq_word_def split: prod.splits)

lemma write_updates_file:
  assumes "tds_transfer_to apf slot off FDD_TDS_WRITE len ba s = (True, t)"
    and "unat off + unat len \<le> length (slot_file (host s) slot)"
  shows "slot_file (host t) = (slot_file (host s))(slot :=
           overwrite (slot_file (host s) slot) (unat off)
             (ram_bytes (bram s) (ucast (drop_bit 2 ba)) (unat len)))"
    and "bram t = bram s"
  using assms write_data [of "host s" "tds_rq slot off FDD_TDS_WRITE len ba" "bram s"]
    write_ram [of "host s" "tds_rq slot off FDD_TDS_WRITE len ba" "bram s"]
  by (auto simp: tds_transfer_to_eq rq_inside_def rq_word_def split: prod.splits)

end

text \<open>A host that also serves every command inside its file that fits the bridge RAM; what the
  services deliver, rather than merely never do wrong, is stated against it.\<close>

locale prompt_dataslot = dataslot +
  assumes serves:
    "apf h rq b = (h', b', st) \<Longrightarrow> rq_dir rq = FDD_TDS_READ \<or> rq_dir rq = FDD_TDS_WRITE \<Longrightarrow>
     unat (rq_length rq) \<le> 4096 \<Longrightarrow> rq_inside rq (length (slot_file h (rq_slot rq))) \<Longrightarrow> served st"
begin

lemma transfer_serves:
  assumes "tds_transfer_to apf slot off dir len ba s = (ok, t)"
    and "dir = FDD_TDS_READ \<or> dir = FDD_TDS_WRITE" "unat len \<le> 4096"
    and "unat off + unat len \<le> length (slot_file (host s) slot)"
  shows ok
  using assms serves [of "host s" "tds_rq slot off dir len ba" "bram s"]
  by (auto simp: tds_transfer_to_eq rq_inside_def split: prod.splits)

end

subsection \<open>A host that serves files\<close>

text \<open>
  The host the repository's own harness models (\<open>tds_transfer\<close> in
  \<open>sim/host/scsi_fw_host.cpp\<close>), for any number of slots: a command past the end of its file
  or longer than the bridge RAM is answered with an error, everything else is done at the
  first poll.  A partly filled last word is zero-padded.
\<close>

type_synonym card = "u16 \<Rightarrow> u8 list"

definition land :: "bram \<Rightarrow> 10 word \<Rightarrow> u8 list \<Rightarrow> bram" where
  "land b w bs = (\<lambda>a.
     let d = unat (a - w); byte = (\<lambda>k. if 4 * d + k < length bs then bs ! (4 * d + k) else 0)
     in if d < (length bs + 3) div 4 then pack4 (byte 0) (byte 1) (byte 2) (byte 3) else b a)"

definition card_apf :: "card apf" where
  "card_apf h rq b =
     (let f = h (rq_slot rq); off = unat (rq_offset rq); len = unat (rq_length rq)
      in if \<not> rq_inside rq (length f) \<or> 4096 < len then (h, b, \<lambda>_. 3)
         else if rq_dir rq = FDD_TDS_READ
         then (h, land b (rq_word rq) (take len (drop off f)), \<lambda>_. 1)
         else if rq_dir rq = FDD_TDS_WRITE
         then (h(rq_slot rq := overwrite f off (ram_bytes b (rq_word rq) len)), b, \<lambda>_. 1)
         else (h, b, \<lambda>_. 1))"

lemma served_1 [simp]: "served (\<lambda>_. 1)"
  by (auto simp: served_def done_at_def reg_defs DISK_SPIN_LIMIT_def intro!: exI[of _ 0])

lemma not_served_3 [simp]: "\<not> served (\<lambda>_. 3)"
  by (simp add: served_def done_at_def reg_defs)

lemma land_outside: "\<not> unat (a - w) < (length bs + 3) div 4 \<Longrightarrow> land b w bs a = b a"
  by (simp add: land_def)

lemma ram_bytes_land:
  assumes "length bs \<le> 4096"
  shows "ram_bytes (land b w bs) w (length bs) = bs"
proof (rule nth_equalityI)
  fix i assume "i < length (ram_bytes (land b w bs) w (length bs))"
  then have i: "i < length bs" by simp
  have d: "i div 4 < 1024" using i assms by (simp add: less_mult_imp_div_less)
  have u: "unat (w + of_nat (i div 4) - w) = i div 4"
    using unat_sub_of_nat[of "i div 4" w] d by simp
  have split: "4 * (i div 4) + i mod 4 = i" by simp
  have in_b: "i div 4 < (length bs + 3) div 4" using i by linarith
  have "i mod 4 = 0 \<or> i mod 4 = 1 \<or> i mod 4 = 2 \<or> i mod 4 = 3" by linarith
  then show "ram_bytes (land b w bs) w (length bs) ! i = bs ! i"
    using i in_b split unfolding nth_ram_bytes[OF i] land_def Let_def u
    by (elim disjE) (auto simp: byte_of_pack4)
qed simp

interpretation card: dataslot card_apf "\<lambda>h. h"
proof
  fix h rq b h' b' st a
  assume run: "card_apf h rq b = (h', b', st)" and out: "\<not> in_span rq a"
  show "b' a = b a"
    using run out
    by (auto simp: card_apf_def Let_def in_span_def rq_inside_def intro!: land_outside split: if_splits)
next
  fix h rq b h' b' st
  assume run: "card_apf h rq b = (h', b', st)" and "served st" "rq_dir rq = FDD_TDS_READ"
    and ins: "rq_inside rq (length (h (rq_slot rq)))"
  then have "b' = land b (rq_word rq) (take (unat (rq_length rq)) (drop (unat (rq_offset rq)) (h (rq_slot rq))))"
    and len: "unat (rq_length rq) \<le> 4096"
    by (auto simp: card_apf_def Let_def split: if_splits)
  moreover have "length (take (unat (rq_length rq)) (drop (unat (rq_offset rq)) (h (rq_slot rq)))) = unat (rq_length rq)"
    using ins by (simp add: rq_inside_def)
  ultimately show "ram_bytes b' (rq_word rq) (unat (rq_length rq)) =
      take (unat (rq_length rq)) (drop (unat (rq_offset rq)) (h (rq_slot rq)))"
    using ram_bytes_land len by metis
qed (auto simp: card_apf_def Let_def reg_defs split: if_splits)

interpretation prompt_card: prompt_dataslot card_apf "\<lambda>h. h"
  by unfold_locales (auto simp: card_apf_def Let_def split: if_splits)

end
