(* ===== verification/Mgmt.thy ===== *)
theory Mgmt
  imports Bridge
begin

text \<open>
  The management bus behind \<open>FDD_MGMT_ADDR\<close> / \<open>FDD_MGMT_WDATA\<close> / \<open>FDD_MGMT_TRIG\<close> and the three
  devices on it, as \<open>softcpu_fdd_bridge.sv\<close> routes them: the floppy controller's media
  registers and FIFO port (\<open>fpga/core/common/floppy.v\<close>), the SCSI register window
  (\<open>pc98_scsi.sv\<close> with the eight management registers of \<open>Peripherals.sv\<close>) and the OPNA
  window (\<open>pc98_opna.sv\<close>).  What the guest does to a device between two firmware accesses is
  an input: the request lines, the bytes queued in the FIFO and the OPNA status words are
  streams that each read advances.
\<close>

section \<open>Device state\<close>

text \<open>\<open>floppy.v\<close>'s media registers, per drive (\<open>False\<close> is drive A), and its byte port.\<close>

record fdc =
  media_present :: "bool \<Rightarrow> bool"
  wp_sys :: "bool \<Rightarrow> bool"
  media_cylinders :: "bool \<Rightarrow> u8"
  media_sectors_per_track :: "bool \<Rightarrow> u8"
  media_sector_count :: "bool \<Rightarrow> u16"
  media_heads :: "bool \<Rightarrow> 2 word"
  media_is_1024 :: "bool \<Rightarrow> bool"
  fdc_reg0 :: u16            \<comment> \<open>{selected drive, lba[14:0]} of the pending request\<close>
  fdc_sndev :: u16           \<comment> \<open>drive-noise event taps\<close>
  fdc_popped :: "nat \<Rightarrow> u8"   \<comment> \<open>the bytes successive FIFO reads return\<close>
  fdc_pushed :: "u8 list"     \<comment> \<open>the bytes the firmware pushed, in order\<close>

text \<open>The SCSI window: control file, 8 KB data buffer, the guest's two pointers, the two
  status bytes, the request toggle and the management side's own two addresses.\<close>

record scsi_win =
  ctrl :: "5 word \<Rightarrow> u8"
  dbuf :: "13 word \<Rightarrow> u8"
  rdptr :: "13 word"
  wrptr :: "13 word"
  auxstatus :: u8
  scsistatus :: u8
  cmd_req :: bool
  cmd_byte :: u8
  cmd_ack :: bool
  mg_reg_addr :: "5 word"
  mg_buf_addr :: "13 word"

text \<open>The OPNA window: the rhythm store with its auto-incrementing address, the register
  injections in order, and per register the words successive reads return.\<close>

record opna =
  rhy_addr :: "15 word"
  rhy_mem :: "15 word \<Rightarrow> u8"
  opna_inj :: "(bool \<times> u16) list"
  opna_in :: "u32 \<Rightarrow> nat \<Rightarrow> u16"

record 'h bus = "'h hw" +
  mgmt_addr :: u32
  mgmt_wdata :: u16
  mgmt_rdata :: u16
  fdd_request :: "nat \<Rightarrow> u32"
  fdd :: fdc
  scsi :: scsi_win
  opna :: opna

section \<open>Register constants\<close>

definition SCSI_TARGET :: u32 where "SCSI_TARGET = push_bit 9 1"
definition OPNA_TARGET :: u32 where "OPNA_TARGET = push_bit 10 1"
definition FDD_MGMT_WR :: u32 where "FDD_MGMT_WR = 1"
definition FDD_MGMT_RD :: u32 where "FDD_MGMT_RD = 2"

definition FMGMT_PRESENT :: u32 where "FMGMT_PRESENT = 0"
definition FMGMT_WRPROT :: u32 where "FMGMT_WRPROT = 1"
definition FMGMT_CYLS :: u32 where "FMGMT_CYLS = 2"
definition FMGMT_SPT :: u32 where "FMGMT_SPT = 3"
definition FMGMT_TOTAL :: u32 where "FMGMT_TOTAL = 4"
definition FMGMT_HEADS :: u32 where "FMGMT_HEADS = 5"
definition FMGMT_SECSIZE :: u32 where "FMGMT_SECSIZE = 6"
definition FMGMT_FIFO :: u32 where "FMGMT_FIFO = 0xF"

definition SMGMT_CTRL :: u32 where "SMGMT_CTRL = 0"
definition SMGMT_REGIDX :: u32 where "SMGMT_REGIDX = 1"
definition SMGMT_REGDATA :: u32 where "SMGMT_REGDATA = 2"
definition SMGMT_BUFPTR :: u32 where "SMGMT_BUFPTR = 3"
definition SMGMT_BUFDATA :: u32 where "SMGMT_BUFDATA = 4"
definition SMGMT_AUXSTAT :: u32 where "SMGMT_AUXSTAT = 5"
definition SMGMT_STATUS :: u32 where "SMGMT_STATUS = 6"
definition SMGMT_PTRCLR :: u32 where "SMGMT_PTRCLR = 7"

lemmas mgmt_regs = SCSI_TARGET_def OPNA_TARGET_def FDD_MGMT_WR_def FDD_MGMT_RD_def
  FMGMT_PRESENT_def FMGMT_WRPROT_def FMGMT_CYLS_def FMGMT_SPT_def FMGMT_TOTAL_def
  FMGMT_HEADS_def FMGMT_SECSIZE_def FMGMT_FIFO_def
  SMGMT_CTRL_def SMGMT_REGIDX_def SMGMT_REGDATA_def SMGMT_BUFPTR_def SMGMT_BUFDATA_def
  SMGMT_AUXSTAT_def SMGMT_STATUS_def SMGMT_PTRCLR_def

section \<open>One strobe\<close>

text \<open>The floppy controller: writes land in the media registers of the addressed drive,
  register 15 is the FIFO, register 0 reads the request and every other register reads 1.\<close>

definition fdc_write :: "bool \<Rightarrow> u32 \<Rightarrow> u16 \<Rightarrow> fdc \<Rightarrow> fdc" where
  "fdc_write drv r v d =
     (if r = 0 then d\<lparr>media_present := (media_present d)(drv := bit v 0)\<rparr>
      else if r = 1 then d\<lparr>wp_sys := (wp_sys d)(drv := bit v 0)\<rparr>
      else if r = 2 then d\<lparr>media_cylinders := (media_cylinders d)(drv := ucast v)\<rparr>
      else if r = 3 then d\<lparr>media_sectors_per_track := (media_sectors_per_track d)(drv := ucast v)\<rparr>
      else if r = 4 then d\<lparr>media_sector_count := (media_sector_count d)(drv := v)\<rparr>
      else if r = 5 then d\<lparr>media_heads := (media_heads d)(drv := ucast v)\<rparr>
      else if r = 6 then d\<lparr>media_is_1024 := (media_is_1024 d)(drv := bit v 0)\<rparr>
      else if r = 15 then d\<lparr>fdc_pushed := fdc_pushed d @ [ucast v]\<rparr>
      else d)"

definition fdc_read :: "u32 \<Rightarrow> fdc \<Rightarrow> u16 \<times> fdc" where
  "fdc_read r d =
     (if r = 0 then (fdc_reg0 d, d)
      else if r = 15 then (ucast (fdc_popped d 0), d\<lparr>fdc_popped := (\<lambda>n. fdc_popped d (Suc n))\<rparr>)
      else if r = 14 then (fdc_sndev d, d)
      else (1, d))"

text \<open>The SCSI window's eight registers.\<close>

definition scsi_write :: "u32 \<Rightarrow> u16 \<Rightarrow> scsi_win \<Rightarrow> scsi_win" where
  "scsi_write r v d =
     (if r = 0 then (if bit v 0 then d\<lparr>cmd_ack := cmd_req d\<rparr> else d)
      else if r = 1 then d\<lparr>mg_reg_addr := ucast v\<rparr>
      else if r = 2 then d\<lparr>ctrl := (ctrl d)(mg_reg_addr d := ucast v), mg_reg_addr := mg_reg_addr d + 1\<rparr>
      else if r = 3 then d\<lparr>mg_buf_addr := ucast v\<rparr>
      else if r = 4 then d\<lparr>dbuf := (dbuf d)(mg_buf_addr d := ucast v), mg_buf_addr := mg_buf_addr d + 1\<rparr>
      else if r = 5 then d\<lparr>auxstatus := ucast v\<rparr>
      else if r = 6 then d\<lparr>scsistatus := ucast v\<rparr>
      else if r = 7 then d\<lparr>rdptr := (if bit v 0 then 0 else rdptr d),
                           wrptr := (if bit v 1 then 0 else wrptr d)\<rparr>
      else d)"

definition scsi_read :: "u32 \<Rightarrow> scsi_win \<Rightarrow> u16 \<times> scsi_win" where
  "scsi_read r d =
     (if r = 0 then (push_bit 8 (ucast (cmd_byte d)) OR of_bool (cmd_req d \<noteq> cmd_ack d), d)
      else if r = 2 then (ucast (ctrl d (mg_reg_addr d)), d\<lparr>mg_reg_addr := mg_reg_addr d + 1\<rparr>)
      else if r = 4 then (ucast (dbuf d (mg_buf_addr d)), d\<lparr>mg_buf_addr := mg_buf_addr d + 1\<rparr>)
      else (0, d))"

text \<open>The OPNA window.\<close>

definition opna_write :: "u32 \<Rightarrow> u16 \<Rightarrow> opna \<Rightarrow> opna" where
  "opna_write r v d =
     (if r = 0 then d\<lparr>rhy_addr := ucast v\<rparr>
      else if r = 1 then d\<lparr>rhy_mem := (rhy_mem d)(rhy_addr d := ucast v), rhy_addr := rhy_addr d + 1\<rparr>
      else if r = 2 then d\<lparr>opna_inj := opna_inj d @ [(False, v)]\<rparr>
      else if r = 3 then d\<lparr>opna_inj := opna_inj d @ [(True, v)]\<rparr>
      else d)"

definition opna_read :: "u32 \<Rightarrow> opna \<Rightarrow> u16 \<times> opna" where
  "opna_read r d =
     (opna_in d r 0, d\<lparr>opna_in := (opna_in d)(r := (\<lambda>n. opna_in d r (Suc n)))\<rparr>)"

text \<open>A trigger: bit 10 of the latched address selects the OPNA, bit 9 the SCSI window,
  neither the floppy controller with its drive in bit 4.\<close>

definition mgmt_strobe_wr :: "('h, 'z) bus_scheme \<Rightarrow> ('h, 'z) bus_scheme" where
  "mgmt_strobe_wr s =
     (let r = mgmt_addr s AND 0xF
      in if bit (mgmt_addr s) 10 then s\<lparr>opna := opna_write r (mgmt_wdata s) (opna s)\<rparr>
         else if bit (mgmt_addr s) 9 then s\<lparr>scsi := scsi_write r (mgmt_wdata s) (scsi s)\<rparr>
         else s\<lparr>fdd := fdc_write (bit (mgmt_addr s) 4) r (mgmt_wdata s) (fdd s)\<rparr>)"

definition mgmt_strobe_rd :: "('h, 'z) bus_scheme \<Rightarrow> ('h, 'z) bus_scheme" where
  "mgmt_strobe_rd s =
     (let r = mgmt_addr s AND 0xF
      in if bit (mgmt_addr s) 10
         then let (v, d) = opna_read r (opna s) in s\<lparr>mgmt_rdata := v, opna := d\<rparr>
         else if bit (mgmt_addr s) 9
         then let (v, d) = scsi_read r (scsi s) in s\<lparr>mgmt_rdata := v, scsi := d\<rparr>
         else let (v, d) = fdc_read r (fdd s) in s\<lparr>mgmt_rdata := v, fdd := d\<rparr>)"

text \<open>The three stores of a management write and the two of a read, as every service's
  wrapper issues them.\<close>

definition mgmt_wr :: "u32 \<Rightarrow> u32 \<Rightarrow> ('h, 'z) bus_scheme \<Rightarrow> ('h, 'z) bus_scheme" where
  "mgmt_wr addr data s =
     mgmt_strobe_wr (s\<lparr>mgmt_addr := addr, mgmt_wdata := ucast (data AND 0xFFFF)\<rparr>)"

definition mgmt_rd :: "u32 \<Rightarrow> ('h, 'z) bus_scheme \<Rightarrow> u32 \<times> ('h, 'z) bus_scheme" where
  "mgmt_rd addr s = (let s = mgmt_strobe_rd (s\<lparr>mgmt_addr := addr\<rparr>) in (ucast (mgmt_rdata s), s))"

text \<open>\<open>FDD_MGMT_PUSH\<close>: data and write trigger fused, at the address latched last.\<close>

definition mgmt_push :: "u32 \<Rightarrow> ('h, 'z) bus_scheme \<Rightarrow> ('h, 'z) bus_scheme" where
  "mgmt_push data s = mgmt_strobe_wr (s\<lparr>mgmt_wdata := ucast data\<rparr>)"

text \<open>\<open>FDD_MGMT_TRIG\<close> with the read bit, at the address latched last, and the captured value.\<close>

definition mgmt_pop :: "('h, 'z) bus_scheme \<Rightarrow> u32 \<times> ('h, 'z) bus_scheme" where
  "mgmt_pop s = (let s = mgmt_strobe_rd s in (ucast (mgmt_rdata s), s))"

text \<open>\<open>FDD_REQUEST\<close> is a level the controller drives; every read sees its next value.\<close>

definition read_request :: "('h, 'z) bus_scheme \<Rightarrow> u32 \<times> ('h, 'z) bus_scheme" where
  "read_request s = (fdd_request s 0, s\<lparr>fdd_request := (\<lambda>n. fdd_request s (Suc n))\<rparr>)"

text \<open>The devices as they come out of reset, with nothing pending on any stream.\<close>

definition fdc_reset :: fdc where
  "fdc_reset = \<lparr>media_present = (\<lambda>_. False), wp_sys = (\<lambda>_. False), media_cylinders = (\<lambda>_. 0),
     media_sectors_per_track = (\<lambda>_. 0), media_sector_count = (\<lambda>_. 0), media_heads = (\<lambda>_. 0),
     media_is_1024 = (\<lambda>_. False), fdc_reg0 = 0, fdc_sndev = 0, fdc_popped = (\<lambda>_. 0),
     fdc_pushed = []\<rparr>"

definition scsi_reset :: scsi_win where
  "scsi_reset = \<lparr>ctrl = (\<lambda>_. 0), dbuf = (\<lambda>_. 0), rdptr = 0, wrptr = 0, auxstatus = 0,
     scsistatus = 0, cmd_req = False, cmd_byte = 0, cmd_ack = False, mg_reg_addr = 0,
     mg_buf_addr = 0\<rparr>"

definition opna_reset :: opna where
  "opna_reset = \<lparr>rhy_addr = 0, rhy_mem = (\<lambda>_. 0), opna_inj = [], opna_in = (\<lambda>_ _. 0)\<rparr>"

end
