(* ===== verification/Divider.thy ===== *)
theory Divider
  imports Prelude
begin

text \<open>
  The softcore has no divider: every quotient in the firmware comes from a restoring
  shift-and-subtract loop.  \<open>udiv32\<close> is the routine of \<open>gdc_service.c\<close> and \<open>adpcma_enc.c\<close>
  (it answers a zero divisor with zero and also stores the remainder), \<open>scsi_udiv\<close> the one of
  \<open>scsi_service.c\<close>.  The interface \<open>divider\<close> is what their callers use.
\<close>

section \<open>The restoring loop\<close>

text \<open>One round for bit \<open>i\<close>: shift the next numerator bit into the remainder, subtract when it
  fits, and set the quotient bit.\<close>

definition udiv_round :: "u32 \<Rightarrow> u32 \<Rightarrow> nat \<Rightarrow> u32 \<times> u32 \<Rightarrow> u32 \<times> u32" where
  "udiv_round n d i qr =
     (let (q, r) = qr;
          r = push_bit 1 r OR (drop_bit i n AND 1)
      in if d \<le> r then (q OR push_bit i 1, r - d) else (q, r))"

text \<open>\<open>for (int i = 31; i >= 0; i--)\<close>\<close>

definition udiv_loop :: "u32 \<Rightarrow> u32 \<Rightarrow> u32 \<times> u32" where
  "udiv_loop n d = for_to 32 (\<lambda>k. udiv_round n d (31 - k)) (0, 0)"

definition udiv32 :: "u32 \<Rightarrow> u32 \<Rightarrow> u32 \<times> u32" where
  "udiv32 n d = (if d = 0 then (0, 0) else udiv_loop n d)"

definition scsi_udiv :: "u32 \<Rightarrow> u32 \<Rightarrow> u32" where
  "scsi_udiv n d = fst (udiv_loop n d)"

section \<open>Correctness\<close>

lemma unat_shift_in:
  assumes "unat (w :: u32) < 2 ^ 31"
  shows "unat (push_bit 1 w OR (v AND 1)) = 2 * unat w + of_bool (odd v)"
proof -
  have sum: "push_bit 1 w OR (v AND 1) = push_bit 1 w + (v AND 1)"
    by (rule disjunctive_add_eq_or [symmetric])
      (rule bit_word_eqI, auto simp only: bit_and_iff bit_push_bit_iff bit_1_iff bit_0_eq
        bot_apply bot_bool_def)
  have dbl: "push_bit 1 w = 2 * w" by (simp add: push_bit_eq_mult)
  have low: "v AND 1 = of_bool (odd v)" by (simp add: and_one_eq mod_2_eq_odd)
  show ?thesis
    unfolding sum unfolding dbl low using assms by (auto simp: unat_word_ariths)
qed

lemma quot_rem:
  assumes x: "x = 2 * q * d + (r :: nat)" and "d \<le> r" "r < 2 * d"
  shows "x div d = 2 * q + 1" and "x mod d = r - d"
proof -
  have "x = (2 * q + 1) * d + (r - d)" using assms by (simp add: algebra_simps)
  moreover have "r - d < d" using assms by simp
  ultimately show "x div d = 2 * q + 1" and "x mod d = r - d"
    by (simp_all only: div_mult_self3 mod_mult_self3) auto
qed

lemma quot_rem_less:
  assumes "x = 2 * q * d + (r :: nat)" and "r < d"
  shows "x div d = 2 * q" and "x mod d = r"
  using assms by auto

text \<open>After \<open>k\<close> rounds the top \<open>k\<close> numerator bits have been divided: the quotient sits in the
  top bits, the remainder is exact.\<close>

definition udiv_inv :: "u32 \<Rightarrow> u32 \<Rightarrow> nat \<Rightarrow> u32 \<times> u32 \<Rightarrow> bool" where
  "udiv_inv n d k qr \<longleftrightarrow>
     (let a = unat n div 2 ^ (32 - k) in
      (\<exists>Q. fst qr = push_bit (32 - k) Q \<and> unat Q = a div unat d) \<and> unat (snd qr) = a mod unat d)"

lemma udiv_round_inv:
  assumes d: "d \<noteq> 0" and k: "k < 32" and inv: "udiv_inv n d k (q, r)"
  shows "udiv_inv n d (Suc k) (udiv_round n d (31 - k) (q, r))"
proof -
  define N where "N = 31 - k"
  have N: "32 - k = Suc N" "32 - Suc k = N" "N < 32" using k by (auto simp: N_def)
  define a where "a = unat n div 2 ^ Suc N"
  define b :: nat where "b = of_bool (bit n N)"
  from inv obtain Q where q: "q = push_bit (Suc N) Q" and Q: "unat Q = a div unat d"
    and r: "unat r = a mod unat d"
    by (auto simp: udiv_inv_def N a_def Let_def)
  have a': "unat n div 2 ^ N = 2 * a + b"
  proof -
    have "unat n div 2 ^ N = 2 * (unat n div 2 ^ N div 2) + unat n div 2 ^ N mod 2" by simp
    also have "unat n div 2 ^ N mod 2 = b"
      using bit_iff_odd [of "unat n" N] by (simp add: b_def bit_unsigned_iff mod_2_eq_odd)
    finally show ?thesis by (simp add: a_def div_mult2_eq [symmetric] mult.commute)
  qed
  have "unat n < 2 ^ 32" by (rule order_less_le_trans [OF unsigned_less]) simp
  moreover have "unat n div 2 ^ Suc N \<le> unat n div 2" by (simp add: div_mult2_eq div_le_mono)
  ultimately have a31: "a < 2 ^ 31" by (simp add: a_def)
  define r' where "r' = push_bit 1 r OR (drop_bit N n AND 1)"
  have ur': "unat r' = 2 * (a mod unat d) + b"
  proof -
    have "unat r < 2 ^ 31" using r a31 mod_less_eq_dividend [of a "unat d"] by linarith
    moreover have "odd (drop_bit N n) = bit n N" by (simp add: bit_iff_odd_drop_bit)
    ultimately show ?thesis unfolding r'_def using r by (simp only: unat_shift_in b_def)
  qed
  have d0: "0 < unat d" using d by (simp add: unat_gt_0)
  have "2 * a = 2 * (a div unat d * unat d + a mod unat d)" by simp
  then have split: "2 * a + b = 2 * (a div unat d) * unat d + unat r'"
    unfolding ur' by (simp only: distrib_left mult.assoc add.assoc)
  have small: "unat r' < 2 * unat d"
    using mod_less_divisor [OF d0, of a] by (simp add: ur' b_def split: if_splits)
  have Q31: "unat Q < 2 ^ 31" using Q a31 div_le_dividend [of a "unat d"] by linarith
  show ?thesis
  proof (cases "d \<le> r'")
    case True
    have ge: "unat d \<le> unat r'" using True by (simp add: word_le_nat_alt)
    have step: "udiv_round n d N (q, r) = (q OR push_bit N 1, r' - d)"
      using True by (simp add: udiv_round_def Let_def r'_def)
    have "q OR push_bit N 1 = push_bit N (push_bit 1 Q OR (1 AND 1))"
      by (rule bit_word_eqI) (auto simp: q bit_simps)
    moreover have "unat (push_bit 1 Q OR (1 AND 1)) = (2 * a + b) div unat d"
      using unat_shift_in [OF Q31, of 1] Q quot_rem [OF split ge small] by simp
    moreover have "unat (r' - d) = (2 * a + b) mod unat d"
      using quot_rem [OF split ge small] ge by (simp add: unat_sub_if')
    ultimately show ?thesis
      unfolding N_def [symmetric] step unfolding udiv_inv_def N a' Let_def fst_conv snd_conv
      by blast
  next
    case False
    have lt: "unat r' < unat d" using False by (simp add: word_le_nat_alt)
    have step: "udiv_round n d N (q, r) = (q, r')"
      using False by (simp add: udiv_round_def Let_def r'_def)
    have "q = push_bit N (push_bit 1 Q OR (0 AND 1))"
      by (rule bit_word_eqI) (auto simp: q bit_simps)
    moreover have "unat (push_bit 1 Q OR (0 AND 1)) = (2 * a + b) div unat d"
      using unat_shift_in [OF Q31, of 0] Q quot_rem_less [OF split lt] by simp
    moreover have "unat r' = (2 * a + b) mod unat d"
      using quot_rem_less [OF split lt] by simp
    ultimately show ?thesis
      unfolding N_def [symmetric] step unfolding udiv_inv_def N a' Let_def fst_conv snd_conv
      by blast
  qed
qed

lemma udiv_loop_correct:
  assumes "d \<noteq> 0"
  shows "udiv_loop n d = (n div d, n mod d)"
proof -
  have "udiv_inv n d 32 (udiv_loop n d)"
    unfolding udiv_loop_def
  proof (rule for_to_inv)
    have "unat n < 2 ^ 32" by (rule order_less_le_trans [OF unsigned_less]) simp
    then show "udiv_inv n d 0 (0, 0)" by (auto simp: udiv_inv_def intro!: exI [of _ 0])
  qed (use assms udiv_round_inv in auto)
  then show ?thesis
    by (auto simp: udiv_inv_def Let_def word_unat_eq_iff unat_div unat_mod prod_eq_iff)
qed

section \<open>The interface the callers use\<close>

text \<open>An unsigned quotient: exact for every non-zero divisor.\<close>

locale divider =
  fixes quot :: "u32 \<Rightarrow> u32 \<Rightarrow> u32"
  assumes unat_quot: "d \<noteq> 0 \<Longrightarrow> unat (quot n d) = unat n div unat d"
begin

lemma quot_times_le: "d \<noteq> 0 \<Longrightarrow> unat (quot n d) * unat d \<le> unat n"
  by (simp add: unat_quot)

lemma quot_le_self: "d \<noteq> 0 \<Longrightarrow> unat (quot n d) \<le> unat n"
  by (simp add: unat_quot)

lemma quot_le_bound: "d \<noteq> 0 \<Longrightarrow> unat n \<le> k * unat d \<Longrightarrow> unat (quot n d) \<le> k"
  using div_le_mono [of "unat n" "k * unat d" "unat d"] by (simp add: unat_quot unat_gt_0)

lemma quot_mono: "d \<noteq> 0 \<Longrightarrow> m \<le> n \<Longrightarrow> quot m d \<le> quot n d"
  by (simp add: word_le_nat_alt unat_quot div_le_mono)

end

interpretation soft_div: divider "\<lambda>n d. fst (udiv32 n d)"
  by unfold_locales (simp add: udiv32_def udiv_loop_correct unat_div)

interpretation scsi_div: divider scsi_udiv
  by unfold_locales (simp add: scsi_udiv_def udiv_loop_correct unat_div)

section \<open>Property\<close>

text \<open>C11: The software divider of the drawing processor and of the ADPCM encoder returns the
  exact 32-bit quotient and remainder for every numerator and every non-zero divisor,
  including divisors above \<open>2^31\<close> where the shifted remainder fills all 32 bits, and returns
  zero for both when the divisor is zero.\<close>

theorem udiv32_exact: "udiv32 n d = (if d = 0 then (0, 0) else (n div d, n mod d))"
  by (simp add: udiv32_def udiv_loop_correct)

end
