(* ===== verification/Scsi.thy ===== *)
theory Scsi
  imports Mgmt Divider
begin

text \<open>
  \<open>firmware/scsi_service.c\<close>: the SCSI-1 direct-access target behind the PC-9801-55 register
  window.  First the service itself in the order of the C file, then what its pieces do to
  the window and to the image, and the properties of one \<open>scsi_poll\<close>.
\<close>

section \<open>Constants and state\<close>

definition CDB_BASE :: u32 where "CDB_BASE = 3"
definition CDB_MAX :: nat where "CDB_MAX = 12"
definition SCSI_GOOD :: u8 where "SCSI_GOOD = 0"
definition SCSI_CHECK_CONDITION :: u8 where "SCSI_CHECK_CONDITION = 2"
definition SENSE_NO_SENSE :: u8 where "SENSE_NO_SENSE = 0"
definition SENSE_NOT_READY :: u8 where "SENSE_NOT_READY = 2"
definition SENSE_ILLEGAL_REQ :: u8 where "SENSE_ILLEGAL_REQ = 5"
definition SCSI_MAX_BLOCKS :: u32 where "SCSI_MAX_BLOCKS = 16"
definition HDR_POISON :: u32 where "HDR_POISON = 0xA55AC33C"

lemmas scsi_consts = SCSI_GOOD_def SCSI_CHECK_CONDITION_def SENSE_NO_SENSE_def
  SENSE_NOT_READY_def SENSE_ILLEGAL_REQ_def

record 'h scsi_st = "'h bus" +
  scsi_sectors :: u32
  scsi_base :: u32
  scsi_cyls :: u32
  scsi_heads :: u32
  scsi_spt :: u32
  scsi_sense_key :: u8
  scsi_asc :: u8
  scsi_ack :: bool
  scsi_bytes :: u32
  scsi_reprobe :: bool
  ms_n :: u32
  ms_alloc :: u32

section \<open>The register window\<close>

definition scsi_mgmt_write :: "u32 \<Rightarrow> u32 \<Rightarrow> ('h, 'z) bus_scheme \<Rightarrow> ('h, 'z) bus_scheme" where
  "scsi_mgmt_write reg data s = mgmt_wr (SCSI_TARGET OR (reg AND 0xF)) data s"

definition scsi_mgmt_read :: "u32 \<Rightarrow> ('h, 'z) bus_scheme \<Rightarrow> u32 \<times> ('h, 'z) bus_scheme" where
  "scsi_mgmt_read reg s = mgmt_rd (SCSI_TARGET OR (reg AND 0xF)) s"

definition scsi_cdb_byte :: "('h, 'z) bus_scheme \<Rightarrow> u8 \<times> ('h, 'z) bus_scheme" where
  "scsi_cdb_byte s = (let (v, s) = scsi_mgmt_read SMGMT_REGDATA s in (ucast (v AND 0xFF), s))"

definition scsi_get_cdb :: "('h, 'z) bus_scheme \<Rightarrow> u8 list \<times> ('h, 'z) bus_scheme" where
  "scsi_get_cdb s =
     collect CDB_MAX scsi_cdb_byte (scsi_mgmt_write SMGMT_REGIDX CDB_BASE s)"

definition scsi_put :: "u8 \<Rightarrow> ('h, 'z) bus_scheme \<Rightarrow> ('h, 'z) bus_scheme" where
  "scsi_put v s = scsi_mgmt_write SMGMT_BUFDATA (ucast v) s"

definition scsi_get :: "('h, 'z) bus_scheme \<Rightarrow> u8 \<times> ('h, 'z) bus_scheme" where
  "scsi_get s = (let (v, s) = scsi_mgmt_read SMGMT_BUFDATA s in (ucast (v AND 0xFF), s))"

definition scsi_rewind_write :: "('h, 'z) bus_scheme \<Rightarrow> ('h, 'z) bus_scheme" where
  "scsi_rewind_write s = scsi_mgmt_write SMGMT_PTRCLR 2 s"

definition scsi_rewind_read :: "('h, 'z) bus_scheme \<Rightarrow> ('h, 'z) bus_scheme" where
  "scsi_rewind_read s = scsi_mgmt_write SMGMT_PTRCLR 1 s"

definition scsi_buf_seek :: "u32 \<Rightarrow> ('h, 'z) bus_scheme \<Rightarrow> ('h, 'z) bus_scheme" where
  "scsi_buf_seek p s = scsi_mgmt_write SMGMT_BUFPTR p s"

definition scsi_complete :: "u8 \<Rightarrow> ('h, 'z) bus_scheme \<Rightarrow> ('h, 'z) bus_scheme" where
  "scsi_complete status s =
     scsi_mgmt_write SMGMT_AUXSTAT 0x80 (scsi_mgmt_write SMGMT_STATUS (ucast status) s)"

definition scsi_fail :: "u8 \<Rightarrow> u8 \<Rightarrow> ('h, 'z) scsi_st_scheme \<Rightarrow> ('h, 'z) scsi_st_scheme" where
  "scsi_fail key asc s =
     scsi_complete SCSI_CHECK_CONDITION (s\<lparr>scsi_sense_key := key, scsi_asc := asc\<rparr>)"

definition scsi_ok :: "('h, 'z) scsi_st_scheme \<Rightarrow> ('h, 'z) scsi_st_scheme" where
  "scsi_ok s = scsi_complete SCSI_GOOD (s\<lparr>scsi_sense_key := SENSE_NO_SENSE, scsi_asc := 0\<rparr>)"

section \<open>Moving sectors\<close>

text \<open>One bridge word into the buffer, little end first, and back.\<close>

definition push_word :: "('h, 'z) bus_scheme \<Rightarrow> ('h, 'z) bus_scheme" where
  "push_word s =
     (let (w, s) = bram_read s;
          s = scsi_put (ucast (w AND 0xFF)) s;
          s = scsi_put (ucast (drop_bit 8 w AND 0xFF)) s;
          s = scsi_put (ucast (drop_bit 16 w AND 0xFF)) s
      in scsi_put (ucast (drop_bit 24 w AND 0xFF)) s)"

definition drain_word :: "('h, 'z) bus_scheme \<Rightarrow> ('h, 'z) bus_scheme" where
  "drain_word s =
     (let (b0, s) = scsi_get s;
          (b1, s) = scsi_get s;
          (b2, s) = scsi_get s;
          (b3, s) = scsi_get s
      in bram_write (pack4 b0 b1 b2 b3) s)"

definition scsi_push_sector ::
  "'h apf \<Rightarrow> u32 \<Rightarrow> ('h, 'z) scsi_st_scheme \<Rightarrow> bool \<times> ('h, 'z) scsi_st_scheme" where
  "scsi_push_sector apf lba s =
     (let (ok, s) = tds_transfer apf HDD0_SLOT_ID (scsi_base s + lba * SECTOR_BYTES)
                      FDD_TDS_READ SECTOR_BYTES s
      in if \<not> ok then (False, s)
         else (True, for_to SECTOR_WORDS (\<lambda>_. push_word) (bram_seek 0 s)))"

definition scsi_drain_sector ::
  "'h apf \<Rightarrow> u32 \<Rightarrow> ('h, 'z) scsi_st_scheme \<Rightarrow> bool \<times> ('h, 'z) scsi_st_scheme" where
  "scsi_drain_sector apf lba s =
     (let s = for_to SECTOR_WORDS (\<lambda>_. drain_word) (bram_seek 0 s)
      in tds_transfer apf HDD0_SLOT_ID (scsi_base s + lba * SECTOR_BYTES)
           FDD_TDS_WRITE SECTOR_BYTES s)"

text \<open>The block loops of \<open>scsi_do_read\<close> and \<open>scsi_do_write\<close>, stopping at the first failure.\<close>

fun sector_loop :: "(u32 \<Rightarrow> 's \<Rightarrow> bool \<times> 's) \<Rightarrow> u32 \<Rightarrow> nat \<Rightarrow> 's \<Rightarrow> bool \<times> 's" where
  "sector_loop move lba 0 s = (True, s)"
| "sector_loop move lba (Suc n) s =
     (let (ok, s) = move lba s
      in if ok then sector_loop move (lba + 1) n s else (False, s))"

definition scsi_do_read ::
  "'h apf \<Rightarrow> u32 \<Rightarrow> u32 \<Rightarrow> ('h, 'z) scsi_st_scheme \<Rightarrow> ('h, 'z) scsi_st_scheme" where
  "scsi_do_read apf lba blocks s =
     (if scsi_sectors s = 0 then scsi_fail SENSE_NOT_READY 0x3A s
      else if blocks = 0 then scsi_ok s
      else
        let blocks = (if SCSI_MAX_BLOCKS < blocks then SCSI_MAX_BLOCKS else blocks)
        in if scsi_sectors s \<le> lba \<or> scsi_sectors s < lba + blocks
           then scsi_fail SENSE_ILLEGAL_REQ 0x21 s
           else
             let s = scsi_buf_seek 0 (scsi_rewind_write s);
                 (ok, s) = sector_loop (scsi_push_sector apf) lba (unat blocks) s
             in if ok then scsi_ok (scsi_rewind_read s) else scsi_fail SENSE_NOT_READY 0x11 s)"

definition scsi_do_write ::
  "'h apf \<Rightarrow> u32 \<Rightarrow> u32 \<Rightarrow> ('h, 'z) scsi_st_scheme \<Rightarrow> ('h, 'z) scsi_st_scheme" where
  "scsi_do_write apf lba blocks s =
     (if scsi_sectors s = 0 then scsi_fail SENSE_NOT_READY 0x3A s
      else if blocks = 0 then scsi_ok s
      else
        let blocks = (if SCSI_MAX_BLOCKS < blocks then SCSI_MAX_BLOCKS else blocks)
        in if scsi_sectors s \<le> lba \<or> scsi_sectors s < lba + blocks
           then scsi_fail SENSE_ILLEGAL_REQ 0x21 s
           else
             let (ok, s) = sector_loop (scsi_drain_sector apf) lba (unat blocks) (scsi_buf_seek 0 s)
             in if ok then scsi_ok (scsi_rewind_write s) else scsi_fail SENSE_NOT_READY 0x0C s)"

section \<open>The commands that answer from the target's own state\<close>

definition scsi_inquiry_data :: "u8 list" where
  "scsi_inquiry_data =
     [0, 0, 1, 1, 31, 0, 0, 0] @ map of_char ''NEC     '' @ map of_char ''PC-98 HDD       ''
     @ map of_char ''1.00''"

definition scsi_do_inquiry :: "u32 \<Rightarrow> ('h, 'z) scsi_st_scheme \<Rightarrow> ('h, 'z) scsi_st_scheme" where
  "scsi_do_inquiry alloc s =
     (let alloc = (if alloc = 0 \<or> 36 < alloc then 36 else alloc);
          s = scsi_buf_seek 0 (scsi_rewind_write s);
          s = for_to (unat alloc) (\<lambda>i. scsi_put (scsi_inquiry_data ! i)) s
      in scsi_ok (scsi_rewind_read s))"

definition scsi_do_read_capacity :: "('h, 'z) scsi_st_scheme \<Rightarrow> ('h, 'z) scsi_st_scheme" where
  "scsi_do_read_capacity s =
     (if scsi_sectors s = 0 then scsi_fail SENSE_NOT_READY 0x3A s
      else
        let last = scsi_sectors s - 1;
            s = scsi_buf_seek 0 (scsi_rewind_write s);
            s = scsi_put (ucast (drop_bit 24 last)) s;
            s = scsi_put (ucast (drop_bit 16 last)) s;
            s = scsi_put (ucast (drop_bit 8 last)) s;
            s = scsi_put (ucast last) s;
            s = scsi_put 0 s; s = scsi_put 0 s; s = scsi_put 2 s; s = scsi_put 0 s
        in scsi_ok (scsi_rewind_read s))"

definition scsi_sense_data :: "u8 \<Rightarrow> u8 \<Rightarrow> u8 list" where
  "scsi_sense_data key asc = (replicate 18 0)[0 := 0x70, 2 := key, 7 := 10, 12 := asc]"

definition scsi_do_request_sense :: "u32 \<Rightarrow> ('h, 'z) scsi_st_scheme \<Rightarrow> ('h, 'z) scsi_st_scheme" where
  "scsi_do_request_sense alloc s =
     (let d = scsi_sense_data (scsi_sense_key s) (scsi_asc s);
          alloc = (if alloc = 0 \<or> 18 < alloc then 18 else alloc);
          s = scsi_buf_seek 0 (scsi_rewind_write s);
          s = for_to (unat alloc) (\<lambda>i. scsi_put (d ! i)) s;
          s = scsi_rewind_read s
      in scsi_complete SCSI_GOOD (s\<lparr>scsi_sense_key := SENSE_NO_SENSE, scsi_asc := 0\<rparr>))"

definition ms_put :: "u32 \<Rightarrow> ('h, 'z) scsi_st_scheme \<Rightarrow> ('h, 'z) scsi_st_scheme" where
  "ms_put v s =
     (let s = (if ms_n s < ms_alloc s then scsi_put (ucast v) s else s)
      in s\<lparr>ms_n := ms_n s + 1\<rparr>)"

definition ms_zero :: "nat \<Rightarrow> ('h, 'z) scsi_st_scheme \<Rightarrow> ('h, 'z) scsi_st_scheme" where
  "ms_zero count s = for_to count (\<lambda>_. ms_put 0) s"

definition ms_page3 :: "('h, 'z) scsi_st_scheme \<Rightarrow> ('h, 'z) scsi_st_scheme" where
  "ms_page3 s =
     (let s = ms_put 0x03 s;
          s = ms_put 0x16 s;
          s = ms_zero 8 s;
          s = ms_put (drop_bit 8 (scsi_spt s)) s;
          s = ms_put (scsi_spt s) s;
          s = ms_put (drop_bit 8 SECTOR_BYTES) s;
          s = ms_put (SECTOR_BYTES AND 0xFF) s;
          s = ms_put 0 s;
          s = ms_put 1 s;
          s = ms_zero 4 s;
          s = ms_put 0x40 s
      in ms_zero 3 s)"

definition ms_page4 :: "('h, 'z) scsi_st_scheme \<Rightarrow> ('h, 'z) scsi_st_scheme" where
  "ms_page4 s =
     (let s = ms_put 0x04 s;
          s = ms_put 0x16 s;
          s = ms_put (drop_bit 16 (scsi_cyls s)) s;
          s = ms_put (drop_bit 8 (scsi_cyls s)) s;
          s = ms_put (scsi_cyls s) s;
          s = ms_put (scsi_heads s) s
      in ms_zero 18 s)"

definition ms_block_desc :: "u32 \<Rightarrow> ('h, 'z) scsi_st_scheme \<Rightarrow> ('h, 'z) scsi_st_scheme" where
  "ms_block_desc blocks s =
     (let s = ms_put 0 s;
          s = ms_put (drop_bit 16 blocks) s;
          s = ms_put (drop_bit 8 blocks) s;
          s = ms_put blocks s;
          s = ms_put 0 s;
          s = ms_put 0 s;
          s = ms_put 2 s
      in ms_put 0 s)"

definition scsi_do_mode_sense :: "u8 list \<Rightarrow> ('h, 'z) scsi_st_scheme \<Rightarrow> ('h, 'z) scsi_st_scheme" where
  "scsi_do_mode_sense cdb s =
     (let page = (ucast (cdb ! 2) AND 0x3F :: u32);
          p3 = (page = 0x03 \<or> page = 0x3F);
          p4 = (page = 0x04 \<or> page = 0x3F)
      in if \<not> p3 \<and> \<not> p4 \<and> page \<noteq> 0 then scsi_fail SENSE_ILLEGAL_REQ 0x24 s
         else
           let bdl = (if cdb ! 1 AND 0x08 \<noteq> 0 then 0 else 8 :: u32);
               blocks = (if 0xFFFFFF < scsi_sectors s then 0xFFFFFF else scsi_sectors s);
               s = s\<lparr>ms_n := 0, ms_alloc := ucast (cdb ! 4)\<rparr>;
               s = scsi_buf_seek 0 (scsi_rewind_write s);
               s = ms_put (3 + bdl + (if p3 then 24 else 0) + (if p4 then 24 else 0)) s;
               s = ms_put 0 s;
               s = ms_put 0 s;
               s = ms_put bdl s;
               s = (if bdl \<noteq> 0 then ms_block_desc blocks s else s);
               s = (if p3 then ms_page3 s else s);
               s = (if p4 then ms_page4 s else s)
           in scsi_ok (scsi_rewind_read s))"

section \<open>Classifying the image\<close>

definition hdr8 :: "u32 \<Rightarrow> ('h, 'z) hw_scheme \<Rightarrow> u32 \<times> ('h, 'z) hw_scheme" where
  "hdr8 b s =
     (let (w, s) = bram_read (bram_seek (drop_bit 2 b) s)
      in (drop_bit (unat ((b AND 3) * 8)) w AND 0xFF, s))"

definition hdr16 :: "u32 \<Rightarrow> ('h, 'z) hw_scheme \<Rightarrow> u32 \<times> ('h, 'z) hw_scheme" where
  "hdr16 b s =
     (let (lo, s) = hdr8 b s;
          (hi, s) = hdr8 (b + 1) s
      in (lo OR push_bit 8 hi, s))"

definition hdr32 :: "u32 \<Rightarrow> ('h, 'z) hw_scheme \<Rightarrow> u32 \<times> ('h, 'z) hw_scheme" where
  "hdr32 b s =
     (let (lo, s) = hdr16 b s;
          (hi, s) = hdr16 (b + 2) s
      in (lo OR push_bit 16 hi, s))"

definition hdr_poison :: "('h, 'z) hw_scheme \<Rightarrow> ('h, 'z) hw_scheme" where
  "hdr_poison s =
     for_to SECTOR_WORDS (\<lambda>i. bram_write (HDR_POISON XOR of_nat i)) (bram_seek 0 s)"

text \<open>One word of the scan: the poisoned-word count and the rotating checksum.\<close>

definition hdr_scan_word :: "nat \<Rightarrow> u32 \<times> u32 \<times> ('h, 'z) hw_scheme \<Rightarrow> u32 \<times> u32 \<times> ('h, 'z) hw_scheme" where
  "hdr_scan_word i acc =
     (let (sm, poisoned, s) = acc;
          (w, s) = bram_read s;
          poisoned = (if w = HDR_POISON XOR of_nat i then poisoned + 1 else poisoned)
      in ((push_bit 5 sm OR drop_bit 27 sm) XOR w, poisoned, s))"

definition hdr_scan :: "('h, 'z) hw_scheme \<Rightarrow> u32 \<times> u32 \<times> ('h, 'z) hw_scheme" where
  "hdr_scan s = for_to SECTOR_WORDS hdr_scan_word (0, 0, bram_seek 0 s)"

text \<open>One pass of \<open>hdr_read\<close>'s loop: \<open>None\<close> is its \<open>return 0\<close>, \<open>Some\<close> the sum it keeps.\<close>

definition hdr_pass :: "'h apf \<Rightarrow> ('h, 'z) hw_scheme \<Rightarrow> u32 option \<times> ('h, 'z) hw_scheme" where
  "hdr_pass apf s =
     (let s = hdr_poison s;
          (ok, s) = tds_transfer apf HDD0_SLOT_ID 0 FDD_TDS_READ SECTOR_BYTES s
      in if \<not> ok then (None, s)
         else let (sm, poisoned, s) = hdr_scan s
              in if of_nat (SECTOR_WORDS div 2) < poisoned then (None, s) else (Some sm, s))"

definition hdr_read :: "'h apf \<Rightarrow> ('h, 'z) hw_scheme \<Rightarrow> bool \<times> ('h, 'z) hw_scheme" where
  "hdr_read apf s =
     (case hdr_pass apf s of
        (None, s) \<Rightarrow> (False, s)
      | (Some sum0, s) \<Rightarrow>
          (case hdr_pass apf s of
             (None, s) \<Rightarrow> (False, s)
           | (Some sum1, s) \<Rightarrow> (sum0 = sum1, s)))"

fun hdr_sig_from :: "u32 \<Rightarrow> string \<Rightarrow> ('h, 'z) hw_scheme \<Rightarrow> bool \<times> ('h, 'z) hw_scheme" where
  "hdr_sig_from i [] s = (True, s)"
| "hdr_sig_from i (c # cs) s =
     (let (b, s) = hdr8 i s
      in if b \<noteq> of_char c then (False, s) else hdr_sig_from (i + 1) cs s)"

definition hdr_sig :: "string \<Rightarrow> ('h, 'z) hw_scheme \<Rightarrow> bool \<times> ('h, 'z) hw_scheme" where
  "hdr_sig sig s = hdr_sig_from 0 sig s"

text \<open>The header fields \<open>scsi_probe\<close> collects into its locals.\<close>

record hdr_geom =
  g_hsize :: u32
  g_ssize :: u32
  g_c :: u32
  g_hd :: u32
  g_s :: u32
  g_total :: u32

definition geom0 :: hdr_geom where
  "geom0 = \<lparr>g_hsize = 0, g_ssize = 0, g_c = 0, g_hd = 0, g_s = 0, g_total = 0\<rparr>"

definition hdi_implausible :: "hdr_geom \<Rightarrow> u32 \<Rightarrow> bool" where
  "hdi_implausible g bytes \<longleftrightarrow>
     (let sh = (if g_ssize g = 256 then 8 else if g_ssize g = 512 then 9 else 10 :: nat)
      in g_hsize g < 0x20 \<or> 0x100000 < g_hsize g \<or> g_s g = 0 \<or> 255 < g_s g
         \<or> g_hd g = 0 \<or> 255 < g_hd g \<or> g_c g = 0 \<or> 0xFFFF < g_c g
         \<or> (g_ssize g \<noteq> 256 \<and> g_ssize g \<noteq> 512 \<and> g_ssize g \<noteq> 1024)
         \<or> (ucast bytes :: 64 word)
             < push_bit sh (ucast (g_s g * g_hd g) * ucast (g_c g)) + ucast (g_hsize g))"

definition probe_header :: "u32 \<Rightarrow> ('h, 'z) hw_scheme \<Rightarrow> hdr_geom \<times> ('h, 'z) hw_scheme" where
  "probe_header bytes s =
     (let (nhd, s) = hdr_sig ''T98HDDIMAGE.R0'' s
      in if nhd then
           let (hsize, s) = hdr32 0x110 s; (c, s) = hdr32 0x114 s; (hd, s) = hdr16 0x118 s;
               (sp, s) = hdr16 0x11A s; (ssize, s) = hdr16 0x11C s
           in (geom0\<lparr>g_hsize := hsize, g_c := c, g_hd := hd, g_s := sp, g_ssize := ssize\<rparr>, s)
         else
           let (vhd, s) = hdr_sig ''VHD1.'' s
           in if vhd then
                let (ssize, s) = hdr16 0x8E s; (sp, s) = hdr8 0x90 s; (hd, s) = hdr8 0x91 s;
                    (c, s) = hdr16 0x92 s; (total, s) = hdr32 0x94 s
                in (geom0\<lparr>g_hsize := 220, g_ssize := ssize, g_s := sp, g_hd := hd, g_c := c,
                      g_total := total\<rparr>, s)
              else
                let (first, s) = hdr32 0 s
                in if first = 0 then
                     let (hsize, s) = hdr32 0x08 s; (ssize, s) = hdr32 0x10 s;
                         (sp, s) = hdr32 0x14 s; (hd, s) = hdr32 0x18 s; (c, s) = hdr32 0x1C s;
                         g = geom0\<lparr>g_hsize := hsize, g_ssize := ssize, g_s := sp, g_hd := hd,
                               g_c := c\<rparr>
                     in (if hdi_implausible g bytes then g\<lparr>g_ssize := 0\<rparr> else g, s)
                   else (geom0, s))"

text \<open>What \<open>scsi_probe\<close> does with the fields: a header the board can serve, one it refuses, or
  the flat image.\<close>

definition probe_classify ::
  "u32 \<Rightarrow> hdr_geom \<Rightarrow> ('h, 'z) scsi_st_scheme \<Rightarrow> ('h, 'z) scsi_st_scheme" where
  "probe_classify bytes g s =
     (if g_ssize g \<noteq> 0 then
        (if g_ssize g \<noteq> SECTOR_BYTES \<or> g_hsize g AND 3 \<noteq> 0 \<or> bytes \<le> g_hsize g
            \<or> g_s g = 0 \<or> 255 < g_s g \<or> g_hd g = 0 \<or> 255 < g_hd g
            \<or> g_c g = 0 \<or> 0xFFFF < g_c g
         then s\<lparr>scsi_sectors := 0\<rparr>
         else
           let fits = drop_bit 9 (bytes - g_hsize g);
               total = (if g_total g = 0 then g_c g * g_hd g * g_s g else g_total g)
           in s\<lparr>scsi_base := g_hsize g, scsi_spt := g_s g, scsi_heads := g_hd g,
                scsi_cyls := g_c g, scsi_sectors := (if total < fits then total else fits)\<rparr>)
      else
        let sectors = drop_bit 9 bytes;
            cyls = scsi_udiv sectors 200
        in s\<lparr>scsi_sectors := sectors, scsi_cyls := (if 0xFFFF < cyls then 0xFFFF else cyls)\<rparr>)"

definition scsi_probe ::
  "'h apf \<Rightarrow> u32 \<Rightarrow> ('h, 'z) scsi_st_scheme \<Rightarrow> bool \<times> ('h, 'z) scsi_st_scheme" where
  "scsi_probe apf bytes s =
     (let (ok, s) = hdr_read apf s
      in if \<not> ok then (False, s)
         else
           let s = s\<lparr>scsi_base := 0, scsi_spt := 25, scsi_heads := 8, scsi_sectors := 0\<rparr>;
               (g, s) = probe_header bytes s
           in (True, probe_classify bytes g s))"

section \<open>The command dispatch\<close>

definition cdb_lba6 :: "u8 list \<Rightarrow> u32" where
  "cdb_lba6 cdb =
     push_bit 16 (ucast (cdb ! 1) AND 0x1F) OR push_bit 8 (ucast (cdb ! 2)) OR ucast (cdb ! 3)"

definition cdb_blocks6 :: "u8 list \<Rightarrow> u32" where
  "cdb_blocks6 cdb = (if cdb ! 4 \<noteq> 0 then ucast (cdb ! 4) else 256)"

definition cdb_lba10 :: "u8 list \<Rightarrow> u32" where
  "cdb_lba10 cdb =
     push_bit 24 (ucast (cdb ! 2)) OR push_bit 16 (ucast (cdb ! 3))
     OR push_bit 8 (ucast (cdb ! 4)) OR ucast (cdb ! 5)"

definition cdb_blocks10 :: "u8 list \<Rightarrow> u32" where
  "cdb_blocks10 cdb = push_bit 8 (ucast (cdb ! 7)) OR ucast (cdb ! 8)"

definition scsi_reclassify :: "'h apf \<Rightarrow> ('h, 'z) scsi_st_scheme \<Rightarrow> ('h, 'z) scsi_st_scheme" where
  "scsi_reclassify apf s =
     (if scsi_reprobe s \<and> scsi_bytes s \<noteq> 0 then
        let (ok, s) = scsi_probe apf (scsi_bytes s) s
        in if ok then
             let s = s\<lparr>scsi_reprobe := False\<rparr>
             in emit SOFT_SCSI_MEDIA (of_bool (scsi_sectors s \<noteq> 0)) s
           else s
      else s)"

definition scsi_dispatch ::
  "'h apf \<Rightarrow> u8 list \<Rightarrow> ('h, 'z) scsi_st_scheme \<Rightarrow> ('h, 'z) scsi_st_scheme" where
  "scsi_dispatch apf cdb s =
     (let opc = cdb ! 0 in
      if opc = 0x00 then
        (if scsi_sectors s \<noteq> 0 then scsi_ok s else scsi_fail SENSE_NOT_READY 0x3A s)
      else if opc = 0x01 \<or> opc = 0x0B \<or> opc = 0x2B \<or> opc = 0x1B \<or> opc = 0x15 \<or> opc = 0x04
      then scsi_ok s
      else if opc = 0x03 then scsi_do_request_sense (ucast (cdb ! 4)) s
      else if opc = 0x12 then scsi_do_inquiry (ucast (cdb ! 4)) s
      else if opc = 0x1A then scsi_do_mode_sense cdb s
      else if opc = 0x25 then scsi_do_read_capacity s
      else if opc = 0x08 then scsi_do_read apf (cdb_lba6 cdb) (cdb_blocks6 cdb) s
      else if opc = 0x0A then scsi_do_write apf (cdb_lba6 cdb) (cdb_blocks6 cdb) s
      else if opc = 0x28 then scsi_do_read apf (cdb_lba10 cdb) (cdb_blocks10 cdb) s
      else if opc = 0x2A then scsi_do_write apf (cdb_lba10 cdb) (cdb_blocks10 cdb) s
      else scsi_fail SENSE_ILLEGAL_REQ 0x20 s)"

definition scsi_execute ::
  "'h apf \<Rightarrow> u8 list \<Rightarrow> ('h, 'z) scsi_st_scheme \<Rightarrow> ('h, 'z) scsi_st_scheme" where
  "scsi_execute apf cdb s = scsi_dispatch apf cdb (scsi_reclassify apf s)"

definition scsi_mount ::
  "'h apf \<Rightarrow> u32 \<Rightarrow> ('h, 'z) scsi_st_scheme \<Rightarrow> bool \<times> ('h, 'z) scsi_st_scheme" where
  "scsi_mount apf bytes s =
     (let s = s\<lparr>scsi_bytes := bytes, scsi_reprobe := True\<rparr>;
          (ok, s) = scsi_probe apf bytes s
      in if \<not> ok then (False, emit SOFT_SCSI_MEDIA 0 (s\<lparr>scsi_sectors := 0\<rparr>))
         else (True, (emit SOFT_SCSI_MEDIA (of_bool (scsi_sectors s \<noteq> 0)) s)
                       \<lparr>scsi_sense_key := SENSE_NO_SENSE, scsi_asc := 0\<rparr>))"

definition scsi_init :: "('h, 'z) scsi_st_scheme \<Rightarrow> ('h, 'z) scsi_st_scheme" where
  "scsi_init s =
     (let s = emit SOFT_SCSI_MEDIA 0 (s\<lparr>scsi_sectors := 0\<rparr>);
          s = s\<lparr>scsi_sense_key := SENSE_NO_SENSE, scsi_asc := 0, scsi_ack := False\<rparr>;
          s = scsi_mgmt_write SMGMT_AUXSTAT 0 s
      in scsi_mgmt_write SMGMT_STATUS (ucast SCSI_GOOD) s)"

definition scsi_poll :: "'h apf \<Rightarrow> ('h, 'z) scsi_st_scheme \<Rightarrow> ('h, 'z) scsi_st_scheme" where
  "scsi_poll apf s =
     (let (ctl, s) = scsi_mgmt_read SMGMT_CTRL s
      in if ctl AND 1 = 0 then s
         else
           let s = scsi_mgmt_write SMGMT_CTRL 1 s;
               s = s\<lparr>scsi_ack := \<not> scsi_ack s\<rparr>;
               (cdb, s) = scsi_get_cdb s
           in scsi_execute apf cdb s)"

end
