(* ===== verification/Scsi_Correct.thy ===== *)
theory Scsi_Correct
  imports Scsi
begin

text \<open>
  What the pieces of \<open>scsi_service.c\<close> do to the register window, to the bridge RAM and to the
  image, and the properties of the service.  A management access leaves its address and data
  behind in the bus latches; the lemmas describe a state up to those latches with existential
  witnesses for them.
\<close>

section \<open>The window as memory\<close>

text \<open>Streaming bytes into the data buffer.\<close>

definition win_put :: "u8 list \<Rightarrow> scsi_win \<Rightarrow> scsi_win" where
  "win_put bs w = w\<lparr>dbuf := mem_put (dbuf w) (mg_buf_addr w) bs,
                    mg_buf_addr := mg_buf_addr w + of_nat (length bs)\<rparr>"

lemma win_put_append:
  "length xs + length ys \<le> 8192 \<Longrightarrow> win_put ys (win_put xs w) = win_put (xs @ ys) w"
  using mem_put_append [of xs ys "dbuf w" "mg_buf_addr w"]
  by (simp add: win_put_def add.assoc)

lemma win_put_Nil [simp]: "win_put [] w = w"
  by (simp add: win_put_def)

text \<open>The bus address of a window register.\<close>

lemma scsi_addr_bits:
  assumes "r AND 0xF = r"
  shows "\<not> bit (SCSI_TARGET OR (r AND 0xF)) 10" "bit (SCSI_TARGET OR (r AND 0xF)) 9"
    "(SCSI_TARGET OR (r AND 0xF)) AND 0xF = r"
proof -
  have hi: "bit r n \<longleftrightarrow> n < 4 \<and> bit r n" for n
  proof -
    have "bit r n \<longleftrightarrow> bit (r AND 0xF) n" by (simp only: assms)
    also have "\<dots> \<longleftrightarrow> n < 4 \<and> bit r n" by (auto simp only: bit_and_iff mask_bits) simp
    finally show ?thesis .
  qed
  show "\<not> bit (SCSI_TARGET OR (r AND 0xF)) 10" "bit (SCSI_TARGET OR (r AND 0xF)) 9"
    unfolding assms SCSI_TARGET_def using hi [of 10] hi [of 9]
    by (simp_all only: bit_or_iff bit_push_bit_iff bit_1_iff) simp_all
  show "(SCSI_TARGET OR (r AND 0xF)) AND 0xF = r"
  proof (rule bit_word_eqI)
    fix n
    show "bit ((SCSI_TARGET OR (r AND 0xF)) AND 0xF) n = bit r n"
      unfolding assms SCSI_TARGET_def
      using hi [of n] by (auto simp only: bit_and_iff bit_or_iff bit_push_bit_iff bit_1_iff mask_bits)
        simp_all
  qed
qed

lemma scsi_mgmt_write_eq:
  assumes "r AND 0xF = r"
  shows "scsi_mgmt_write r v s =
    s\<lparr>mgmt_addr := SCSI_TARGET OR (r AND 0xF), mgmt_wdata := ucast (v AND 0xFFFF),
      scsi := scsi_write r (ucast (v AND 0xFFFF)) (scsi s)\<rparr>"
  using scsi_addr_bits [OF assms]
  by (simp add: scsi_mgmt_write_def mgmt_wr_def mgmt_strobe_wr_def Let_def)

lemma scsi_mgmt_read_eq:
  assumes "r AND 0xF = r"
  shows "scsi_mgmt_read r s =
    (let (v, d) = scsi_read r (scsi s)
     in (ucast v, s\<lparr>mgmt_addr := SCSI_TARGET OR (r AND 0xF), mgmt_rdata := v, scsi := d\<rparr>))"
  using scsi_addr_bits [OF assms]
  by (simp add: scsi_mgmt_read_def mgmt_rd_def mgmt_strobe_rd_def Let_def split: prod.split)

lemma ucast_8_16_8 [simp]: "ucast (ucast (v :: u8) AND 0xFFFF :: u32) = (ucast v :: u16)"
  by (rule bit_word_eqI) (auto simp only: bit_and_iff bit_ucast_iff mask_bits, auto)

lemma ucast_16_8 [simp]: "ucast (ucast (v :: u8) :: u16) = v"
  by (rule bit_word_eqI) (auto simp: bit_simps)

lemma ucast_read_byte [simp]: "ucast ((ucast (ucast (v :: u8) :: u16) :: u32) AND 0xFF) = v"
  by (rule bit_word_eqI) (auto simp only: bit_and_iff bit_ucast_iff mask_bits, auto)

lemma scsi_put_eq:
  "scsi_put v s = s\<lparr>mgmt_addr := 0x204, mgmt_wdata := ucast v, scsi := win_put [v] (scsi s)\<rparr>"
  by (simp add: scsi_put_def scsi_mgmt_write_eq mgmt_regs scsi_write_def win_put_def mem_put_single)

lemma scsi_get_eq:
  "scsi_get s =
    (dbuf (scsi s) (mg_buf_addr (scsi s)),
     s\<lparr>mgmt_addr := 0x204, mgmt_rdata := ucast (dbuf (scsi s) (mg_buf_addr (scsi s))),
       scsi := (scsi s)\<lparr>mg_buf_addr := mg_buf_addr (scsi s) + 1\<rparr>\<rparr>)"
  by (simp add: scsi_get_def scsi_mgmt_read_eq mgmt_regs scsi_read_def)

lemma scsi_port_eqs:
  "scsi_rewind_write s = s\<lparr>mgmt_addr := 0x207, mgmt_wdata := 2, scsi := (scsi s)\<lparr>wrptr := 0\<rparr>\<rparr>"
  "scsi_rewind_read s = s\<lparr>mgmt_addr := 0x207, mgmt_wdata := 1, scsi := (scsi s)\<lparr>rdptr := 0\<rparr>\<rparr>"
  "scsi_buf_seek 0 s = s\<lparr>mgmt_addr := 0x203, mgmt_wdata := 0, scsi := (scsi s)\<lparr>mg_buf_addr := 0\<rparr>\<rparr>"
  by (simp_all add: scsi_rewind_write_def scsi_rewind_read_def scsi_buf_seek_def
      scsi_mgmt_write_eq mgmt_regs scsi_write_def bit_numeral_rec)

lemma scsi_complete_eq:
  "scsi_complete st s =
    s\<lparr>mgmt_addr := 0x205, mgmt_wdata := 0x80,
      scsi := (scsi s)\<lparr>scsistatus := st, auxstatus := 0x80\<rparr>\<rparr>"
  by (simp add: scsi_complete_def scsi_mgmt_write_eq mgmt_regs scsi_write_def)

lemma scsi_put_list:
  "length bs \<le> 8192 \<Longrightarrow> \<exists>a v. fold scsi_put bs s =
     s\<lparr>mgmt_addr := a, mgmt_wdata := v, scsi := win_put bs (scsi s)\<rparr>"
proof (induction bs rule: rev_induct)
  case Nil
  show ?case by (rule exI [of _ "mgmt_addr s"], rule exI [of _ "mgmt_wdata s"]) simp
next
  case (snoc b bs)
  then obtain a v where "fold scsi_put bs s =
      s\<lparr>mgmt_addr := a, mgmt_wdata := v, scsi := win_put bs (scsi s)\<rparr>" by auto
  moreover have "win_put [b] (win_put bs (scsi s)) = win_put (bs @ [b]) (scsi s)"
    using snoc.prems by (simp add: win_put_append)
  ultimately have "fold scsi_put (bs @ [b]) s =
      s\<lparr>mgmt_addr := 0x204, mgmt_wdata := ucast b, scsi := win_put (bs @ [b]) (scsi s)\<rparr>"
    by (simp add: scsi_put_eq)
  then show ?case by blast
qed

section \<open>Moving words between the two buffers\<close>

lemma lane_cast [lane_simps]:
  "ucast (w AND 0xFF) = byte_of w 0"
  "byte_of (drop_bit 8 w) 0 = byte_of w (Suc 0)"
  "byte_of (drop_bit 16 w) 0 = byte_of w 2"
  "byte_of (drop_bit 24 w) 0 = byte_of w 3"
  unfolding byte_of_def
  by (rule bit_word_eqI, auto simp only: bit_and_iff bit_ucast_iff mask_bits bit_drop_bit_eq, auto)+

lemma push_word_eq:
  "push_word s = s\<lparr>bram_addr := bram_addr s + 1, mgmt_addr := 0x204,
     mgmt_wdata := ucast (byte_of (bram s (bram_addr s)) 3),
     scsi := win_put (map (byte_of (bram s (bram_addr s))) [0..<4]) (scsi s)\<rparr>"
proof -
  have "[0..<4] = [0, 1, 2, 3 :: nat]" by (simp add: upt_rec)
  then show ?thesis
    unfolding push_word_def bram_read_def
    by (simp add: scsi_put_eq win_put_append lane_simps)
qed

lemma push_words:
  "n \<le> 2048 \<Longrightarrow> \<exists>a v. for_to n (\<lambda>_. push_word) s =
     s\<lparr>bram_addr := bram_addr s + of_nat n, mgmt_addr := a, mgmt_wdata := v,
       scsi := win_put (ram_bytes (bram s) (bram_addr s) (4 * n)) (scsi s)\<rparr>"
proof (induction n)
  case 0
  show ?case
    by (rule exI [of _ "mgmt_addr s"], rule exI [of _ "mgmt_wdata s"]) (simp add: ram_bytes_def)
next
  case (Suc n)
  then obtain a v where IH: "for_to n (\<lambda>_. push_word) s =
     s\<lparr>bram_addr := bram_addr s + of_nat n, mgmt_addr := a, mgmt_wdata := v,
       scsi := win_put (ram_bytes (bram s) (bram_addr s) (4 * n)) (scsi s)\<rparr>" by auto
  let ?w = "bram s (bram_addr s + of_nat n)"
  have "win_put (map (byte_of ?w) [0..<4]) (win_put (ram_bytes (bram s) (bram_addr s) (4 * n)) (scsi s))
      = win_put (ram_bytes (bram s) (bram_addr s) (4 * Suc n)) (scsi s)"
    using Suc.prems by (subst win_put_append) (auto simp only: ram_bytes_Suc4 length_ram_bytes length_map, simp)
  then have "for_to (Suc n) (\<lambda>_. push_word) s =
      s\<lparr>bram_addr := bram_addr s + of_nat (Suc n), mgmt_addr := 0x204,
        mgmt_wdata := ucast (byte_of ?w 3),
        scsi := win_put (ram_bytes (bram s) (bram_addr s) (4 * Suc n)) (scsi s)\<rparr>"
    unfolding for_to_Suc IH push_word_eq by (simp add: algebra_simps)
  then show ?case by blast
qed

text \<open>The words a drain packs from the data buffer.\<close>

definition win_word :: "scsi_win \<Rightarrow> nat \<Rightarrow> u32" where
  "win_word w i =
     pack4 (dbuf w (mg_buf_addr w + of_nat (4 * i))) (dbuf w (mg_buf_addr w + of_nat (4 * i + 1)))
           (dbuf w (mg_buf_addr w + of_nat (4 * i + 2))) (dbuf w (mg_buf_addr w + of_nat (4 * i + 3)))"

lemma win_word_byte:
  assumes "k < 4"
  shows "byte_of (win_word w j) k = dbuf w (mg_buf_addr w + of_nat (4 * j + k))"
proof -
  have "k = 0 \<or> k = 1 \<or> k = 2 \<or> k = 3" using assms by linarith
  then show ?thesis by (elim disjE) (simp_all add: win_word_def lane_simps)
qed

lemma drain_word_eq:
  "\<exists>r. drain_word s =
     s\<lparr>bram := (bram s)(bram_addr s := win_word (scsi s) 0), bram_addr := bram_addr s + 1,
       mgmt_addr := 0x204, mgmt_rdata := r,
       scsi := (scsi s)\<lparr>mg_buf_addr := mg_buf_addr (scsi s) + 4\<rparr>\<rparr>"
  unfolding drain_word_def scsi_get_eq Let_def bram_write_def
  by (rule exI [of _ "ucast (dbuf (scsi s) (mg_buf_addr (scsi s) + 3))"])
    (simp add: win_word_def add.assoc)

lemma win_word_shift:
  "win_word (w\<lparr>mg_buf_addr := mg_buf_addr w + of_nat (4 * n)\<rparr>) i = win_word w (n + i)"
  by (simp add: win_word_def algebra_simps)

lemma drain_words:
  "n \<le> 1024 \<Longrightarrow> \<exists>a r. for_to n (\<lambda>_. drain_word) s =
     s\<lparr>bram := mem_put (bram s) (bram_addr s) (map (win_word (scsi s)) [0..<n]),
       bram_addr := bram_addr s + of_nat n, mgmt_addr := a, mgmt_rdata := r,
       scsi := (scsi s)\<lparr>mg_buf_addr := mg_buf_addr (scsi s) + of_nat (4 * n)\<rparr>\<rparr>"
proof (induction n)
  case 0
  show ?case
    by (rule exI [of _ "mgmt_addr s"], rule exI [of _ "mgmt_rdata s"]) simp
next
  case (Suc n)
  define w where "w = scsi s"
  obtain a r where IH: "for_to n (\<lambda>_. drain_word) s =
     s\<lparr>bram := mem_put (bram s) (bram_addr s) (map (win_word w) [0..<n]),
       bram_addr := bram_addr s + of_nat n, mgmt_addr := a, mgmt_rdata := r,
       scsi := w\<lparr>mg_buf_addr := mg_buf_addr w + of_nat (4 * n)\<rparr>\<rparr>"
    using Suc by (auto simp: w_def)
  obtain r' where step: "for_to (Suc n) (\<lambda>_. drain_word) s =
     s\<lparr>bram := (mem_put (bram s) (bram_addr s) (map (win_word w) [0..<n]))
                 (bram_addr s + of_nat n := win_word w n),
       bram_addr := bram_addr s + of_nat n + 1, mgmt_addr := 0x204, mgmt_rdata := r',
       scsi := w\<lparr>mg_buf_addr := mg_buf_addr w + of_nat (4 * n) + 4\<rparr>\<rparr>"
    unfolding for_to_Suc IH using drain_word_eq [of "for_to n (\<lambda>_. drain_word) s"] win_word_shift [of w n 0]
    unfolding IH by auto
  have "(mem_put (bram s) (bram_addr s) (map (win_word w) [0..<n])) (bram_addr s + of_nat n := win_word w n)
      = mem_put (bram s) (bram_addr s) (map (win_word w) [0..<Suc n])"
    using Suc.prems mem_put_append [of "map (win_word w) [0..<n]" "[win_word w n]" "bram s" "bram_addr s"]
    by (simp add: mem_put_single)
  with step show ?case unfolding w_def [symmetric] by (auto simp: algebra_simps)
qed

lemma ram_bytes_win_words:
  fixes b :: bram
  assumes "n \<le> 1024"
  shows "ram_bytes (mem_put b base (map (win_word w) [0..<n])) base (4 * n)
       = cells (dbuf w) (mg_buf_addr w) (4 * n)"
proof (rule nth_equalityI)
  fix i assume "i < length (ram_bytes (mem_put b base (map (win_word w) [0..<n])) base (4 * n))"
  then have i: "i < 4 * n" by simp
  then have d: "i div 4 < n" by (simp add: less_mult_imp_div_less)
  have "mem_put b base (map (win_word w) [0..<n]) (base + of_nat (i div 4)) = win_word w (i div 4)"
    using mem_put_nth [of "i div 4" "map (win_word w) [0..<n]" b base] d assms by simp
  moreover have "byte_of (win_word w (i div 4)) (i mod 4)
      = dbuf w (mg_buf_addr w + of_nat (4 * (i div 4) + i mod 4))"
    by (rule win_word_byte) simp
  ultimately show "ram_bytes (mem_put b base (map (win_word w) [0..<n])) base (4 * n) ! i
      = cells (dbuf w) (mg_buf_addr w) (4 * n) ! i"
    unfolding nth_ram_bytes [OF i] nth_cells [OF i] by (simp only: mult_div_mod_eq)
qed simp

section \<open>One sector\<close>

text \<open>What a sector transfer leaves alone: the service's variables and every other device.\<close>

definition scsi_frame :: "('h, 'z) scsi_st_scheme \<Rightarrow> ('h, 'z) scsi_st_scheme \<Rightarrow> bool" where
  "scsi_frame s t \<longleftrightarrow> bus.more t = bus.more s \<and> fdd t = fdd s \<and> opna t = opna s \<and> dtbl t = dtbl s
     \<and> fdd_request t = fdd_request s \<and> outs t = outs s"

lemma scsi_frame_refl [simp]: "scsi_frame s s"
  by (simp add: scsi_frame_def)

lemma scsi_frame_trans: "scsi_frame s t \<Longrightarrow> scsi_frame t u \<Longrightarrow> scsi_frame s u"
  by (simp add: scsi_frame_def)

lemma scsi_vars_cong:
  fixes s t :: "('h, 'z) scsi_st_scheme"
  assumes "bus.more t = bus.more s"
  shows "scsi_sectors t = scsi_sectors s" "scsi_base t = scsi_base s" "scsi_cyls t = scsi_cyls s"
    "scsi_heads t = scsi_heads s" "scsi_spt t = scsi_spt s" "scsi_sense_key t = scsi_sense_key s"
    "scsi_asc t = scsi_asc s" "scsi_ack t = scsi_ack s" "scsi_bytes t = scsi_bytes s"
    "scsi_reprobe t = scsi_reprobe s" "ms_n t = ms_n s" "ms_alloc t = ms_alloc s"
    "scsi_st.more t = scsi_st.more s"
  using assms by (cases s; cases t; simp)+

abbreviation sector_rq :: "u32 \<Rightarrow> u32 \<Rightarrow> u32 \<Rightarrow> tds_req" where
  "sector_rq base lba dir \<equiv>
     tds_rq HDD0_SLOT_ID (base + lba * SECTOR_BYTES) dir SECTOR_BYTES FDD_BRIDGE_BASE"

lemma push_sector_obs:
  assumes "scsi_push_sector apf lba s = (ok, t)"
  obtains u where
    "tds_transfer apf HDD0_SLOT_ID (scsi_base s + lba * SECTOR_BYTES) FDD_TDS_READ SECTOR_BYTES s
       = (ok, u)"
    "host t = host u" "bram t = bram u" "scsi_frame s t"
    "tds_log t = tds_log s @ [sector_rq (scsi_base s) lba FDD_TDS_READ]"
    "scsi t = (if ok then win_put (ram_bytes (bram t) 0 512) (scsi s) else scsi s)"
proof -
  obtain ok' u where tr: "tds_transfer apf HDD0_SLOT_ID (scsi_base s + lba * SECTOR_BYTES)
      FDD_TDS_READ SECTOR_BYTES s = (ok', u)" by fastforce
  have ok: "ok' = ok" using assms tr by (auto simp: scsi_push_sector_def split: if_splits)
  have u: "hw.more u = hw.more s" "outs u = outs s" "dtbl u = dtbl s"
    "tds_log u = tds_log s @ [sector_rq (scsi_base s) lba FDD_TDS_READ]"
    using tds_transfer_to_frame [OF tr [unfolded tds_transfer_def]] by simp_all
  then have b: "bus.more u = bus.more s" "fdd u = fdd s" "opna u = opna s"
    "fdd_request u = fdd_request s" "scsi u = scsi s"
    by (cases s; cases u; simp)+
  show ?thesis
  proof (cases ok)
    case False
    then have "t = u" using assms tr ok by (simp add: scsi_push_sector_def)
    then show ?thesis using that [OF tr [unfolded ok]] u b False by (simp add: scsi_frame_def)
  next
    case True
    have "t = for_to SECTOR_WORDS (\<lambda>_. push_word) (bram_seek 0 u)"
      using assms tr ok True by (simp add: scsi_push_sector_def)
    moreover obtain a v where "for_to SECTOR_WORDS (\<lambda>_. push_word) (bram_seek 0 u) =
       (bram_seek 0 u)\<lparr>bram_addr := bram_addr (bram_seek 0 u) + of_nat SECTOR_WORDS, mgmt_addr := a,
         mgmt_wdata := v,
         scsi := win_put (ram_bytes (bram (bram_seek 0 u)) (bram_addr (bram_seek 0 u)) (4 * SECTOR_WORDS))
                   (scsi (bram_seek 0 u))\<rparr>"
      using push_words [of SECTOR_WORDS "bram_seek 0 u"] by (auto simp: SECTOR_WORDS_def)
    ultimately have t: "t = u\<lparr>bram_addr := of_nat 128, mgmt_addr := a, mgmt_wdata := v,
         scsi := win_put (ram_bytes (bram u) 0 512) (scsi u)\<rparr>"
      by (simp add: bram_seek_def SECTOR_WORDS_def)
    show ?thesis using that [OF tr [unfolded ok]] u b True by (simp add: t scsi_frame_def)
  qed
qed

lemma drain_sector_obs:
  assumes "scsi_drain_sector apf lba s = (ok, t)"
  obtains v where
    "tds_transfer apf HDD0_SLOT_ID (scsi_base s + lba * SECTOR_BYTES) FDD_TDS_WRITE SECTOR_BYTES v
       = (ok, t)"
    "host v = host s" "scsi_frame s t"
    "bram v = mem_put (bram s) 0 (map (win_word (scsi s)) [0..<128])"
    "tds_log t = tds_log s @ [sector_rq (scsi_base s) lba FDD_TDS_WRITE]"
    "scsi t = (scsi s)\<lparr>mg_buf_addr := mg_buf_addr (scsi s) + 512\<rparr>"
proof -
  obtain a r where v: "for_to SECTOR_WORDS (\<lambda>_. drain_word) (bram_seek 0 s) =
      (bram_seek 0 s)\<lparr>bram := mem_put (bram s) 0 (map (win_word (scsi s)) [0..<128]),
        bram_addr := 128, mgmt_addr := a, mgmt_rdata := r,
        scsi := (scsi s)\<lparr>mg_buf_addr := mg_buf_addr (scsi s) + 512\<rparr>\<rparr>"
    using drain_words [of SECTOR_WORDS "bram_seek 0 s"] by (auto simp: SECTOR_WORDS_def bram_seek_def)
  define w where "w = for_to SECTOR_WORDS (\<lambda>_. drain_word) (bram_seek 0 s)"
  note wv = v [folded w_def, unfolded bram_seek_def]
  have "scsi_base w = scsi_base s" by (simp add: wv)
  then have tr: "tds_transfer apf HDD0_SLOT_ID (scsi_base s + lba * SECTOR_BYTES) FDD_TDS_WRITE
      SECTOR_BYTES w = (ok, t)"
    using assms by (simp add: scsi_drain_sector_def w_def [symmetric] Let_def)
  have t: "hw.more t = hw.more w" "outs t = outs w" "dtbl t = dtbl w"
    "tds_log t = tds_log w @ [sector_rq (scsi_base s) lba FDD_TDS_WRITE]"
    using tds_transfer_to_frame [OF tr [unfolded tds_transfer_def]] by simp_all
  then have b: "bus.more t = bus.more w" "fdd t = fdd w" "opna t = opna w"
    "fdd_request t = fdd_request w" "scsi t = scsi w"
    by (cases w; cases t; simp)+
  show ?thesis
    using that [OF tr] t b by (simp add: wv scsi_frame_def)
qed

section \<open>A run of sectors\<close>

text \<open>Byte offset of a block in the image, as a number.\<close>

lemma unat_sector_offset:
  assumes "unat base + 512 * (unat lba + n) < 2 ^ 32"
  shows "unat (base + lba * SECTOR_BYTES) = unat base + 512 * unat lba"
proof -
  have "unat (lba * SECTOR_BYTES) = 512 * unat lba"
    using assms by (simp add: unat_word_ariths SECTOR_BYTES_def)
  then show ?thesis using assms by (simp add: unat_word_ariths)
qed

lemma unat_block_next:
  "c + 512 * (unat (lba :: u32) + Suc n) < 2 ^ 32 \<Longrightarrow> unat (lba + 1) = Suc (unat lba)"
  by (simp add: unat_word_ariths)

abbreviation at_bridge0 :: "u32 \<Rightarrow> 10 word" where
  "at_bridge0 ba \<equiv> ucast (drop_bit 2 ba)"

lemma at_bridge0 [simp]: "at_bridge0 FDD_BRIDGE_BASE = 0"
  by (simp add: FDD_BRIDGE_BASE_def)

lemma unat_SECTOR_BYTES [simp]: "unat SECTOR_BYTES = 512"
  by (simp add: SECTOR_BYTES_def)

context dataslot
begin

lemma push_sectors:
  assumes "sector_loop (scsi_push_sector apf) lba n s = (ok, t)"
    and "unat (scsi_base s) + 512 * (unat lba + n) \<le> length (slot_file (host s) HDD0_SLOT_ID)"
    and "unat (scsi_base s) + 512 * (unat lba + n) < 2 ^ 32" and "512 * n \<le> 8192"
  shows "scsi_frame s t \<and> slot_file (host t) = slot_file (host s)
    \<and> (\<exists>k\<le>n. (ok \<longrightarrow> k = n) \<and>
         scsi t = win_put (take (512 * k) (drop (unat (scsi_base s) + 512 * unat lba)
                    (slot_file (host s) HDD0_SLOT_ID))) (scsi s))"
  using assms
proof (induction n arbitrary: lba s)
  case 0
  then show ?case by (auto intro!: exI [of _ 0])
next
  case (Suc n)
  obtain ok1 m where m: "scsi_push_sector apf lba s = (ok1, m)" by fastforce
  then obtain u where u:
    "tds_transfer apf HDD0_SLOT_ID (scsi_base s + lba * SECTOR_BYTES) FDD_TDS_READ SECTOR_BYTES s = (ok1, u)"
    "host m = host u" "bram m = bram u" "scsi_frame s m"
    "scsi m = (if ok1 then win_put (ram_bytes (bram m) 0 512) (scsi s) else scsi s)"
    by (rule push_sector_obs)
  let ?F = "slot_file (host s) HDD0_SLOT_ID" and ?o = "unat (scsi_base s) + 512 * unat lba"
  have off: "unat (scsi_base s + lba * SECTOR_BYTES) = ?o"
    using Suc.prems(3) by (rule unat_sector_offset)
  have files: "slot_file (host m) = slot_file (host s)"
    using read_keeps_files u(1,2) by (metis tds_transfer_def)
  have vars: "scsi_base m = scsi_base s" using u(4) scsi_vars_cong unfolding scsi_frame_def by blast
  show ?case
  proof (cases ok1)
    case False
    then have "t = m" "\<not> ok" using Suc.prems(1) m by auto
    then show ?thesis using u(4,5) files False by (auto intro!: exI [of _ 0])
  next
    case True
    have land: "ram_bytes (bram m) 0 512 = take 512 (drop ?o ?F)"
      using read_lands_file [of HDD0_SLOT_ID _ SECTOR_BYTES FDD_BRIDGE_BASE s u] u(1,3) True Suc.prems(2) off
      by (simp add: tds_transfer_def)
    have rest: "sector_loop (scsi_push_sector apf) (lba + 1) n m = (ok, t)"
      using Suc.prems(1) m True by simp
    have nxt: "unat (lba + 1) = Suc (unat lba)"
      using Suc.prems(3) by (rule unat_block_next)
    obtain k where k: "scsi_frame m t" "slot_file (host t) = slot_file (host m)" "k \<le> n" "ok \<longrightarrow> k = n"
      "scsi t = win_put (take (512 * k) (drop (?o + 512) ?F)) (scsi m)"
      using Suc.IH [OF rest] Suc.prems(2-4) files vars nxt by (auto simp: algebra_simps)
    have split: "take (512 * Suc k) (drop ?o ?F) = take 512 (drop ?o ?F) @ take (512 * k) (drop (?o + 512) ?F)"
      by (simp add: take_add add.commute)
    have "scsi t = win_put (take (512 * Suc k) (drop ?o ?F)) (scsi s)"
      unfolding split k(5) u(5) land using True Suc.prems(4) k(3) by (simp add: win_put_append)
    then show ?thesis
      using k u(4) files scsi_frame_trans by (intro conjI exI [of _ "Suc k"]) auto
  qed
qed

lemma drain_sectors:
  assumes "sector_loop (scsi_drain_sector apf) lba n s = (True, t)"
    and "unat (scsi_base s) + 512 * (unat lba + n) \<le> length (slot_file (host s) HDD0_SLOT_ID)"
    and "unat (scsi_base s) + 512 * (unat lba + n) < 2 ^ 32"
  shows "slot_file (host t) = (slot_file (host s))(HDD0_SLOT_ID :=
      overwrite (slot_file (host s) HDD0_SLOT_ID) (unat (scsi_base s) + 512 * unat lba)
        (cells (dbuf (scsi s)) (mg_buf_addr (scsi s)) (512 * n)))"
  using assms
proof (induction n arbitrary: lba s)
  case 0
  then show ?case by (simp add: cells_def)
next
  case (Suc n)
  obtain ok1 m where m: "scsi_drain_sector apf lba s = (ok1, m)" by fastforce
  then have ok1: ok1 using Suc.prems(1) by (cases ok1) auto
  from m obtain v where v:
    "tds_transfer apf HDD0_SLOT_ID (scsi_base s + lba * SECTOR_BYTES) FDD_TDS_WRITE SECTOR_BYTES v = (ok1, m)"
    "host v = host s" "scsi_frame s m"
    "bram v = mem_put (bram s) 0 (map (win_word (scsi s)) [0..<128])"
    "scsi m = (scsi s)\<lparr>mg_buf_addr := mg_buf_addr (scsi s) + 512\<rparr>"
    by (rule drain_sector_obs)
  let ?F = "slot_file (host s) HDD0_SLOT_ID" and ?o = "unat (scsi_base s) + 512 * unat lba"
  let ?d = "dbuf (scsi s)" and ?a = "mg_buf_addr (scsi s)"
  have off: "unat (scsi_base s + lba * SECTOR_BYTES) = ?o"
    using Suc.prems(3) by (rule unat_sector_offset)
  have vars: "scsi_base m = scsi_base s" using v(3) scsi_vars_cong unfolding scsi_frame_def by blast
  have bytes: "ram_bytes (bram v) 0 512 = cells ?d ?a 512"
    unfolding v(4) using ram_bytes_win_words [of 128 "bram s" 0 "scsi s"] by simp
  have files: "slot_file (host m) = (slot_file (host s))(HDD0_SLOT_ID := overwrite ?F ?o (cells ?d ?a 512))"
    using write_updates_file(1) [of HDD0_SLOT_ID _ SECTOR_BYTES FDD_BRIDGE_BASE v m] v(1,2) ok1
      Suc.prems(2) off bytes
    by (simp add: tds_transfer_def)
  have rest: "sector_loop (scsi_drain_sector apf) (lba + 1) n m = (True, t)"
    using Suc.prems(1) m ok1 by simp
  have nxt: "unat (lba + 1) = Suc (unat lba)"
    using Suc.prems(3) by (rule unat_block_next)
  have len: "length (overwrite ?F ?o (cells ?d ?a 512)) = length ?F"
    using Suc.prems(2) by (intro length_overwrite) simp
  have "slot_file (host t) = (slot_file (host m))(HDD0_SLOT_ID :=
      overwrite (slot_file (host m) HDD0_SLOT_ID) (?o + 512) (cells ?d (?a + 512) (512 * n)))"
  proof -
    have "unat (scsi_base m) + 512 * unat (lba + 1) = ?o + 512"
      "dbuf (scsi m) = ?d" "mg_buf_addr (scsi m) = ?a + 512"
      using vars nxt v(5) by simp_all
    then show ?thesis
      using Suc.IH [OF rest] Suc.prems(2,3) files len
      by (simp only: fun_upd_same) (simp add: fun_eq_iff)
  qed
  moreover have "overwrite (overwrite ?F ?o (cells ?d ?a 512)) (?o + 512) (cells ?d (?a + 512) (512 * n))
      = overwrite ?F ?o (cells ?d ?a (512 * Suc n))"
    using overwrite_append [of ?o "cells ?d ?a 512" "cells ?d (?a + 512) (512 * n)" ?F] Suc.prems(2)
      cells_append [of ?d ?a 512 "512 * n"]
    by simp
  ultimately show ?case using files by simp
qed

end

section \<open>Replies the target composes itself\<close>

text \<open>A reply in the window: the bytes at the start of the data buffer, both guest pointers
  rewound.\<close>

definition reply_win :: "u8 list \<Rightarrow> scsi_win \<Rightarrow> scsi_win" where
  "reply_win bs w = w\<lparr>wrptr := 0, rdptr := 0, mg_buf_addr := of_nat (length bs),
                      dbuf := mem_put (dbuf w) 0 bs\<rparr>"

definition reply_state ::
  "u8 list \<Rightarrow> u8 \<Rightarrow> u8 \<Rightarrow> u8 \<Rightarrow> ('h, 'z) scsi_st_scheme \<Rightarrow> ('h, 'z) scsi_st_scheme" where
  "reply_state bs status key asc s =
     s\<lparr>mgmt_addr := 0x205, mgmt_wdata := 0x80,
       scsi := (reply_win bs (scsi s))\<lparr>scsistatus := status, auxstatus := 0x80\<rparr>,
       scsi_sense_key := key, scsi_asc := asc\<rparr>"

lemma reply_stream:
  assumes "length bs \<le> 8192"
  shows "scsi_rewind_read (fold scsi_put bs (scsi_buf_seek 0 (scsi_rewind_write s)))
    = s\<lparr>mgmt_addr := 0x207, mgmt_wdata := 1, scsi := reply_win bs (scsi s)\<rparr>"
proof -
  obtain a v where "fold scsi_put bs (scsi_buf_seek 0 (scsi_rewind_write s)) =
      (scsi_buf_seek 0 (scsi_rewind_write s))\<lparr>mgmt_addr := a, mgmt_wdata := v,
         scsi := win_put bs (scsi (scsi_buf_seek 0 (scsi_rewind_write s)))\<rparr>"
    using scsi_put_list [OF assms] by blast
  then show ?thesis by (simp add: scsi_port_eqs win_put_def reply_win_def)
qed

lemma scsi_ok_eq:
  "scsi_ok s = s\<lparr>mgmt_addr := 0x205, mgmt_wdata := 0x80,
     scsi := (scsi s)\<lparr>scsistatus := 0, auxstatus := 0x80\<rparr>, scsi_sense_key := 0, scsi_asc := 0\<rparr>"
  by (simp add: scsi_ok_def scsi_complete_eq scsi_consts)

lemma scsi_fail_eq:
  "scsi_fail key asc s = s\<lparr>mgmt_addr := 0x205, mgmt_wdata := 0x80,
     scsi := (scsi s)\<lparr>scsistatus := 2, auxstatus := 0x80\<rparr>, scsi_sense_key := key, scsi_asc := asc\<rparr>"
  by (simp add: scsi_fail_def scsi_complete_eq scsi_consts)

text \<open>The allocation length of INQUIRY and REQUEST SENSE: zero or too long means everything.\<close>

definition alloc_len :: "nat \<Rightarrow> u32 \<Rightarrow> nat" where
  "alloc_len n alloc = (if alloc = 0 \<or> n < unat alloc then n else unat alloc)"

lemma alloc_len_le: "alloc_len n alloc \<le> n"
  by (simp add: alloc_len_def)

lemma length_inquiry: "length scsi_inquiry_data = 36"
  by (simp add: scsi_inquiry_data_def)

lemma length_sense: "length (scsi_sense_data key asc) = 18"
  by (simp add: scsi_sense_data_def)

lemma scsi_do_inquiry_eq:
  "scsi_do_inquiry alloc s = reply_state (take (alloc_len 36 alloc) scsi_inquiry_data) 0 0 0 s"
proof -
  have n: "unat (if alloc = 0 \<or> 36 < alloc then 36 else alloc) = alloc_len 36 alloc"
    by (simp add: alloc_len_def word_less_nat_alt)
  have le: "alloc_len 36 alloc \<le> length scsi_inquiry_data"
    using alloc_len_le [of 36] by (simp add: length_inquiry)
  show ?thesis
    unfolding scsi_do_inquiry_def Let_def n for_to_fold_nth [OF le]
    using alloc_len_le [of 36 alloc]
    by (subst reply_stream) (auto simp: length_inquiry scsi_ok_eq reply_state_def)
qed

lemma scsi_do_request_sense_eq:
  "scsi_do_request_sense alloc s =
     reply_state (take (alloc_len 18 alloc) (scsi_sense_data (scsi_sense_key s) (scsi_asc s))) 0 0 0 s"
proof -
  have n: "unat (if alloc = 0 \<or> 18 < alloc then 18 else alloc) = alloc_len 18 alloc"
    by (simp add: alloc_len_def word_less_nat_alt)
  have le: "alloc_len 18 alloc \<le> length (scsi_sense_data (scsi_sense_key s) (scsi_asc s))"
    using alloc_len_le [of 18] by (simp add: length_sense)
  show ?thesis
    unfolding scsi_do_request_sense_def Let_def n for_to_fold_nth [OF le]
    using alloc_len_le [of 18 alloc]
    by (subst reply_stream) (auto simp: length_sense scsi_complete_eq scsi_consts reply_state_def)
qed

definition capacity_data :: "u32 \<Rightarrow> u8 list" where
  "capacity_data m = [byte_of m 3, byte_of m 2, byte_of m 1, byte_of m 0, 0, 0, 2, 0]"

lemma scsi_do_read_capacity_eq:
  "scsi_sectors s \<noteq> 0 \<Longrightarrow> scsi_do_read_capacity s =
     reply_state (capacity_data (scsi_sectors s - 1)) 0 0 0 s"
proof -
  assume n0: "scsi_sectors s \<noteq> 0"
  have "scsi_do_read_capacity s = scsi_ok (scsi_rewind_read
      (fold scsi_put (capacity_data (scsi_sectors s - 1)) (scsi_buf_seek 0 (scsi_rewind_write s))))"
    using n0 by (simp add: scsi_do_read_capacity_def capacity_data_def byte_of_def Let_def)
  also have "\<dots> = reply_state (capacity_data (scsi_sectors s - 1)) 0 0 0 s"
    by (subst reply_stream) (simp_all add: capacity_data_def scsi_ok_eq reply_state_def)
  finally show ?thesis .
qed

subsection \<open>MODE SENSE\<close>

lemma ms_put_vars [simp]:
  "scsi_sectors (ms_put v s) = scsi_sectors s" "scsi_spt (ms_put v s) = scsi_spt s"
  "scsi_cyls (ms_put v s) = scsi_cyls s" "scsi_heads (ms_put v s) = scsi_heads s"
  by (simp_all add: ms_put_def scsi_put_eq)

lemma ms_fold_vars [simp]:
  "scsi_sectors (fold ms_put vs s) = scsi_sectors s" "scsi_spt (fold ms_put vs s) = scsi_spt s"
  "scsi_cyls (fold ms_put vs s) = scsi_cyls s" "scsi_heads (fold ms_put vs s) = scsi_heads s"
  by (induction vs arbitrary: s) simp_all

lemma ms_funpow_vars [simp]:
  "scsi_sectors ((ms_put v ^^ n) s) = scsi_sectors s" "scsi_spt ((ms_put v ^^ n) s) = scsi_spt s"
  "scsi_cyls ((ms_put v ^^ n) s) = scsi_cyls s" "scsi_heads ((ms_put v ^^ n) s) = scsi_heads s"
  by (induction n) simp_all

lemma ms_zero_fold: "ms_zero n s = fold ms_put (replicate n 0) s"
  by (induction n arbitrary: s) (simp_all add: ms_zero_def for_to_Suc replicate_append_same [symmetric]
      del: replicate.simps)

definition page3_data :: "u32 \<Rightarrow> u32 list" where
  "page3_data spt = [0x03, 0x16] @ replicate 8 0 @ [drop_bit 8 spt, spt, 2, 0, 0, 1]
     @ replicate 4 0 @ [0x40] @ replicate 3 0"

definition page4_data :: "u32 \<Rightarrow> u32 \<Rightarrow> u32 list" where
  "page4_data cyls heads = [0x04, 0x16, drop_bit 16 cyls, drop_bit 8 cyls, cyls, heads] @ replicate 18 0"

definition block_desc_data :: "u32 \<Rightarrow> u32 list" where
  "block_desc_data blocks = [0, drop_bit 16 blocks, drop_bit 8 blocks, blocks, 0, 0, 2, 0]"

lemma ms_page3_fold: "ms_page3 s = fold ms_put (page3_data (scsi_spt s)) s"
  by (simp add: ms_page3_def page3_data_def ms_zero_fold SECTOR_BYTES_def Let_def)

lemma ms_page4_fold: "ms_page4 s = fold ms_put (page4_data (scsi_cyls s) (scsi_heads s)) s"
  by (simp add: ms_page4_def page4_data_def ms_zero_fold Let_def)

lemma ms_block_desc_fold: "ms_block_desc blocks s = fold ms_put (block_desc_data blocks) s"
  by (simp add: ms_block_desc_def block_desc_data_def Let_def)

text \<open>The stream cuts off at the allocation length.\<close>

lemma ms_stream:
  assumes "length vs \<le> 255" "ms_n s = 0" "unat (ms_alloc s) \<le> 255"
  shows "\<exists>a v. fold ms_put vs s = s\<lparr>mgmt_addr := a, mgmt_wdata := v,
     scsi := win_put (take (unat (ms_alloc s)) (map ucast vs)) (scsi s), ms_n := of_nat (length vs)\<rparr>"
  using assms(1)
proof (induction vs rule: rev_induct)
  case Nil
  show ?case
    by (rule exI [of _ "mgmt_addr s"], rule exI [of _ "mgmt_wdata s"]) (simp add: assms(2) [symmetric])
next
  case (snoc x vs)
  then obtain a v where IH: "fold ms_put vs s = s\<lparr>mgmt_addr := a, mgmt_wdata := v,
     scsi := win_put (take (unat (ms_alloc s)) (map ucast vs)) (scsi s), ms_n := of_nat (length vs)\<rparr>"
    by auto
  have u: "unat (of_nat (length vs) :: u32) = length vs"
    using snoc.prems by (simp add: unat_of_nat)
  show ?case
  proof (cases "length vs < unat (ms_alloc s)")
    case True
    then have "(of_nat (length vs) :: u32) < ms_alloc s" by (simp add: word_less_nat_alt u)
    moreover have "win_put [ucast x] (win_put (take (unat (ms_alloc s)) (map ucast vs)) (scsi s))
        = win_put (take (unat (ms_alloc s)) (map ucast (vs @ [x]))) (scsi s)"
      using True snoc.prems by (subst win_put_append) auto
    ultimately have "fold ms_put (vs @ [x]) s = s\<lparr>mgmt_addr := 0x204, mgmt_wdata := ucast (ucast x :: u8),
        scsi := win_put (take (unat (ms_alloc s)) (map ucast (vs @ [x]))) (scsi s),
        ms_n := of_nat (length (vs @ [x]))\<rparr>"
      using True by (simp add: IH ms_put_def scsi_put_eq Let_def algebra_simps)
    then show ?thesis by blast
  next
    case False
    then have "\<not> (of_nat (length vs) :: u32) < ms_alloc s" by (simp add: word_less_nat_alt u)
    then have "fold ms_put (vs @ [x]) s = s\<lparr>mgmt_addr := a, mgmt_wdata := v,
        scsi := win_put (take (unat (ms_alloc s)) (map ucast (vs @ [x]))) (scsi s),
        ms_n := of_nat (length (vs @ [x]))\<rparr>"
      using False by (simp add: IH ms_put_def Let_def algebra_simps)
    then show ?thesis by blast
  qed
qed

text \<open>The mode data in full, before the cut.\<close>

definition mode_page :: "u8 list \<Rightarrow> u32" where
  "mode_page cdb = ucast (cdb ! 2) AND 0x3F"

definition mode_data :: "u8 list \<Rightarrow> ('h, 'z) scsi_st_scheme \<Rightarrow> u32 list" where
  "mode_data cdb s =
     (let p3 = mode_page cdb \<in> {0x03, 0x3F}; p4 = mode_page cdb \<in> {0x04, 0x3F};
          bdl = (if cdb ! 1 AND 0x08 \<noteq> 0 then 0 else 8)
      in [3 + bdl + (if p3 then 24 else 0) + (if p4 then 24 else 0), 0, 0, bdl]
         @ (if bdl = 0 then [] else block_desc_data (min 0xFFFFFF (scsi_sectors s)))
         @ (if p3 then page3_data (scsi_spt s) else [])
         @ (if p4 then page4_data (scsi_cyls s) (scsi_heads s) else []))"

lemma length_pages [simp]:
  "length (page3_data spt) = 24" "length (page4_data cyls heads) = 24"
  "length (block_desc_data blocks) = 8"
  by (simp_all add: page3_data_def page4_data_def block_desc_data_def)

lemma length_mode_data:
  "length (mode_data cdb s) = 1 + unat (mode_data cdb s ! 0)" "length (mode_data cdb s) \<le> 60"
  by (simp_all add: mode_data_def Let_def)

lemma mode_sense_stream:
  assumes "mode_page cdb \<in> {0, 3, 4, 0x3F}"
  shows "scsi_do_mode_sense cdb s = scsi_ok (scsi_rewind_read (fold ms_put (mode_data cdb s)
    (scsi_buf_seek 0 (scsi_rewind_write (s\<lparr>ms_n := 0, ms_alloc := ucast (cdb ! 4)\<rparr>)))))"
proof -
  define s0 where "s0 = scsi_buf_seek 0 (scsi_rewind_write (s\<lparr>ms_n := 0, ms_alloc := ucast (cdb ! 4)\<rparr>))"
  have v: "scsi_sectors s0 = scsi_sectors s" "scsi_spt s0 = scsi_spt s" "scsi_cyls s0 = scsi_cyls s"
    "scsi_heads s0 = scsi_heads s"
    by (simp_all add: s0_def scsi_port_eqs)
  have m: "(if 0xFFFFFF < scsi_sectors s then 0xFFFFFF else scsi_sectors s) = min 0xFFFFFF (scsi_sectors s)"
    by (auto simp: min_def)
  show ?thesis
    using assms
    unfolding scsi_do_mode_sense_def Let_def mode_page_def [symmetric] m s0_def [symmetric]
    by (elim insertE emptyE)
      (simp_all add: mode_data_def Let_def v ms_page3_fold ms_page4_fold ms_block_desc_fold)
qed

lemma mode_sense_eq:
  assumes "mode_page cdb \<in> {0, 3, 4, 0x3F}"
  shows "scsi_do_mode_sense cdb s =
    (reply_state (take (unat (cdb ! 4)) (map ucast (mode_data cdb s))) 0 0 0 s)
      \<lparr>ms_n := of_nat (length (mode_data cdb s)), ms_alloc := ucast (cdb ! 4)\<rparr>"
proof -
  define s0 where "s0 = scsi_buf_seek 0 (scsi_rewind_write (s\<lparr>ms_n := 0, ms_alloc := ucast (cdb ! 4)\<rparr>))"
  have a: "unat (ms_alloc s0) = unat (cdb ! 4)" "ms_n s0 = 0"
    by (simp_all add: s0_def scsi_port_eqs unat_ucast_up)
  moreover have "unat (cdb ! 4) < 256" using unsigned_less [of "cdb ! 4"] by simp
  ultimately have "unat (ms_alloc s0) \<le> 255" by simp
  then obtain x v where "fold ms_put (mode_data cdb s) s0 = s0\<lparr>mgmt_addr := x, mgmt_wdata := v,
     scsi := win_put (take (unat (ms_alloc s0)) (map ucast (mode_data cdb s))) (scsi s0),
     ms_n := of_nat (length (mode_data cdb s))\<rparr>"
    using ms_stream [of "mode_data cdb s" s0] a length_mode_data(2) [of cdb s] by auto
  then show ?thesis
    unfolding mode_sense_stream [OF assms] s0_def [symmetric] a
    by (simp add: s0_def scsi_port_eqs scsi_ok_eq win_put_def reply_win_def reply_state_def)
qed

lemma mode_sense_reject:
  "mode_page cdb \<notin> {0, 3, 4, 0x3F} \<Longrightarrow> scsi_do_mode_sense cdb s = scsi_fail SENSE_ILLEGAL_REQ 0x24 s"
  by (simp add: scsi_do_mode_sense_def Let_def mode_page_def)

section \<open>Classification\<close>

text \<open>A mounted image lies inside the file.\<close>

definition scsi_inv :: "('h, 'z) scsi_st_scheme \<Rightarrow> bool" where
  "scsi_inv s \<longleftrightarrow> scsi_sectors s \<noteq> 0 \<longrightarrow>
     unat (scsi_base s) + 512 * unat (scsi_sectors s) \<le> unat (scsi_bytes s)"

lemma drop9_le: "512 * unat (drop_bit 9 (w :: u32)) \<le> unat w"
  unfolding unat_drop_bit_eq by (simp add: drop_bit_eq_div)

lemma probe_classify_inv:
  assumes "scsi_base s = 0"
  shows "scsi_inv ((probe_classify bytes g s)\<lparr>scsi_bytes := bytes\<rparr>)"
proof (cases "g_ssize g = 0")
  case True
  then show ?thesis using assms drop9_le [of bytes]
    by (simp add: probe_classify_def scsi_inv_def Let_def)
next
  case False
  have fit: "unat (g_hsize g) + 512 * unat (drop_bit 9 (bytes - g_hsize g)) \<le> unat bytes"
    if "\<not> bytes \<le> g_hsize g"
  proof -
    have "unat (bytes - g_hsize g) = unat bytes - unat (g_hsize g)" "unat (g_hsize g) < unat bytes"
      using that by (simp_all add: unat_sub_if_size word_le_nat_alt)
    then show ?thesis using drop9_le [of "bytes - g_hsize g"] by simp
  qed
  have mono: "unat (g_hsize g) + 512 * unat x \<le> unat bytes"
    if "x < y" "unat (g_hsize g) + 512 * unat y \<le> unat bytes" for x y :: u32
    using that by (simp add: word_less_nat_alt)
  show ?thesis
    using False fit mono
    by (simp add: probe_classify_def scsi_inv_def Let_def not_le)
qed

subsection \<open>The header as bytes\<close>

text \<open>Byte \<open>b\<close> of the staging area.\<close>

definition ram_byte :: "bram \<Rightarrow> u32 \<Rightarrow> u8" where
  "ram_byte m b = byte_of (m (ucast (drop_bit 2 b))) (unat (b AND 3))"

lemma hdr8_eq:
  "hdr8 b s = (ucast (ram_byte (bram s) b), s\<lparr>bram_addr := ucast (drop_bit 2 b) + 1\<rparr>)"
proof -
  have "b AND 3 \<le> 3" by (simp add: word_and_le1)
  then have "unat (b AND 3) \<le> 3" by (simp add: word_le_nat_alt)
  then have "unat ((b AND 3) * 8) = 8 * unat (b AND 3)" by (simp add: unat_word_ariths)
  moreover have "v AND 0xFF = ucast (ucast v :: u8)" for v :: u32
    by (rule bit_word_eqI) (auto simp only: bit_and_iff bit_ucast_iff mask_bits, auto)
  ultimately show ?thesis
    by (simp add: hdr8_def bram_seek_def bram_read_def ram_byte_def byte_of_def Let_def)
qed

lemma hdr16_eq:
  "hdr16 b s = (pack4 (ram_byte (bram s) b) (ram_byte (bram s) (b + 1)) 0 0,
     s\<lparr>bram_addr := ucast (drop_bit 2 (b + 1)) + 1\<rparr>)"
  by (simp add: hdr16_def hdr8_eq pack4_def Let_def)

lemma hdr32_eq:
  "hdr32 b s = (pack4 (ram_byte (bram s) b) (ram_byte (bram s) (b + 1))
       (ram_byte (bram s) (b + 2)) (ram_byte (bram s) (b + 3)),
     s\<lparr>bram_addr := ucast (drop_bit 2 (b + 3)) + 1\<rparr>)"
proof -
  have "pack4 x y 0 0 OR push_bit 16 (pack4 z w 0 0) = pack4 x y z w" for x y z w
    by (rule bit_word_eqI) (auto simp: pack4_def bit_simps)
  then show ?thesis by (simp add: hdr32_def hdr16_eq Let_def add.assoc)
qed

lemma ucast_inj_8_32: "(ucast (x :: u8) :: u32) = ucast (y :: u8) \<longleftrightarrow> x = y"
  by (simp add: word_unat_eq_iff unat_ucast_up)

lemma of_char_u32: "(of_char c :: u32) = ucast (of_char c :: u8)"
proof -
  have n: "(of_char c :: nat) < 256" by (rule nat_of_char_less_256)
  have "unat (of_nat (of_char c) :: u8) = of_char c" "unat (of_nat (of_char c) :: u32) = of_char c"
    using n order_less_le_trans [OF n, of "2 ^ 32"] by (simp_all only: unat_of_nat) simp_all
  then show ?thesis by (simp only: of_nat_of_char word_unat_eq_iff unat_ucast_up) (simp add: unat_ucast_up)
qed

definition has_sig :: "bram \<Rightarrow> u32 \<Rightarrow> string \<Rightarrow> bool" where
  "has_sig m i sig \<longleftrightarrow> list_all (\<lambda>(k, c). ram_byte m (i + of_nat k) = of_char c) (enumerate 0 sig)"

lemma has_sig_Cons:
  "has_sig m i (c # cs) \<longleftrightarrow> ram_byte m i = of_char c \<and> has_sig m (i + 1) cs"
proof -
  have "list_all P (enumerate (Suc n) xs) = list_all (\<lambda>(k, c). P (Suc k, c)) (enumerate n xs)"
    for P :: "nat \<times> char \<Rightarrow> bool" and n xs
    by (induction xs arbitrary: n) auto
  from this [of _ 0] show ?thesis by (simp add: has_sig_def algebra_simps)
qed

lemma hdr_sig_from_eq:
  "\<exists>a. hdr_sig_from i sig s = (has_sig (bram s) i sig, s\<lparr>bram_addr := a\<rparr>)"
proof (induction sig arbitrary: i s)
  case Nil
  show ?case by (rule exI [of _ "bram_addr s"]) (simp add: has_sig_def)
next
  case (Cons c cs)
  show ?case
    using Cons [of "i + 1" "snd (hdr8 i s)"]
    by (auto simp: hdr8_eq has_sig_Cons of_char_u32 ucast_inj_8_32)
qed

text \<open>What each format's header says, field by field, as a function of the bytes.\<close>

definition le16 :: "bram \<Rightarrow> u32 \<Rightarrow> u32" where
  "le16 m b = pack4 (ram_byte m b) (ram_byte m (b + 1)) 0 0"

definition le32 :: "bram \<Rightarrow> u32 \<Rightarrow> u32" where
  "le32 m b = pack4 (ram_byte m b) (ram_byte m (b + 1)) (ram_byte m (b + 2)) (ram_byte m (b + 3))"

definition nhd_geom :: "bram \<Rightarrow> hdr_geom" where
  "nhd_geom m = geom0\<lparr>g_hsize := le32 m 0x110, g_c := le32 m 0x114, g_hd := le16 m 0x118,
     g_s := le16 m 0x11A, g_ssize := le16 m 0x11C\<rparr>"

definition vhd_geom :: "bram \<Rightarrow> hdr_geom" where
  "vhd_geom m = geom0\<lparr>g_hsize := 220, g_ssize := le16 m 0x8E, g_s := ucast (ram_byte m 0x90),
     g_hd := ucast (ram_byte m 0x91), g_c := le16 m 0x92, g_total := le32 m 0x94\<rparr>"

definition hdi_geom :: "bram \<Rightarrow> hdr_geom" where
  "hdi_geom m = geom0\<lparr>g_hsize := le32 m 0x08, g_ssize := le32 m 0x10, g_s := le32 m 0x14,
     g_hd := le32 m 0x18, g_c := le32 m 0x1C\<rparr>"

definition header_geom :: "bram \<Rightarrow> u32 \<Rightarrow> hdr_geom" where
  "header_geom m bytes =
     (if has_sig m 0 ''T98HDDIMAGE.R0'' then nhd_geom m
      else if has_sig m 0 ''VHD1.'' then vhd_geom m
      else if le32 m 0 \<noteq> 0 then geom0
      else if hdi_implausible (hdi_geom m) bytes then (hdi_geom m)\<lparr>g_ssize := 0\<rparr>
      else hdi_geom m)"

lemma probe_header_eq:
  "\<exists>a. probe_header bytes s = (header_geom (bram s) bytes, s\<lparr>bram_addr := a\<rparr>)"
proof -
  obtain a1 where a1: "hdr_sig ''T98HDDIMAGE.R0'' s = (has_sig (bram s) 0 ''T98HDDIMAGE.R0'', s\<lparr>bram_addr := a1\<rparr>)"
    unfolding hdr_sig_def using hdr_sig_from_eq by blast
  obtain a2 where a2: "hdr_sig ''VHD1.'' (s\<lparr>bram_addr := a1\<rparr>) = (has_sig (bram s) 0 ''VHD1.'', s\<lparr>bram_addr := a2\<rparr>)"
    unfolding hdr_sig_def using hdr_sig_from_eq [of 0 "''VHD1.''" "s\<lparr>bram_addr := a1\<rparr>"] by auto
  show ?thesis
    unfolding probe_header_def a1 Let_def prod.case a2
    by (auto simp: hdr8_eq hdr16_eq hdr32_eq header_geom_def nhd_geom_def vhd_geom_def hdi_geom_def
        le16_def le32_def add.assoc Let_def)
qed

subsection \<open>Believing a header read\<close>

definition poison_words :: "u32 list" where
  "poison_words = map (\<lambda>i. HDR_POISON XOR of_nat i) [0..<128]"

lemma hdr_poison_eq:
  "hdr_poison s = s\<lparr>bram := mem_put (bram s) 0 poison_words, bram_addr := 128\<rparr>"
proof -
  have "n \<le> 1024 \<Longrightarrow> for_to n (\<lambda>i. bram_write (HDR_POISON XOR of_nat i)) (bram_seek 0 s) =
      s\<lparr>bram := mem_put (bram s) 0 (map (\<lambda>i. HDR_POISON XOR of_nat i) [0..<n]), bram_addr := of_nat n\<rparr>" for n
  proof (induction n)
    case 0
    show ?case by (simp add: bram_seek_def)
  next
    case (Suc n)
    then show ?case
      using mem_put_append [of "map (\<lambda>i. HDR_POISON XOR of_nat i) [0..<n]" "[HDR_POISON XOR of_nat n]" "bram s" 0]
      by (simp add: for_to_Suc bram_write_def mem_put_single add.commute)
  qed
  from this [of SECTOR_WORDS] show ?thesis
    by (simp add: hdr_poison_def SECTOR_WORDS_def poison_words_def)
qed

definition hdr_sum :: "u32 list \<Rightarrow> u32" where
  "hdr_sum ws = fold (\<lambda>w sm. (push_bit 5 sm OR drop_bit 27 sm) XOR w) ws 0"

definition poisoned_count :: "bram \<Rightarrow> nat" where
  "poisoned_count m = length (filter (\<lambda>i. m (of_nat i) = HDR_POISON XOR of_nat i) [0..<128])"

lemma poisoned_count_le: "poisoned_count m \<le> 128"
  unfolding poisoned_count_def using length_filter_le [of _ "[0..<128]"] by simp

lemma hdr_scan_eq:
  "hdr_scan s = (hdr_sum (cells (bram s) 0 128), of_nat (poisoned_count (bram s)), s\<lparr>bram_addr := 128\<rparr>)"
proof -
  have "for_to n hdr_scan_word (0, 0, bram_seek 0 s) =
     (hdr_sum (cells (bram s) 0 n),
      of_nat (length (filter (\<lambda>i. bram s (of_nat i) = HDR_POISON XOR of_nat i) [0..<n])),
      s\<lparr>bram_addr := of_nat n\<rparr>)" for n
    by (induction n)
      (simp_all add: for_to_Suc bram_seek_def bram_read_def hdr_scan_word_def hdr_sum_def cells_def
        add.commute)
  from this [of SECTOR_WORDS] show ?thesis
    by (simp add: hdr_scan_def SECTOR_WORDS_def poisoned_count_def)
qed

abbreviation header_transfer ::
  "'h apf \<Rightarrow> ('h, 'z) hw_scheme \<Rightarrow> bool \<times> ('h, 'z) hw_scheme" where
  "header_transfer apf s \<equiv>
     tds_transfer apf HDD0_SLOT_ID 0 FDD_TDS_READ SECTOR_BYTES (hdr_poison s)"

lemma hdr_pass_eq:
  "hdr_pass apf s =
     (let (ok, u) = header_transfer apf s
      in if \<not> ok then (None, u)
         else (if 64 < poisoned_count (bram u) then None else Some (hdr_sum (cells (bram u) 0 128)),
               u\<lparr>bram_addr := 128\<rparr>))"
proof -
  have "unat (of_nat (poisoned_count m) :: u32) = poisoned_count m" for m
    using poisoned_count_le [of m] by (simp add: unat_of_nat)
  then have "of_nat (SECTOR_WORDS div 2) < (of_nat (poisoned_count m) :: u32) \<longleftrightarrow> 64 < poisoned_count m"
    for m by (simp add: SECTOR_WORDS_def word_less_nat_alt)
  then show ?thesis
    by (simp add: hdr_pass_def hdr_scan_eq Let_def split: prod.split)
qed

text \<open>A pass whose command left most of the staging area as it was is never believed.\<close>

lemma hdr_pass_phantom:
  assumes "header_transfer apf s = (ok, u)"
    and "64 < card {i. i < 128 \<and> bram u (of_nat i) = bram (hdr_poison s) (of_nat i)}"
  shows "fst (hdr_pass apf s) = None"
proof -
  have p: "bram (hdr_poison s) (of_nat i) = HDR_POISON XOR of_nat i" if "i < 128" for i
    using mem_put_nth [of i poison_words "bram s" 0] that
    by (simp add: hdr_poison_eq poison_words_def)
  have "poisoned_count (bram u) = card {i \<in> set [0..<128]. bram u (of_nat i) = HDR_POISON XOR of_nat i}"
    unfolding poisoned_count_def by (simp add: distinct_length_filter Int_def conj_commute)
  also have "{i \<in> set [0..<128]. bram u (of_nat i) = HDR_POISON XOR of_nat i}
      = {i. i < 128 \<and> bram u (of_nat i) = bram (hdr_poison s) (of_nat i)}"
    using p by auto
  finally show ?thesis using assms by (simp add: hdr_pass_eq Let_def)
qed

section \<open>What a poll may touch\<close>

text \<open>A command of the SCSI service: one sector of the hard-disk slot through the start of the
  bridge RAM, inside a file of \<open>n\<close> bytes (the header probe asks for sector 0 of any file).\<close>

definition hdd_rq :: "nat \<Rightarrow> tds_req \<Rightarrow> bool" where
  "hdd_rq n rq \<longleftrightarrow> rq_slot rq = HDD0_SLOT_ID \<and> rq_bridge rq = FDD_BRIDGE_BASE
     \<and> rq_length rq = SECTOR_BYTES \<and> unat (rq_offset rq) + 512 \<le> max 512 n"

definition scsi_safe :: "('h, 'z) scsi_st_scheme \<Rightarrow> ('h, 'z) scsi_st_scheme \<Rightarrow> bool" where
  "scsi_safe s t \<longleftrightarrow> fdd t = fdd s \<and> opna t = opna s \<and> dtbl t = dtbl s \<and> fdd_request t = fdd_request s
     \<and> scsi_st.more t = scsi_st.more s \<and> scsi_bytes t = scsi_bytes s
     \<and> log_ext (hdd_rq (unat (scsi_bytes s))) s t \<and> bram_keeps (\<lambda>a. 128 \<le> unat a) s t"

lemma scsi_safe_trans: "scsi_safe s t \<Longrightarrow> scsi_safe t u \<Longrightarrow> scsi_safe s u"
  unfolding scsi_safe_def by (auto intro: log_ext_trans bram_keeps_trans)

text \<open>The side of the window only the guest and the acknowledge move.\<close>

definition win_keeps :: "scsi_win \<Rightarrow> scsi_win \<Rightarrow> bool" where
  "win_keeps w w' \<longleftrightarrow> ctrl w' = ctrl w \<and> cmd_req w' = cmd_req w \<and> cmd_byte w' = cmd_byte w
     \<and> cmd_ack w' = cmd_ack w"

lemma win_keeps_trans: "win_keeps w v \<Longrightarrow> win_keeps v u \<Longrightarrow> win_keeps w u"
  by (simp add: win_keeps_def)

lemma win_keeps_put [simp]: "win_keeps w (win_put bs w)" "win_keeps w w"
  by (simp_all add: win_keeps_def win_put_def)

lemma scsi_safe_window:
  assumes "fdd t = fdd s" "opna t = opna s" "dtbl t = dtbl s" "fdd_request t = fdd_request s"
    "scsi_st.more t = scsi_st.more s" "scsi_bytes t = scsi_bytes s" "tds_log t = tds_log s"
    "bram t = bram s"
  shows "scsi_safe s t"
  using assms by (simp add: scsi_safe_def log_ext_refl bram_keeps_refl)

lemma scsi_safe_replies:
  "scsi_safe s (scsi_ok s)" "scsi_safe s (scsi_fail key asc s)"
  "scsi_safe s (scsi_do_inquiry alloc s)" "scsi_safe s (scsi_do_request_sense alloc s)"
  "scsi_safe s (scsi_do_read_capacity s)" "scsi_safe s (scsi_do_mode_sense cdb s)"
proof -
  show "scsi_safe s (scsi_ok s)" "scsi_safe s (scsi_fail key asc s)"
    by (rule scsi_safe_window; simp add: scsi_ok_eq scsi_fail_eq)+
  show "scsi_safe s (scsi_do_inquiry alloc s)" "scsi_safe s (scsi_do_request_sense alloc s)"
    by (rule scsi_safe_window; simp add: scsi_do_inquiry_eq scsi_do_request_sense_eq reply_state_def)+
  show "scsi_safe s (scsi_do_read_capacity s)"
  proof (cases "scsi_sectors s = 0")
    case True
    then have e: "scsi_do_read_capacity s = scsi_fail SENSE_NOT_READY 0x3A s"
      by (simp add: scsi_do_read_capacity_def)
    show ?thesis unfolding e by (rule scsi_safe_window) (simp_all add: scsi_fail_eq)
  next
    case False
    show ?thesis unfolding scsi_do_read_capacity_eq [OF False]
      by (rule scsi_safe_window) (simp_all add: reply_state_def)
  qed
  show "scsi_safe s (scsi_do_mode_sense cdb s)"
  proof (cases "mode_page cdb \<in> {0, 3, 4, 0x3F}")
    case True
    show ?thesis unfolding mode_sense_eq [OF True] by (rule scsi_safe_window) (simp_all add: reply_state_def)
  next
    case False
    show ?thesis unfolding mode_sense_reject [OF False] by (rule scsi_safe_window) (simp_all add: scsi_fail_eq)
  qed
qed

lemma in_span_first_sector:
  assumes "128 \<le> unat a"
  shows "\<not> in_span (tds_rq slot off dir SECTOR_BYTES FDD_BRIDGE_BASE) a"
  using assms by (simp add: in_span_def rq_word_def)

lemma mem_put_first_sector:
  "length bs \<le> 128 \<Longrightarrow> 128 \<le> unat (a :: 10 word) \<Longrightarrow> mem_put m 0 bs a = m a"
  by (simp add: mem_put_def)

context dataslot
begin

lemma sector_transfer_keeps:
  assumes "tds_transfer apf slot off dir SECTOR_BYTES s = (ok, t)"
  shows "bram_keeps (\<lambda>a. 128 \<le> unat a) s t"
  using transfer_ram_frame [OF assms [unfolded tds_transfer_def] in_span_first_sector]
  by (simp add: bram_keeps_def)

lemma push_sector_safe:
  assumes "scsi_push_sector apf lba s = (ok, t)"
    and "hdd_rq (unat (scsi_bytes s)) (sector_rq (scsi_base s) lba FDD_TDS_READ)"
  shows "scsi_safe s t"
proof -
  obtain u where u:
    "tds_transfer apf HDD0_SLOT_ID (scsi_base s + lba * SECTOR_BYTES) FDD_TDS_READ SECTOR_BYTES s = (ok, u)"
    "bram t = bram u" "scsi_frame s t"
    "tds_log t = tds_log s @ [sector_rq (scsi_base s) lba FDD_TDS_READ]"
    using push_sector_obs [OF assms(1)] by metis
  have "bram_keeps (\<lambda>a. 128 \<le> unat a) s t"
    using sector_transfer_keeps [OF u(1)] u(2) by (simp add: bram_keeps_def)
  then show ?thesis
    using u(3,4) assms(2) scsi_vars_cong [of t s]
    by (simp add: scsi_safe_def scsi_frame_def log_ext_one)
qed

lemma drain_sector_safe:
  assumes "scsi_drain_sector apf lba s = (ok, t)"
    and "hdd_rq (unat (scsi_bytes s)) (sector_rq (scsi_base s) lba FDD_TDS_WRITE)"
  shows "scsi_safe s t"
proof -
  obtain v where v:
    "tds_transfer apf HDD0_SLOT_ID (scsi_base s + lba * SECTOR_BYTES) FDD_TDS_WRITE SECTOR_BYTES v = (ok, t)"
    "bram v = mem_put (bram s) 0 (map (win_word (scsi s)) [0..<128])" "scsi_frame s t"
    "tds_log t = tds_log s @ [sector_rq (scsi_base s) lba FDD_TDS_WRITE]"
    using drain_sector_obs [OF assms(1)] by metis
  have "bram_keeps (\<lambda>a. 128 \<le> unat a) s t"
    using sector_transfer_keeps [OF v(1)] v(2) by (simp add: bram_keeps_def mem_put_first_sector)
  then show ?thesis
    using v(3,4) assms(2) scsi_vars_cong [of t s]
    by (simp add: scsi_safe_def scsi_frame_def log_ext_one)
qed

end

text \<open>A block loop whose every move is safe is safe.\<close>

definition scsi_moved :: "('h, 'z) scsi_st_scheme \<Rightarrow> ('h, 'z) scsi_st_scheme \<Rightarrow> bool" where
  "scsi_moved s t \<longleftrightarrow> scsi_safe s t \<and> bus.more t = bus.more s \<and> win_keeps (scsi s) (scsi t)
     \<and> outs t = outs s"

lemma scsi_moved_trans: "scsi_moved s t \<Longrightarrow> scsi_moved t u \<Longrightarrow> scsi_moved s u"
  unfolding scsi_moved_def using scsi_safe_trans win_keeps_trans by metis

lemma sector_loop_safe:
  fixes move :: "u32 \<Rightarrow> ('h, 'z) scsi_st_scheme \<Rightarrow> bool \<times> ('h, 'z) scsi_st_scheme"
  assumes move: "\<And>l s ok t. move l s = (ok, t) \<Longrightarrow> hdd_rq (unat (scsi_bytes s)) (sector_rq (scsi_base s) l dir)
      \<Longrightarrow> scsi_moved s t"
    and "sector_loop move lba n s = (ok, t)"
    and "unat (scsi_base s) + 512 * (unat lba + n) \<le> unat (scsi_bytes s)"
  shows "scsi_moved s t"
  using assms(2,3)
proof (induction n arbitrary: lba s)
  case 0
  then show ?case by (auto simp: scsi_moved_def intro: scsi_safe_window)
next
  case (Suc n)
  obtain ok1 m where m: "move lba s = (ok1, m)" by fastforce
  have lim: "unat (scsi_base s) + 512 * (unat lba + Suc n) < 2 ^ 32"
    using Suc.prems(2) unat_bounds(3) [of "scsi_bytes s"] by simp
  have "hdd_rq (unat (scsi_bytes s)) (sector_rq (scsi_base s) lba dir)"
    using unat_sector_offset [OF lim] Suc.prems(2) by (simp add: hdd_rq_def)
  from move [OF m this] have sm: "scsi_moved s m" .
  then have eq: "bus.more m = bus.more s" by (simp add: scsi_moved_def)
  show ?case
  proof (cases ok1)
    case False
    then show ?thesis using sm Suc.prems(1) m by simp
  next
    case True
    have nxt: "unat (lba + 1) = Suc (unat lba)" using lim by (rule unat_block_next)
    have "scsi_moved m t"
    proof (rule Suc.IH)
      show "sector_loop move (lba + 1) n m = (ok, t)" using Suc.prems(1) m True by simp
      show "unat (scsi_base m) + 512 * (unat (lba + 1) + n) \<le> unat (scsi_bytes m)"
        using Suc.prems(2) nxt scsi_vars_cong [OF eq] by simp
    qed
    then show ?thesis using sm scsi_moved_trans by auto
  qed
qed

text \<open>A finished command: the interrupt bit is up and the status byte agrees with the sense
  data a REQUEST SENSE would report.\<close>

definition scsi_completed :: "('h, 'z) scsi_st_scheme \<Rightarrow> bool" where
  "scsi_completed s \<longleftrightarrow> auxstatus (scsi s) = 0x80 \<and>
     (if scsi_sense_key s = SENSE_NO_SENSE then scsistatus (scsi s) = SCSI_GOOD \<and> scsi_asc s = 0
      else scsistatus (scsi s) = SCSI_CHECK_CONDITION
           \<and> scsi_sense_key s \<in> {SENSE_NOT_READY, SENSE_ILLEGAL_REQ})"

text \<open>One command run to its end on an unchanged mount.\<close>

definition scsi_done :: "('h, 'z) scsi_st_scheme \<Rightarrow> ('h, 'z) scsi_st_scheme \<Rightarrow> bool" where
  "scsi_done s t \<longleftrightarrow> scsi_safe s t \<and> win_keeps (scsi s) (scsi t) \<and> scsi_completed t
     \<and> scsi_sectors t = scsi_sectors s \<and> scsi_base t = scsi_base s \<and> outs t = outs s
     \<and> scsi_ack t = scsi_ack s"

lemma scsi_done_replies:
  "scsi_done s (scsi_ok s)" "key \<in> {2, 5} \<Longrightarrow> scsi_done s (scsi_fail key asc s)"
  "scsi_done s (scsi_do_inquiry alloc s)" "scsi_done s (scsi_do_request_sense alloc s)"
  "scsi_done s (scsi_do_read_capacity s)" "scsi_done s (scsi_do_mode_sense cdb s)"
proof -
  note facts = scsi_done_def win_keeps_def scsi_completed_def scsi_consts scsi_safe_replies
  note reply = reply_state_def reply_win_def
  show "scsi_done s (scsi_ok s)" by (simp add: facts, simp add: scsi_ok_eq)
  have fl: "scsi_done s (scsi_fail key asc s)" if "key \<in> {2, 5}" for key asc
    using that by (simp add: facts, auto simp: scsi_fail_eq)
  then show "key \<in> {2, 5} \<Longrightarrow> scsi_done s (scsi_fail key asc s)" .
  show "scsi_done s (scsi_do_inquiry alloc s)"
    by (simp add: facts, simp add: scsi_do_inquiry_eq reply)
  show "scsi_done s (scsi_do_request_sense alloc s)"
    by (simp add: facts, simp add: scsi_do_request_sense_eq reply)
  show "scsi_done s (scsi_do_read_capacity s)"
  proof (cases "scsi_sectors s = 0")
    case True
    then have "scsi_do_read_capacity s = scsi_fail SENSE_NOT_READY 0x3A s"
      by (simp add: scsi_do_read_capacity_def)
    then show ?thesis using fl [of 2 "0x3A"] by (simp add: scsi_consts)
  next
    case False
    then show ?thesis by (simp add: facts, simp add: scsi_do_read_capacity_eq reply)
  qed
  show "scsi_done s (scsi_do_mode_sense cdb s)"
  proof (cases "mode_page cdb \<in> {0, 3, 4, 0x3F}")
    case True
    show ?thesis
      by (simp add: facts) (unfold mode_sense_eq [OF True], simp add: reply)
  next
    case False
    show ?thesis unfolding mode_sense_reject [OF False] using fl [of 5 "0x24"] by (simp add: scsi_consts)
  qed
qed

lemma scsi_done_after: "scsi_moved s m \<Longrightarrow> scsi_done m t \<Longrightarrow> scsi_done s t"
  using scsi_vars_cong [of m s] scsi_safe_trans win_keeps_trans
  unfolding scsi_done_def scsi_moved_def by metis

lemma scsi_moved_ports:
  "scsi_moved s (scsi_rewind_write s)" "scsi_moved s (scsi_rewind_read s)" "scsi_moved s (scsi_buf_seek 0 s)"
  unfolding scsi_moved_def by (auto simp: scsi_port_eqs win_keeps_def intro!: scsi_safe_window)

text \<open>The range check of a block command, on numbers.\<close>

lemma block_range:
  assumes "scsi_inv s" "\<not> (scsi_sectors s \<le> lba \<or> scsi_sectors s < lba + blocks)"
    and "blocks \<le> SCSI_MAX_BLOCKS"
  shows "unat (scsi_base s) + 512 * (unat lba + unat blocks) \<le> unat (scsi_bytes s)"
proof -
  have n0: "scsi_sectors s \<noteq> 0" using assms(2) by auto
  then have inv: "unat (scsi_base s) + 512 * unat (scsi_sectors s) \<le> unat (scsi_bytes s)"
    using assms(1) by (simp add: scsi_inv_def)
  have "unat lba < unat (scsi_sectors s)" using assms(2) by (simp add: word_less_nat_alt not_le)
  moreover have "unat blocks \<le> 16" using assms(3) by (simp add: SCSI_MAX_BLOCKS_def word_le_nat_alt)
  ultimately have "unat lba + unat blocks < 2 ^ 32"
    using inv unat_bounds(3) [of "scsi_bytes s"] by simp
  then have "unat (lba + blocks) = unat lba + unat blocks" by (simp add: unat_word_ariths)
  moreover have "unat (lba + blocks) \<le> unat (scsi_sectors s)"
    using assms(2) by (simp add: word_le_nat_alt not_less)
  ultimately show ?thesis using inv by simp
qed

abbreviation capped :: "u32 \<Rightarrow> u32" where
  "capped blocks \<equiv> (if SCSI_MAX_BLOCKS < blocks then SCSI_MAX_BLOCKS else blocks)"

lemma capped_le: "capped blocks \<le> SCSI_MAX_BLOCKS" "unat (capped blocks) = min 16 (unat blocks)"
  by (auto simp: SCSI_MAX_BLOCKS_def word_less_nat_alt word_le_nat_alt)

context dataslot
begin

lemma push_moved:
  assumes "scsi_push_sector apf lba s = (ok, t)"
    and "hdd_rq (unat (scsi_bytes s)) (sector_rq (scsi_base s) lba FDD_TDS_READ)"
  shows "scsi_moved s t"
proof -
  obtain u where u: "scsi_frame s t"
    "scsi t = (if ok then win_put (ram_bytes (bram t) 0 512) (scsi s) else scsi s)"
    using push_sector_obs [OF assms(1)] by metis
  then show ?thesis
    using push_sector_safe [OF assms] by (simp add: scsi_moved_def scsi_frame_def)
qed

lemma drain_moved:
  assumes "scsi_drain_sector apf lba s = (ok, t)"
    and "hdd_rq (unat (scsi_bytes s)) (sector_rq (scsi_base s) lba FDD_TDS_WRITE)"
  shows "scsi_moved s t"
proof -
  obtain u where u: "scsi_frame s t"
    "scsi t = (scsi s)\<lparr>mg_buf_addr := mg_buf_addr (scsi s) + 512\<rparr>"
    using drain_sector_obs [OF assms(1)] by metis
  then show ?thesis
    using drain_sector_safe [OF assms] by (simp add: scsi_moved_def scsi_frame_def win_keeps_def)
qed

lemma scsi_do_read_done:
  assumes "scsi_inv s"
  shows "scsi_done s (scsi_do_read apf lba blocks s)"
proof (cases "scsi_sectors s = 0 \<or> blocks = 0 \<or> scsi_sectors s \<le> lba \<or> scsi_sectors s < lba + capped blocks")
  case True
  then show ?thesis
    using scsi_done_replies(1,2) by (auto simp: scsi_do_read_def Let_def scsi_consts)
next
  case False
  define m where "m = scsi_buf_seek 0 (scsi_rewind_write s)"
  have sm: "scsi_moved s m" unfolding m_def using scsi_moved_ports scsi_moved_trans by blast
  then have eq: "bus.more m = bus.more s" by (simp add: scsi_moved_def)
  obtain ok t where run: "sector_loop (scsi_push_sector apf) lba (unat (capped blocks)) m = (ok, t)"
    by fastforce
  have "unat (scsi_base m) + 512 * (unat lba + unat (capped blocks)) \<le> unat (scsi_bytes m)"
    using block_range [OF assms, of lba "capped blocks"] False capped_le(1) scsi_vars_cong [OF eq] by simp
  then have mt: "scsi_moved m t" using sector_loop_safe push_moved run by metis
  have "scsi_do_read apf lba blocks s
      = (if ok then scsi_ok (scsi_rewind_read t) else scsi_fail SENSE_NOT_READY 0x11 t)"
    using False run by (simp add: scsi_do_read_def Let_def m_def)
  moreover have "scsi_done t (scsi_ok (scsi_rewind_read t))"
    using scsi_moved_ports(2) scsi_done_replies(1) by (rule scsi_done_after)
  moreover have "scsi_done t (scsi_fail SENSE_NOT_READY 0x11 t)"
    by (rule scsi_done_replies) (simp add: scsi_consts)
  ultimately show ?thesis
    using scsi_done_after [OF scsi_moved_trans [OF sm mt]] by simp
qed

lemma scsi_do_write_done:
  assumes "scsi_inv s"
  shows "scsi_done s (scsi_do_write apf lba blocks s)"
proof (cases "scsi_sectors s = 0 \<or> blocks = 0 \<or> scsi_sectors s \<le> lba \<or> scsi_sectors s < lba + capped blocks")
  case True
  then show ?thesis
    using scsi_done_replies(1,2) by (auto simp: scsi_do_write_def Let_def scsi_consts)
next
  case False
  define m where "m = scsi_buf_seek 0 s"
  have sm: "scsi_moved s m" unfolding m_def by (rule scsi_moved_ports)
  then have eq: "bus.more m = bus.more s" by (simp add: scsi_moved_def)
  obtain ok t where run: "sector_loop (scsi_drain_sector apf) lba (unat (capped blocks)) m = (ok, t)"
    by fastforce
  have "unat (scsi_base m) + 512 * (unat lba + unat (capped blocks)) \<le> unat (scsi_bytes m)"
    using block_range [OF assms, of lba "capped blocks"] False capped_le(1) scsi_vars_cong [OF eq] by simp
  then have mt: "scsi_moved m t" using sector_loop_safe drain_moved run by metis
  have "scsi_do_write apf lba blocks s
      = (if ok then scsi_ok (scsi_rewind_write t) else scsi_fail SENSE_NOT_READY 0x0C t)"
    using False run by (simp add: scsi_do_write_def Let_def m_def)
  moreover have "scsi_done t (scsi_ok (scsi_rewind_write t))"
    using scsi_moved_ports(1) scsi_done_replies(1) by (rule scsi_done_after)
  moreover have "scsi_done t (scsi_fail SENSE_NOT_READY 0x0C t)"
    by (rule scsi_done_replies) (simp add: scsi_consts)
  ultimately show ?thesis
    using scsi_done_after [OF scsi_moved_trans [OF sm mt]] by simp
qed

lemma scsi_dispatch_done:
  assumes "scsi_inv s"
  shows "scsi_done s (scsi_dispatch apf cdb s)"
  using assms
  by (simp add: scsi_dispatch_def Let_def scsi_consts scsi_done_replies scsi_do_read_done
      scsi_do_write_done)

end

section \<open>Mounting\<close>

abbreviation header_rq :: tds_req where
  "header_rq \<equiv> tds_rq HDD0_SLOT_ID 0 FDD_TDS_READ SECTOR_BYTES FDD_BRIDGE_BASE"

text \<open>What reading the header changes: the staging area and the command log.\<close>

definition hdr_frame :: "('h, 'z) hw_scheme \<Rightarrow> ('h, 'z) hw_scheme \<Rightarrow> bool" where
  "hdr_frame s t \<longleftrightarrow> hw.more t = hw.more s \<and> outs t = outs s \<and> dtbl t = dtbl s
     \<and> log_ext (\<lambda>rq. rq = header_rq) s t \<and> bram_keeps (\<lambda>a. 128 \<le> unat a) s t"

lemma hdr_frame_trans: "hdr_frame s t \<Longrightarrow> hdr_frame t u \<Longrightarrow> hdr_frame s u"
  unfolding hdr_frame_def by (auto intro: log_ext_trans bram_keeps_trans)

lemma hdr_frame_seek: "hdr_frame s t \<Longrightarrow> hdr_frame s (t\<lparr>bram_addr := a\<rparr>)"
  by (simp add: hdr_frame_def log_ext_def bram_keeps_def)

context dataslot
begin

lemma header_transfer_obs:
  assumes "header_transfer apf s = (ok, u)"
  shows "hdr_frame s u" "slot_file (host u) = slot_file (host s)"
    "ok \<Longrightarrow> 512 \<le> length (slot_file (host s) HDD0_SLOT_ID) \<Longrightarrow>
       ram_bytes (bram u) 0 512 = take 512 (slot_file (host s) HDD0_SLOT_ID)"
proof -
  note tr = assms [unfolded tds_transfer_def]
  have "bram_keeps (\<lambda>a. 128 \<le> unat a) (hdr_poison s) u"
    using sector_transfer_keeps [OF assms] .
  then have "bram_keeps (\<lambda>a. 128 \<le> unat a) s u"
    by (simp add: bram_keeps_def hdr_poison_eq mem_put_first_sector poison_words_def)
  then show "hdr_frame s u"
    using tds_transfer_to_frame [OF tr] by (simp add: hdr_frame_def hdr_poison_eq log_ext_one)
  show "slot_file (host u) = slot_file (host s)"
    using read_keeps_files [OF tr] by (simp add: hdr_poison_eq)
  show "ok \<Longrightarrow> 512 \<le> length (slot_file (host s) HDD0_SLOT_ID) \<Longrightarrow>
       ram_bytes (bram u) 0 512 = take 512 (slot_file (host s) HDD0_SLOT_ID)"
    using read_lands_file [of HDD0_SLOT_ID 0 SECTOR_BYTES FDD_BRIDGE_BASE "hdr_poison s" u] tr
    by (simp add: hdr_poison_eq)
qed

lemma hdr_pass_obs:
  assumes "hdr_pass apf s = (r, t)"
  shows "hdr_frame s t" "slot_file (host t) = slot_file (host s)"
    "r \<noteq> None \<Longrightarrow> 512 \<le> length (slot_file (host s) HDD0_SLOT_ID) \<Longrightarrow>
       ram_bytes (bram t) 0 512 = take 512 (slot_file (host s) HDD0_SLOT_ID)"
proof -
  obtain ok u where u: "header_transfer apf s = (ok, u)" by fastforce
  have t: "t = (if ok then u\<lparr>bram_addr := 128\<rparr> else u)" "r \<noteq> None \<Longrightarrow> ok"
    using assms u by (auto simp: hdr_pass_eq Let_def split: if_splits)
  show "hdr_frame s t" "slot_file (host t) = slot_file (host s)"
    using header_transfer_obs(1,2) [OF u] hdr_frame_seek by (auto simp: t)
  show "r \<noteq> None \<Longrightarrow> 512 \<le> length (slot_file (host s) HDD0_SLOT_ID) \<Longrightarrow>
       ram_bytes (bram t) 0 512 = take 512 (slot_file (host s) HDD0_SLOT_ID)"
    using header_transfer_obs(3) [OF u] t by auto
qed

lemma hdr_read_obs:
  assumes "hdr_read apf s = (ok, t)"
  shows "hdr_frame s t" "slot_file (host t) = slot_file (host s)"
    "ok \<Longrightarrow> 512 \<le> length (slot_file (host s) HDD0_SLOT_ID) \<Longrightarrow>
       ram_bytes (bram t) 0 512 = take 512 (slot_file (host s) HDD0_SLOT_ID)"
proof -
  obtain r1 m where m: "hdr_pass apf s = (r1, m)" by fastforce
  obtain r2 u where u: "hdr_pass apf m = (r2, u)" by fastforce
  note mo = hdr_pass_obs [OF m] and uo = hdr_pass_obs [OF u]
  have t: "t = (if r1 = None then m else u)" "ok \<Longrightarrow> r1 \<noteq> None \<and> r2 \<noteq> None"
    using assms m u by (auto simp: hdr_read_def split: option.splits)
  show "hdr_frame s t" "slot_file (host t) = slot_file (host s)"
    using mo(1,2) uo(1,2) hdr_frame_trans by (auto simp: t(1))
  show "ok \<Longrightarrow> 512 \<le> length (slot_file (host s) HDD0_SLOT_ID) \<Longrightarrow>
       ram_bytes (bram t) 0 512 = take 512 (slot_file (host s) HDD0_SLOT_ID)"
    using uo(3) mo(2) t by auto
qed

text \<open>The probe: either nothing but the staging area moved, or the variables are those the
  staged header dictates.\<close>

lemma scsi_probe_obs:
  assumes "scsi_probe apf bytes s = (ok, t)"
  obtains u a where "hdr_frame s u" "slot_file (host u) = slot_file (host s)"
    "\<not> ok \<Longrightarrow> t = u"
    "ok \<Longrightarrow> t = probe_classify bytes (header_geom (bram u) bytes)
       (u\<lparr>scsi_base := 0, scsi_spt := 25, scsi_heads := 8, scsi_sectors := 0, bram_addr := a\<rparr>)"
    "ok \<Longrightarrow> 512 \<le> length (slot_file (host s) HDD0_SLOT_ID) \<Longrightarrow>
       ram_bytes (bram u) 0 512 = take 512 (slot_file (host s) HDD0_SLOT_ID)"
proof -
  obtain ok' u where u: "hdr_read apf s = (ok', u)" by fastforce
  define v where "v = u\<lparr>scsi_base := 0, scsi_spt := 25, scsi_heads := 8, scsi_sectors := 0\<rparr>"
  obtain a where a: "probe_header bytes v = (header_geom (bram v) bytes, v\<lparr>bram_addr := a\<rparr>)"
    using probe_header_eq by blast
  have ok: "ok' = ok" "\<not> ok \<Longrightarrow> t = u"
    "ok \<Longrightarrow> t = probe_classify bytes (header_geom (bram v) bytes) (v\<lparr>bram_addr := a\<rparr>)"
    using assms u a by (auto simp: scsi_probe_def Let_def v_def [symmetric] split: if_splits)
  show ?thesis
    using that [of u a] hdr_read_obs [OF u] ok by (simp add: v_def)
qed

end

lemma probe_classify_frame:
  "host (probe_classify bytes g s) = host s" "bram (probe_classify bytes g s) = bram s"
  "tds_log (probe_classify bytes g s) = tds_log s" "outs (probe_classify bytes g s) = outs s"
  "dtbl (probe_classify bytes g s) = dtbl s" "fdd (probe_classify bytes g s) = fdd s"
  "opna (probe_classify bytes g s) = opna s" "scsi (probe_classify bytes g s) = scsi s"
  "fdd_request (probe_classify bytes g s) = fdd_request s"
  "scsi_st.more (probe_classify bytes g s) = scsi_st.more s"
  "scsi_bytes (probe_classify bytes g s) = scsi_bytes s"
  "scsi_reprobe (probe_classify bytes g s) = scsi_reprobe s"
  "scsi_ack (probe_classify bytes g s) = scsi_ack s"
  "scsi_sense_key (probe_classify bytes g s) = scsi_sense_key s"
  "scsi_asc (probe_classify bytes g s) = scsi_asc s"
  by (simp_all add: probe_classify_def Let_def)

context dataslot
begin

lemma scsi_probe_safe:
  assumes "scsi_probe apf bytes s = (ok, t)"
  shows "scsi_safe s t" "win_keeps (scsi s) (scsi t)" "outs t = outs s" "scsi_ack t = scsi_ack s"
    "scsi_bytes s = bytes \<Longrightarrow> scsi_inv s \<or> ok \<Longrightarrow> scsi_inv t"
proof -
  from assms obtain u a where u: "hdr_frame s u" "\<not> ok \<Longrightarrow> t = u"
    "ok \<Longrightarrow> t = probe_classify bytes (header_geom (bram u) bytes)
       (u\<lparr>scsi_base := 0, scsi_spt := 25, scsi_heads := 8, scsi_sectors := 0, bram_addr := a\<rparr>)"
    by (rule scsi_probe_obs) blast
  from u(1) have m: "hw.more u = hw.more s" "outs u = outs s" "dtbl u = dtbl s"
    "log_ext (\<lambda>rq. rq = header_rq) s u" "bram_keeps (\<lambda>a. 128 \<le> unat a) s u"
    by (simp_all add: hdr_frame_def)
  then have b: "bus.more u = bus.more s" "fdd u = fdd s" "opna u = opna s"
    "fdd_request u = fdd_request s" "scsi u = scsi s"
    by (cases s; cases u; simp)+
  note vars = scsi_vars_cong [OF b(1)]
  have "hdd_rq (unat (scsi_bytes s)) header_rq" by (simp add: hdd_rq_def)
  then have log: "log_ext (hdd_rq (unat (scsi_bytes s))) s u"
    using log_ext_mono [OF m(4)] by simp
  show "scsi_safe s t"
  proof (cases ok)
    case True
    then show ?thesis
      using m b vars log by (simp add: scsi_safe_def u(3) probe_classify_frame log_ext_def bram_keeps_def)
  next
    case False
    then show ?thesis using m b vars log u(2) by (simp add: scsi_safe_def)
  qed
  show "win_keeps (scsi s) (scsi t)" "outs t = outs s" "scsi_ack t = scsi_ack s"
    using m b vars u(2,3) by (cases ok; simp add: probe_classify_frame)+
  show "scsi_inv t" if bytes: "scsi_bytes s = bytes" and pre: "scsi_inv s \<or> ok"
  proof (cases ok)
    case True
    have "scsi_inv ((probe_classify bytes (header_geom (bram u) bytes)
        (u\<lparr>scsi_base := 0, scsi_spt := 25, scsi_heads := 8, scsi_sectors := 0, bram_addr := a\<rparr>))
          \<lparr>scsi_bytes := bytes\<rparr>)" by (rule probe_classify_inv) simp
    moreover have "scsi_bytes t = bytes" using u(3) True bytes vars by (simp add: probe_classify_frame)
    ultimately show ?thesis using u(3) True by (simp add: scsi_inv_def)
  next
    case False
    then show ?thesis using u(2) pre vars by (simp add: scsi_inv_def)
  qed
qed

end

section \<open>One poll\<close>

text \<open>A pending command claimed: the toggle acknowledged, twelve control registers read.\<close>

lemma ctrl_read_eq:
  "scsi_mgmt_read SMGMT_CTRL s =
     (push_bit 8 (ucast (cmd_byte (scsi s))) OR of_bool (cmd_req (scsi s) \<noteq> cmd_ack (scsi s)),
      s\<lparr>mgmt_addr := 0x200,
        mgmt_rdata := push_bit 8 (ucast (cmd_byte (scsi s))) OR of_bool (cmd_req (scsi s) \<noteq> cmd_ack (scsi s))\<rparr>)"
proof -
  have "(ucast (push_bit 8 (ucast b) OR of_bool c :: u16) :: u32) = push_bit 8 (ucast b) OR of_bool c"
    for b :: u8 and c
    by (rule bit_word_eqI) (auto simp: bit_simps dest: bit_imp_le_length)
  then show ?thesis by (simp add: scsi_mgmt_read_eq mgmt_regs scsi_read_def Let_def)
qed

lemma ctrl_ready:
  "(push_bit 8 (ucast (b :: u8)) OR of_bool c :: u32) AND 1 = of_bool c"
  by (rule bit_word_eqI) (auto simp: bit_simps)

lemma cdb_stream:
  "\<exists>a r. collect n scsi_cdb_byte s =
     (cells (ctrl (scsi s)) (mg_reg_addr (scsi s)) n :: u8 list,
      s\<lparr>mgmt_addr := a, mgmt_rdata := r,
        scsi := (scsi s)\<lparr>mg_reg_addr := mg_reg_addr (scsi s) + of_nat n\<rparr>\<rparr>)"
proof (induction n arbitrary: s)
  case 0
  show ?case
    by (rule exI [of _ "mgmt_addr s"], rule exI [of _ "mgmt_rdata s"]) (simp add: cells_def)
next
  case (Suc n)
  let ?w = "scsi s"
  define s' where "s' = s\<lparr>mgmt_addr := 0x202, mgmt_rdata := ucast (ctrl ?w (mg_reg_addr ?w)),
              scsi := ?w\<lparr>mg_reg_addr := mg_reg_addr ?w + 1\<rparr>\<rparr>"
  have step: "scsi_cdb_byte s = (ctrl ?w (mg_reg_addr ?w), s')"
    by (simp add: scsi_cdb_byte_def scsi_mgmt_read_eq mgmt_regs scsi_read_def Let_def s'_def)
  from Suc [of s'] obtain a r where IH:
    "collect n scsi_cdb_byte s' =
     (cells (ctrl (scsi s')) (mg_reg_addr (scsi s')) n :: u8 list,
      s'\<lparr>mgmt_addr := a, mgmt_rdata := r,
         scsi := (scsi s')\<lparr>mg_reg_addr := mg_reg_addr (scsi s') + of_nat n\<rparr>\<rparr>)" by blast
  show ?case
    by (rule exI [of _ a], rule exI [of _ r])
      (use cells_append [of "ctrl ?w" "mg_reg_addr ?w" 1 n] in
        \<open>simp add: step IH Let_def, simp add: s'_def cells_def add.assoc\<close>)
qed

lemma scsi_get_cdb_eq:
  obtains a r where "scsi_get_cdb s =
     (cells (ctrl (scsi s)) 3 12,
      s\<lparr>mgmt_addr := a, mgmt_wdata := 3, mgmt_rdata := r,
        scsi := (scsi s)\<lparr>mg_reg_addr := 15\<rparr>\<rparr>)"
proof -
  let ?s = "scsi_mgmt_write SMGMT_REGIDX CDB_BASE s"
  have s: "?s = s\<lparr>mgmt_addr := 0x201, mgmt_wdata := 3, scsi := (scsi s)\<lparr>mg_reg_addr := 3\<rparr>\<rparr>"
    by (simp add: scsi_mgmt_write_eq mgmt_regs scsi_write_def CDB_BASE_def)
  obtain a r where "scsi_get_cdb s = (cells (ctrl (scsi ?s)) (mg_reg_addr (scsi ?s)) 12,
      ?s\<lparr>mgmt_addr := a, mgmt_rdata := r,
         scsi := (scsi ?s)\<lparr>mg_reg_addr := mg_reg_addr (scsi ?s) + 12\<rparr>\<rparr>)"
    unfolding scsi_get_cdb_def using cdb_stream [of CDB_MAX ?s] by (auto simp: CDB_MAX_def)
  then show ?thesis
    by (intro that [where a = a and r = r]) (simp add: s)
qed

text \<open>The state in which a claimed command is executed.\<close>

lemma scsi_poll_claim:
  assumes "cmd_req (scsi s) \<noteq> cmd_ack (scsi s)"
  obtains a v r where
    "scsi_poll apf s = scsi_execute apf (cells (ctrl (scsi s)) 3 12)
       (s\<lparr>mgmt_addr := a, mgmt_wdata := v, mgmt_rdata := r, scsi_ack := \<not> scsi_ack s,
          scsi := (scsi s)\<lparr>cmd_ack := cmd_req (scsi s), mg_reg_addr := 15\<rparr>\<rparr>)"
proof -
  define s1 where "s1 = snd (scsi_mgmt_read SMGMT_CTRL s)"
  have s1: "scsi s1 = scsi s" "scsi_ack s1 = scsi_ack s"
    by (simp_all add: s1_def ctrl_read_eq)
  define s2 where "s2 = scsi_mgmt_write SMGMT_CTRL 1 s1"
  have s2: "s2 = s1\<lparr>mgmt_addr := 0x200, mgmt_wdata := 1, scsi := (scsi s)\<lparr>cmd_ack := cmd_req (scsi s)\<rparr>\<rparr>"
    unfolding s2_def by (simp add: scsi_mgmt_write_eq mgmt_regs scsi_write_def) (simp add: s1)
  define s3 where "s3 = s2\<lparr>scsi_ack := \<not> scsi_ack s\<rparr>"
  obtain a r where "scsi_get_cdb s3 = (cells (ctrl (scsi s3)) 3 12,
      s3\<lparr>mgmt_addr := a, mgmt_wdata := 3, mgmt_rdata := r,
         scsi := (scsi s3)\<lparr>mg_reg_addr := 15\<rparr>\<rparr>)"
    by (rule scsi_get_cdb_eq)
  then have r: "scsi_get_cdb s3 = (cells (ctrl (scsi s)) 3 12,
      s3\<lparr>mgmt_addr := a, mgmt_wdata := 3, mgmt_rdata := r,
         scsi := (scsi s)\<lparr>cmd_ack := cmd_req (scsi s), mg_reg_addr := 15\<rparr>\<rparr>)"
    by (simp add: s3_def s2)
  have ack: "scsi_ack s2 = scsi_ack s" by (simp add: s2 s1_def ctrl_read_eq)
  have rd: "scsi_mgmt_read SMGMT_CTRL s = (push_bit 8 (ucast (cmd_byte (scsi s))) OR of_bool True, s1)"
    using assms by (simp add: s1_def ctrl_read_eq)
  have "scsi_poll apf s = (let (cdb, s) = scsi_get_cdb s3 in scsi_execute apf cdb s)"
    unfolding scsi_poll_def rd Let_def prod.case ctrl_ready
    by (simp add: s3_def s2_def [symmetric] ack)
  moreover have "s3\<lparr>mgmt_addr := a, mgmt_wdata := 3, mgmt_rdata := r,
         scsi := (scsi s)\<lparr>cmd_ack := cmd_req (scsi s), mg_reg_addr := 15\<rparr>\<rparr>
      = s\<lparr>mgmt_addr := a, mgmt_wdata := 3, mgmt_rdata := r, scsi_ack := \<not> scsi_ack s,
          scsi := (scsi s)\<lparr>cmd_ack := cmd_req (scsi s), mg_reg_addr := 15\<rparr>\<rparr>"
    by (simp add: s3_def s2 s1_def ctrl_read_eq)
  ultimately show ?thesis by (intro that) (simp add: r)
qed

lemma scsi_poll_idle:
  assumes "cmd_req (scsi s) = cmd_ack (scsi s)"
  shows "scsi_poll apf s = snd (scsi_mgmt_read SMGMT_CTRL s)"
  using assms ctrl_ready [of "cmd_byte (scsi s)" False] by (simp add: scsi_poll_def ctrl_read_eq)

section \<open>Serving a prompt host\<close>

context prompt_dataslot
begin

lemma push_sectors_serve:
  assumes "sector_loop (scsi_push_sector apf) lba n s = (ok, t)"
    and "unat (scsi_base s) + 512 * (unat lba + n) \<le> length (slot_file (host s) HDD0_SLOT_ID)"
    and "unat (scsi_base s) + 512 * (unat lba + n) < 2 ^ 32"
  shows ok
  using assms
proof (induction n arbitrary: lba s)
  case 0
  then show ?case by simp
next
  case (Suc n)
  obtain ok1 m where m: "scsi_push_sector apf lba s = (ok1, m)" by fastforce
  then obtain u where u:
    "tds_transfer apf HDD0_SLOT_ID (scsi_base s + lba * SECTOR_BYTES) FDD_TDS_READ SECTOR_BYTES s = (ok1, u)"
    "host m = host u" "scsi_frame s m"
    using push_sector_obs by metis
  note tr = u(1) [unfolded tds_transfer_def]
  have off: "unat (scsi_base s + lba * SECTOR_BYTES) = unat (scsi_base s) + 512 * unat lba"
    using Suc.prems(3) by (rule unat_sector_offset)
  have ok1: ok1
    by (rule transfer_serves [OF tr]) (use Suc.prems(2) off in auto)
  have "slot_file (host m) = slot_file (host s)" "scsi_base m = scsi_base s"
    using read_keeps_files [OF tr] u(2,3) scsi_vars_cong unfolding scsi_frame_def by auto
  moreover have "unat (lba + 1) = Suc (unat lba)" using Suc.prems(3) by (rule unat_block_next)
  moreover have "sector_loop (scsi_push_sector apf) (lba + 1) n m = (ok, t)"
    using Suc.prems(1) m ok1 by simp
  ultimately show ?case using Suc.IH [of "lba + 1" m] Suc.prems(2,3) by simp
qed

lemma drain_sectors_serve:
  assumes "sector_loop (scsi_drain_sector apf) lba n s = (ok, t)"
    and "unat (scsi_base s) + 512 * (unat lba + n) \<le> length (slot_file (host s) HDD0_SLOT_ID)"
    and "unat (scsi_base s) + 512 * (unat lba + n) < 2 ^ 32"
  shows ok
  using assms
proof (induction n arbitrary: lba s)
  case 0
  then show ?case by simp
next
  case (Suc n)
  obtain ok1 m where m: "scsi_drain_sector apf lba s = (ok1, m)" by fastforce
  then obtain v where v:
    "tds_transfer apf HDD0_SLOT_ID (scsi_base s + lba * SECTOR_BYTES) FDD_TDS_WRITE SECTOR_BYTES v = (ok1, m)"
    "host v = host s" "scsi_frame s m"
    using drain_sector_obs by metis
  note tr = v(1) [unfolded tds_transfer_def]
  have off: "unat (scsi_base s + lba * SECTOR_BYTES) = unat (scsi_base s) + 512 * unat lba"
    using Suc.prems(3) by (rule unat_sector_offset)
  have ok1: ok1
    by (rule transfer_serves [OF tr]) (use Suc.prems(2) off v(2) in auto)
  have "length (slot_file (host m) HDD0_SLOT_ID) = length (slot_file (host s) HDD0_SLOT_ID)"
  proof -
    have "slot_file (host m) HDD0_SLOT_ID = overwrite (slot_file (host s) HDD0_SLOT_ID)
        (unat (scsi_base s) + 512 * unat lba) (ram_bytes (bram v) 0 512)"
      using write_updates_file(1) [of HDD0_SLOT_ID _ SECTOR_BYTES FDD_BRIDGE_BASE v m] tr ok1 v(2) off
        Suc.prems(2) by simp
    then show ?thesis using Suc.prems(2) by (simp add: length_overwrite)
  qed
  moreover have "scsi_base m = scsi_base s"
    using v(3) scsi_vars_cong unfolding scsi_frame_def by auto
  moreover have "unat (lba + 1) = Suc (unat lba)" using Suc.prems(3) by (rule unat_block_next)
  moreover have "sector_loop (scsi_drain_sector apf) (lba + 1) n m = (ok, t)"
    using Suc.prems(1) m ok1 by simp
  ultimately show ?case using Suc.IH [of "lba + 1" m] Suc.prems(2,3) by simp
qed

end

text \<open>The header as a bridge RAM that holds nothing else.\<close>

definition stage :: "u8 list \<Rightarrow> bram" where
  "stage hdr = land (\<lambda>_. 0) 0 hdr"

definition same_header :: "bram \<Rightarrow> bram \<Rightarrow> bool" where
  "same_header m m' \<longleftrightarrow> (\<forall>i<128. m (of_nat i) = m' (of_nat i))"

lemma same_header_stage:
  assumes "ram_bytes m 0 512 = hdr" "length hdr = 512"
  shows "same_header m (stage hdr)"
proof -
  have "ram_bytes (stage hdr) 0 512 = hdr"
    unfolding stage_def using ram_bytes_land [of hdr "\<lambda>_. 0" 0] assms(2) by simp
  then have "ram_bytes m 0 (4 * 128) = ram_bytes (stage hdr) 0 (4 * 128)" using assms(1) by simp
  from ram_bytes_words [OF this] show ?thesis by (simp add: same_header_def)
qed

lemma same_header_byte:
  assumes "same_header m m'" "unat b < 512"
  shows "ram_byte m b = ram_byte m' b"
proof -
  have "unat (drop_bit 2 b) = unat b div 4" unfolding unat_drop_bit_eq by (simp add: drop_bit_eq_div)
  then have "(ucast (drop_bit 2 b) :: 10 word) = of_nat (unat b div 4)"
    by (metis of_nat_unat)
  moreover have "unat b div 4 < 128" using assms(2) by simp
  ultimately show ?thesis using assms(1) by (simp add: ram_byte_def same_header_def)
qed

lemma same_header_fields:
  assumes "same_header m m'"
  shows "header_geom m bytes = header_geom m' bytes"
    "poisoned_count m = poisoned_count m'" "cells m 0 128 = cells m' 0 128"
proof -
  note byte = same_header_byte [OF assms]
  have sig: "has_sig m 0 ''T98HDDIMAGE.R0'' = has_sig m' 0 ''T98HDDIMAGE.R0''"
    "has_sig m 0 ''VHD1.'' = has_sig m' 0 ''VHD1.''"
    by (simp_all add: has_sig_Cons byte, simp_all add: has_sig_def)
  have "nhd_geom m = nhd_geom m'" "vhd_geom m = vhd_geom m'" "hdi_geom m = hdi_geom m'" "le32 m 0 = le32 m' 0"
    by (simp_all add: nhd_geom_def vhd_geom_def hdi_geom_def le16_def le32_def byte)
  with sig show "header_geom m bytes = header_geom m' bytes" by (simp add: header_geom_def)
  show "poisoned_count m = poisoned_count m'"
    using assms unfolding poisoned_count_def same_header_def
    by (intro arg_cong [where f = length] filter_cong) auto
  show "cells m 0 128 = cells m' 0 128"
    using assms by (intro cells_cong) (simp add: same_header_def)
qed

context prompt_dataslot
begin

lemma header_transfer_serves:
  assumes "header_transfer apf s = (ok, u)" "512 \<le> length (slot_file (host s) HDD0_SLOT_ID)"
  shows ok and "same_header (bram u) (stage (take 512 (slot_file (host s) HDD0_SLOT_ID)))"
proof -
  show ok: ok
    by (rule transfer_serves [OF assms(1) [unfolded tds_transfer_def]])
      (use assms(2) in \<open>auto simp: hdr_poison_eq\<close>)
  show "same_header (bram u) (stage (take 512 (slot_file (host s) HDD0_SLOT_ID)))"
    using header_transfer_obs(3) [OF assms(1)] ok assms(2) by (intro same_header_stage) auto
qed

lemma hdr_pass_serves:
  assumes "512 \<le> length (slot_file (host s) HDD0_SLOT_ID)"
  defines "b \<equiv> stage (take 512 (slot_file (host s) HDD0_SLOT_ID))"
  shows "fst (hdr_pass apf s) = (if 64 < poisoned_count b then None else Some (hdr_sum (cells b 0 128)))"
    and "same_header (bram (snd (hdr_pass apf s))) b"
proof -
  obtain ok u where u: "header_transfer apf s = (ok, u)" by fastforce
  note h = header_transfer_serves [OF u assms(1), folded b_def]
  show "fst (hdr_pass apf s) = (if 64 < poisoned_count b then None else Some (hdr_sum (cells b 0 128)))"
    "same_header (bram (snd (hdr_pass apf s))) b"
    using h same_header_fields [OF h(2)] by (simp_all add: hdr_pass_eq u Let_def)
qed

lemma hdr_read_serves:
  assumes "512 \<le> length (slot_file (host s) HDD0_SLOT_ID)"
  defines "b \<equiv> stage (take 512 (slot_file (host s) HDD0_SLOT_ID))"
  shows "fst (hdr_read apf s) = (poisoned_count b \<le> 64)"
    and "same_header (bram (snd (hdr_read apf s))) b"
proof -
  obtain r1 m where m: "hdr_pass apf s = (r1, m)" by fastforce
  obtain r2 u where u: "hdr_pass apf m = (r2, u)" by fastforce
  have f: "slot_file (host m) = slot_file (host s)" using hdr_pass_obs(2) [OF m] .
  note h1 = hdr_pass_serves [OF assms(1), folded b_def]
  note h2 = hdr_pass_serves [of m, unfolded f, OF assms(1), folded b_def]
  show "fst (hdr_read apf s) = (poisoned_count b \<le> 64)" "same_header (bram (snd (hdr_read apf s))) b"
    using h1 h2 by (auto simp: hdr_read_def m u split: option.splits if_splits)
qed

end

section \<open>A poll in one step\<close>

context dataslot
begin

lemma scsi_reclassify_safe:
  assumes "scsi_inv s"
  shows "scsi_safe s (scsi_reclassify apf s)" "win_keeps (scsi s) (scsi (scsi_reclassify apf s))"
    "scsi_inv (scsi_reclassify apf s)" "scsi_ack (scsi_reclassify apf s) = scsi_ack s"
proof -
  let ?t = "scsi_reclassify apf s"
  obtain ok m where m: "scsi_probe apf (scsi_bytes s) s = (ok, m)" by fastforce
  note p = scsi_probe_safe [OF m]
  have inv: "scsi_inv m" using p(5) assms by simp
  have "?t = s \<or> ?t = m \<or> ?t = emit SOFT_SCSI_MEDIA (of_bool (scsi_sectors m \<noteq> 0)) (m\<lparr>scsi_reprobe := False\<rparr>)"
    using m by (simp add: scsi_reclassify_def Let_def)
  then consider (same) "?t = s" | (failed) "?t = m"
    | (again) "?t = emit SOFT_SCSI_MEDIA (of_bool (scsi_sectors m \<noteq> 0)) (m\<lparr>scsi_reprobe := False\<rparr>)" by blast
  then have "scsi_safe s ?t \<and> win_keeps (scsi s) (scsi ?t) \<and> scsi_inv ?t \<and> scsi_ack ?t = scsi_ack s"
  proof cases
    case same
    then show ?thesis using assms by (auto intro: scsi_safe_window)
  next
    case failed
    then show ?thesis using p inv by simp
  next
    case again
    have "scsi_safe m ?t" unfolding again by (rule scsi_safe_window) (simp_all add: emit_def)
    then show ?thesis using p inv scsi_safe_trans [OF p(1)]
      by (simp add: again emit_def scsi_inv_def)
  qed
  then show "scsi_safe s ?t" "win_keeps (scsi s) (scsi ?t)" "scsi_inv ?t" "scsi_ack ?t = scsi_ack s"
    by blast+
qed

lemma scsi_inv_done: "scsi_inv s \<Longrightarrow> scsi_done s t \<Longrightarrow> scsi_inv t"
  by (simp add: scsi_inv_def scsi_done_def scsi_safe_def)

lemma scsi_execute_done:
  assumes "scsi_inv s"
  shows "scsi_safe s (scsi_execute apf cdb s)" "win_keeps (scsi s) (scsi (scsi_execute apf cdb s))"
    "scsi_inv (scsi_execute apf cdb s)" "scsi_completed (scsi_execute apf cdb s)"
    "scsi_ack (scsi_execute apf cdb s) = scsi_ack s"
proof -
  note r = scsi_reclassify_safe [OF assms]
  have d: "scsi_done (scsi_reclassify apf s) (scsi_execute apf cdb s)"
    unfolding scsi_execute_def by (rule scsi_dispatch_done [OF r(3)])
  then show "scsi_safe s (scsi_execute apf cdb s)" "win_keeps (scsi s) (scsi (scsi_execute apf cdb s))"
    using scsi_safe_trans [OF r(1)] win_keeps_trans [OF r(2)] by (auto simp: scsi_done_def)
  show "scsi_inv (scsi_execute apf cdb s)" using scsi_inv_done [OF r(3) d] .
  show "scsi_completed (scsi_execute apf cdb s)" "scsi_ack (scsi_execute apf cdb s) = scsi_ack s"
    using d r(4) by (simp_all add: scsi_done_def)
qed

lemma scsi_poll_run:
  assumes "scsi_inv s"
  shows "scsi_safe s (scsi_poll apf s)" "scsi_inv (scsi_poll apf s)"
    "cmd_req (scsi s) \<noteq> cmd_ack (scsi s) \<Longrightarrow> scsi_completed (scsi_poll apf s)
       \<and> scsi_ack (scsi_poll apf s) = (\<not> scsi_ack s)"
    "cmd_ack (scsi (scsi_poll apf s)) = cmd_req (scsi s) \<and> cmd_req (scsi (scsi_poll apf s)) = cmd_req (scsi s)
       \<and> ctrl (scsi (scsi_poll apf s)) = ctrl (scsi s)"
proof -
  let ?t = "scsi_poll apf s"
  have "scsi_safe s ?t \<and> scsi_inv ?t \<and> (cmd_req (scsi s) \<noteq> cmd_ack (scsi s) \<longrightarrow> scsi_completed ?t
      \<and> scsi_ack ?t = (\<not> scsi_ack s))
      \<and> cmd_ack (scsi ?t) = cmd_req (scsi s) \<and> cmd_req (scsi ?t) = cmd_req (scsi s) \<and> ctrl (scsi ?t) = ctrl (scsi s)"
  proof (cases "cmd_req (scsi s) = cmd_ack (scsi s)")
    case True
    have "scsi_safe s ?t" unfolding scsi_poll_idle [OF True]
      by (rule scsi_safe_window) (simp_all add: ctrl_read_eq)
    then show ?thesis using assms True
      by (simp add: scsi_poll_idle [OF True] ctrl_read_eq scsi_inv_def)
  next
    case False
    then obtain a v r where "?t = scsi_execute apf (cells (ctrl (scsi s)) 3 12)
       (s\<lparr>mgmt_addr := a, mgmt_wdata := v, mgmt_rdata := r, scsi_ack := \<not> scsi_ack s,
          scsi := (scsi s)\<lparr>cmd_ack := cmd_req (scsi s), mg_reg_addr := 15\<rparr>\<rparr>)"
      by (rule scsi_poll_claim)
    moreover define m where "m = s\<lparr>mgmt_addr := a, mgmt_wdata := v, mgmt_rdata := r, scsi_ack := \<not> scsi_ack s,
          scsi := (scsi s)\<lparr>cmd_ack := cmd_req (scsi s), mg_reg_addr := 15\<rparr>\<rparr>"
    ultimately have t: "?t = scsi_execute apf (cells (ctrl (scsi s)) 3 12) m" by simp
    have sm: "scsi_safe s m" by (rule scsi_safe_window) (simp_all add: m_def)
    have im: "scsi_inv m" using assms by (simp add: m_def scsi_inv_def)
    note d = scsi_execute_done [OF im]
    have w: "cmd_ack (scsi m) = cmd_req (scsi s)" "cmd_req (scsi m) = cmd_req (scsi s)"
      "ctrl (scsi m) = ctrl (scsi s)" "scsi_ack m = (\<not> scsi_ack s)" by (simp_all add: m_def)
    show ?thesis unfolding t using d scsi_safe_trans [OF sm d(1)] w
      by (auto simp: win_keeps_def)
  qed
  then show "scsi_safe s ?t" "scsi_inv ?t"
    "cmd_req (scsi s) \<noteq> cmd_ack (scsi s) \<Longrightarrow> scsi_completed ?t \<and> scsi_ack ?t = (\<not> scsi_ack s)"
    "cmd_ack (scsi ?t) = cmd_req (scsi s) \<and> cmd_req (scsi ?t) = cmd_req (scsi s)
       \<and> ctrl (scsi ?t) = ctrl (scsi s)"
    by blast+
qed

end

end
