(* ===== verification/Scsi_Props.thy ===== *)
theory Scsi_Props
  imports Scsi_Correct
begin

text \<open>
  The properties of the SCSI target: block reads and writes move exactly the addressed bytes,
  every command finishes with a status that agrees with the sense data, no command leaves the
  mounted image or the first sector of the bridge RAM, and the image is classified from the
  header bytes the host really delivered.  Each witness runs the service against
  \<open>card_apf\<close>.
\<close>

section \<open>A mounted machine\<close>

text \<open>A flat image of two sectors, mounted, with a guest command in the register file.\<close>

definition scsi_demo :: "u8 list \<Rightarrow> u8 list \<Rightarrow> card scsi_st" where
  "scsi_demo img cdb =
     \<lparr>host = (\<lambda>_. img), bram = (\<lambda>_. 0), bram_addr = 0, tds_id = 0, tds_offset = 0,
      tds_bridge = 0, tds_length = 0, tds_log = [], dtbl = (\<lambda>_. 0), dtbl_addr = 0, outs = [],
      mgmt_addr = 0, mgmt_wdata = 0, mgmt_rdata = 0, fdd_request = (\<lambda>_. 0), fdd = fdc_reset,
      scsi = scsi_reset\<lparr>ctrl := mem_put (\<lambda>_. 0) 3 cdb, cmd_req := True\<rparr>, opna = opna_reset,
      scsi_sectors = of_nat (length img div 512), scsi_base = 0, scsi_cyls = 0, scsi_heads = 8,
      scsi_spt = 25, scsi_sense_key = 0, scsi_asc = 0, scsi_ack = False,
      scsi_bytes = of_nat (length img), scsi_reprobe = False, ms_n = 0, ms_alloc = 0\<rparr>"

abbreviation demo_img :: "u8 list" where
  "demo_img \<equiv> replicate 1024 0x5A"

lemma scsi_demo_inv: "scsi_inv (scsi_demo demo_img cdb)"
  by (simp add: scsi_inv_def scsi_demo_def)

section \<open>Block transfers\<close>

lemma read_range:
  assumes "scsi_inv s" "unat lba + unat (capped blocks) \<le> unat (scsi_sectors s)" "blocks \<noteq> 0"
  shows "scsi_sectors s \<noteq> 0" "\<not> scsi_sectors s \<le> lba" "\<not> scsi_sectors s < lba + capped blocks"
    "unat (scsi_base s) + 512 * (unat lba + unat (capped blocks)) \<le> unat (scsi_bytes s)"
proof -
  have pos: "0 < unat (capped blocks)" using assms(3) by (simp add: capped_le(2) unat_gt_0)
  then show n0: "scsi_sectors s \<noteq> 0" using assms(2) by auto
  show le: "\<not> scsi_sectors s \<le> lba" using assms(2) pos by (simp add: word_le_nat_alt)
  have "unat lba + unat (capped blocks) < 2 ^ 32" using assms(2) unat_bounds(3) [of "scsi_sectors s"] by simp
  then have "unat (lba + capped blocks) = unat lba + unat (capped blocks)" by (simp add: unat_word_ariths)
  then show "\<not> scsi_sectors s < lba + capped blocks" using assms(2) by (simp add: word_less_nat_alt)
  then show "unat (scsi_base s) + 512 * (unat lba + unat (capped blocks)) \<le> unat (scsi_bytes s)"
    using block_range [OF assms(1) _ capped_le(1)] le by blast
qed

context prompt_dataslot
begin

lemma read_serves:
  assumes inv: "scsi_inv s"
    and img: "length (slot_file (host s) HDD0_SLOT_ID) = unat (scsi_bytes s)"
    and n: "blocks \<noteq> 0" "unat lba + min 16 (unat blocks) \<le> unat (scsi_sectors s)"
  defines "t \<equiv> scsi_do_read apf lba blocks s" and "k \<equiv> 512 * min 16 (unat blocks)"
  shows "cells (dbuf (scsi t)) 0 k
      = take k (drop (unat (scsi_base s) + 512 * unat lba) (slot_file (host s) HDD0_SLOT_ID))"
    "scsistatus (scsi t) = SCSI_GOOD" "scsi_completed t" "rdptr (scsi t) = 0"
    "slot_file (host t) = slot_file (host s)"
proof -
  note r = read_range [OF inv, of lba blocks, unfolded capped_le(2), OF n(2,1)]
  define m where "m = scsi_buf_seek 0 (scsi_rewind_write s)"
  have m: "scsi_base m = scsi_base s" "host m = host s" "mg_buf_addr (scsi m) = 0"
    by (simp_all add: m_def scsi_port_eqs)
  let ?F = "slot_file (host s) HDD0_SLOT_ID" and ?o = "unat (scsi_base s) + 512 * unat lba"
  let ?n = "min 16 (unat blocks)"
  obtain ok u where run: "sector_loop (scsi_push_sector apf) lba ?n m = (ok, u)" by fastforce
  have fits: "unat (scsi_base m) + 512 * (unat lba + ?n) \<le> length (slot_file (host m) HDD0_SLOT_ID)"
    "unat (scsi_base m) + 512 * (unat lba + ?n) < 2 ^ 32"
    using r(4) img m unat_bounds(3) [of "scsi_bytes s"] by simp_all
  have ok: ok using push_sectors_serve [OF run fits] .
  from push_sectors [OF run fits] ok
  have u: "slot_file (host u) = slot_file (host s)" "scsi u = win_put (take k (drop ?o ?F)) (scsi m)"
    unfolding m k_def by auto
  have t: "t = scsi_ok (scsi_rewind_read u)"
    using r(1-3) n(1) run ok unfolding t_def
    by (simp add: scsi_do_read_def Let_def m_def [symmetric] capped_le(2))
  have len: "length (take k (drop ?o ?F)) = k" using fits(1) m by (simp add: k_def)
  show "cells (dbuf (scsi t)) 0 k = take k (drop ?o ?F)"
    using cells_mem_put [of "take k (drop ?o ?F)" "dbuf (scsi m)" 0] len
    by (simp add: t scsi_ok_eq scsi_port_eqs u(2) win_put_def m(3), simp add: k_def)
  show "scsistatus (scsi t) = SCSI_GOOD" "scsi_completed t" "rdptr (scsi t) = 0"
    "slot_file (host t) = slot_file (host s)"
    by (simp_all add: t scsi_ok_eq scsi_port_eqs u(1) scsi_completed_def scsi_consts)
qed

lemma write_serves:
  assumes inv: "scsi_inv s"
    and img: "length (slot_file (host s) HDD0_SLOT_ID) = unat (scsi_bytes s)"
    and n: "blocks \<noteq> 0" "unat lba + min 16 (unat blocks) \<le> unat (scsi_sectors s)"
  defines "t \<equiv> scsi_do_write apf lba blocks s" and "k \<equiv> 512 * min 16 (unat blocks)"
  shows "slot_file (host t) = (slot_file (host s))(HDD0_SLOT_ID :=
      overwrite (slot_file (host s) HDD0_SLOT_ID) (unat (scsi_base s) + 512 * unat lba)
        (cells (dbuf (scsi s)) 0 k))"
    "scsistatus (scsi t) = SCSI_GOOD" "scsi_completed t" "wrptr (scsi t) = 0"
proof -
  note r = read_range [OF inv, of lba blocks, unfolded capped_le(2), OF n(2,1)]
  define m where "m = scsi_buf_seek 0 s"
  have m: "scsi_base m = scsi_base s" "host m = host s" "mg_buf_addr (scsi m) = 0"
    "dbuf (scsi m) = dbuf (scsi s)"
    by (simp_all add: m_def scsi_port_eqs)
  let ?n = "min 16 (unat blocks)"
  obtain ok u where run: "sector_loop (scsi_drain_sector apf) lba ?n m = (ok, u)" by fastforce
  have fits: "unat (scsi_base m) + 512 * (unat lba + ?n) \<le> length (slot_file (host m) HDD0_SLOT_ID)"
    "unat (scsi_base m) + 512 * (unat lba + ?n) < 2 ^ 32"
    using r(4) img m unat_bounds(3) [of "scsi_bytes s"] by simp_all
  have ok: ok using drain_sectors_serve [OF run fits] .
  have t: "t = scsi_ok (scsi_rewind_write u)"
    using r(1-3) n(1) run ok unfolding t_def
    by (simp add: scsi_do_write_def Let_def m_def [symmetric] capped_le(2))
  have h: "host t = host u" by (simp add: t scsi_ok_eq scsi_port_eqs)
  show "slot_file (host t) = (slot_file (host s))(HDD0_SLOT_ID :=
      overwrite (slot_file (host s) HDD0_SLOT_ID) (unat (scsi_base s) + 512 * unat lba)
        (cells (dbuf (scsi s)) 0 k))"
    using drain_sectors [of lba ?n m u] run ok fits unfolding h m k_def by simp
  show "scsistatus (scsi t) = SCSI_GOOD" "scsi_completed t" "wrptr (scsi t) = 0"
    by (simp_all add: t scsi_ok_eq scsi_port_eqs scsi_completed_def scsi_consts)
qed

end

text \<open>C1: A READ of blocks inside the mounted image answers GOOD with the image's bytes at the
  start of the data buffer, byte for byte and starting at the mount's base offset, for at most
  sixteen blocks; the guest's read pointer is rewound onto them and no slot is modified.\<close>

theorem scsi_read_serves:
  assumes "prompt_dataslot apf slot_file" and "scsi_inv s"
    and "length (slot_file (host s) HDD0_SLOT_ID) = unat (scsi_bytes s)"
    and "blocks \<noteq> 0" and "unat lba + min 16 (unat blocks) \<le> unat (scsi_sectors s)"
  shows "let t = scsi_do_read apf lba blocks s; n = 512 * min 16 (unat blocks) in
    cells (dbuf (scsi t)) 0 n
      = take n (drop (unat (scsi_base s) + 512 * unat lba) (slot_file (host s) HDD0_SLOT_ID))
    \<and> scsistatus (scsi t) = SCSI_GOOD \<and> scsi_completed t \<and> rdptr (scsi t) = 0
    \<and> slot_file (host t) = slot_file (host s)"
  using prompt_dataslot.read_serves [OF assms] by (simp add: Let_def)

theorem scsi_read_serves_witness:
  "cells (dbuf (scsi (scsi_do_read card_apf 1 1 (scsi_demo demo_img [])))) 0 512 = replicate 512 0x5A"
proof -
  have "HDD0_SLOT_ID = 5" by (simp add: HDD0_SLOT_ID_def)
  then show ?thesis
    using scsi_read_serves [OF prompt_card.prompt_dataslot_axioms scsi_demo_inv [of "[]"],
      where blocks = 1 and lba = 1]
    by (simp add: scsi_demo_def Let_def)
qed

text \<open>C2: A WRITE of blocks inside the mounted image replaces exactly the addressed bytes of the
  hard-disk slot by the start of the data buffer, leaves every other byte and slot as they
  were, and answers GOOD.\<close>

theorem scsi_write_serves:
  assumes "prompt_dataslot apf slot_file" and "scsi_inv s"
    and "length (slot_file (host s) HDD0_SLOT_ID) = unat (scsi_bytes s)"
    and "blocks \<noteq> 0" and "unat lba + min 16 (unat blocks) \<le> unat (scsi_sectors s)"
  shows "let t = scsi_do_write apf lba blocks s; n = 512 * min 16 (unat blocks) in
    slot_file (host t) = (slot_file (host s))(HDD0_SLOT_ID :=
      overwrite (slot_file (host s) HDD0_SLOT_ID) (unat (scsi_base s) + 512 * unat lba)
        (cells (dbuf (scsi s)) 0 n))
    \<and> scsistatus (scsi t) = SCSI_GOOD \<and> scsi_completed t \<and> wrptr (scsi t) = 0"
  using prompt_dataslot.write_serves [OF assms] by (simp add: Let_def)

theorem scsi_write_serves_witness:
  "host (scsi_do_write card_apf 1 1 (scsi_demo demo_img [])) HDD0_SLOT_ID
     = replicate 512 0x5A @ replicate 512 0"
proof -
  have "overwrite demo_img 512 (cells (dbuf (scsi (scsi_demo demo_img []))) 0 512)
      = replicate 512 0x5A @ replicate 512 0"
    by (rule nth_equalityI) (simp_all add: overwrite_def nth_append scsi_demo_def scsi_reset_def)
  then show ?thesis
    using scsi_write_serves [OF prompt_card.prompt_dataslot_axioms scsi_demo_inv [of "[]"],
      where blocks = 1 and lba = 1]
    by (simp add: scsi_demo_def Let_def)
qed

text \<open>C7: A READ or WRITE that starts or ends past the mounted image is refused with CHECK
  CONDITION, ILLEGAL REQUEST, logical block address out of range: no command is sent to the
  host and the data buffer keeps its content.  (Blocks beyond the sixteen the buffer holds do
  not count.)\<close>

theorem scsi_range_refused:
  assumes "scsi_inv s" and "scsi_sectors s \<noteq> 0" and "blocks \<noteq> 0"
    and "unat (scsi_sectors s) < unat lba + min 16 (unat blocks)"
    and "t = scsi_do_read apf lba blocks s \<or> t = scsi_do_write apf lba blocks s"
  shows "scsi_sense_key t = SENSE_ILLEGAL_REQ \<and> scsi_asc t = 0x21
    \<and> scsistatus (scsi t) = SCSI_CHECK_CONDITION \<and> auxstatus (scsi t) = 0x80
    \<and> tds_log t = tds_log s \<and> host t = host s \<and> dbuf (scsi t) = dbuf (scsi s)"
proof -
  have "scsi_sectors s \<le> lba \<or> scsi_sectors s < lba + capped blocks"
  proof (rule ccontr)
    assume out: "\<not> ?thesis"
    have "unat (scsi_sectors s) * 512 < 2 ^ 32"
      using assms(1,2) unat_bounds(3) [of "scsi_bytes s"] by (simp add: scsi_inv_def)
    moreover have "unat lba < unat (scsi_sectors s)" using out by (simp add: word_less_nat_alt not_le)
    ultimately have "unat lba + unat (capped blocks) < 2 ^ 32" unfolding capped_le(2) by simp
    then have "unat (lba + capped blocks) = unat lba + unat (capped blocks)"
      by (simp add: unat_word_ariths)
    then have "unat (lba + capped blocks) = unat lba + min 16 (unat blocks)"
      unfolding capped_le(2) .
    then have "scsi_sectors s < lba + capped blocks"
      using assms(4) unfolding word_less_nat_alt by simp
    then show False using out by simp
  qed
  then have "t = scsi_fail SENSE_ILLEGAL_REQ 0x21 s"
    using assms(2,3,5) by (auto simp: scsi_do_read_def scsi_do_write_def Let_def)
  then show ?thesis by (simp add: scsi_fail_eq scsi_consts)
qed

theorem scsi_range_refused_witness:
  "scsi_asc (scsi_do_read card_apf 1 2 (scsi_demo demo_img [])) = 0x21"
  using scsi_range_refused [OF scsi_demo_inv [of "[]"] _ _ _ disjI1 [OF refl],
    where blocks = 2 and lba = 1 and apf = card_apf]
  by (simp add: scsi_demo_def)

section \<open>Every poll\<close>

text \<open>C3: Every poll with a command pending finishes it: the request toggle is acknowledged, the
  interrupt bit is raised, the status byte is GOOD exactly when no sense data is pending and
  CHECK CONDITION with NOT READY or ILLEGAL REQUEST otherwise -- whatever the command bytes and
  whatever the host does, time-outs, errors and a header that changes class included.\<close>

theorem scsi_poll_completes:
  assumes "dataslot apf slot_file" and "scsi_inv s"
    and "cmd_req (scsi s) \<noteq> cmd_ack (scsi s)"
  shows "scsi_completed (scsi_poll apf s)
    \<and> cmd_ack (scsi (scsi_poll apf s)) = cmd_req (scsi s)
    \<and> cmd_req (scsi (scsi_poll apf s)) = cmd_req (scsi s)
    \<and> scsi_ack (scsi_poll apf s) = (\<not> scsi_ack s) \<and> scsi_inv (scsi_poll apf s)"
  using dataslot.scsi_poll_run [OF assms(1,2)] assms(3) by blast

theorem scsi_poll_completes_witness:
  "scsi_completed (scsi_poll card_apf (scsi_demo demo_img [0x28, 0, 0, 0, 0, 1, 0, 0, 1]))"
  using scsi_poll_completes [OF card.dataslot_axioms scsi_demo_inv [of "[0x28, 0, 0, 0, 0, 1, 0, 0, 1]"]]
  by (simp add: scsi_demo_def scsi_reset_def)

text \<open>C4: A poll is confined: every command it sends to the host asks for one sector of the
  hard-disk slot, through the first 128 words of the bridge RAM, at an offset inside the mounted
  file (or for sector 0, the header); the bridge RAM from word 128 on -- the settings block and
  the floppy cache among it -- the datatable, the floppy controller and the OPNA are untouched.\<close>

theorem scsi_poll_confined:
  assumes "dataslot apf slot_file" and "scsi_inv s"
  shows "log_ext (hdd_rq (unat (scsi_bytes s))) s (scsi_poll apf s)
    \<and> (\<forall>a. 128 \<le> unat a \<longrightarrow> bram (scsi_poll apf s) a = bram s a)
    \<and> dtbl (scsi_poll apf s) = dtbl s \<and> fdd (scsi_poll apf s) = fdd s
    \<and> opna (scsi_poll apf s) = opna s \<and> scsi_bytes (scsi_poll apf s) = scsi_bytes s"
  using dataslot.scsi_poll_run(1) [OF assms] by (simp add: scsi_safe_def bram_keeps_def)

theorem scsi_poll_confined_witness:
  "bram (scsi_poll card_apf (scsi_demo demo_img [0x08, 0, 0, 1, 1])) 128 = 0
   \<and> bram (scsi_poll card_apf (scsi_demo demo_img [0x08, 0, 0, 1, 1])) 1023 = 0"
  using scsi_poll_confined [OF card.dataslot_axioms scsi_demo_inv [of "[0x08, 0, 0, 1, 1]"]]
  by (simp add: scsi_demo_def)

section \<open>Classifying the image\<close>

text \<open>C6: A header read whose command left more than half of the poisoned staging words as they
  were is not believed, even if the host reported it done: the mount fails, the machine shows no
  medium and no sectors, and the base and geometry of the previous classification stay as they were.\<close>

theorem scsi_phantom_header:
  assumes "header_transfer apf s = (ok, u)"
    and "64 < card {i. i < 128 \<and> bram u (of_nat i) = bram (hdr_poison s) (of_nat i)}"
  shows "\<not> fst (scsi_mount apf bytes s) \<and> scsi_sectors (snd (scsi_mount apf bytes s)) = 0
    \<and> last (outs (snd (scsi_mount apf bytes s))) = (SOFT_SCSI_MEDIA, 0)
    \<and> scsi_base (snd (scsi_mount apf bytes s)) = scsi_base s \<and> scsi_spt (snd (scsi_mount apf bytes s)) = scsi_spt s
    \<and> scsi_heads (snd (scsi_mount apf bytes s)) = scsi_heads s \<and> scsi_cyls (snd (scsi_mount apf bytes s)) = scsi_cyls s"
proof -
  let ?s = "s\<lparr>scsi_bytes := bytes, scsi_reprobe := True\<rparr>"
  have eq: "header_transfer apf ?s = (ok, u\<lparr>scsi_bytes := bytes, scsi_reprobe := True\<rparr>)"
    using assms(1) by (auto simp: tds_transfer_def tds_transfer_to_eq hdr_poison_eq split: prod.splits)
  have "fst (hdr_pass apf ?s) = None"
    by (rule hdr_pass_phantom [OF eq]) (use assms(2) in \<open>simp add: hdr_poison_eq\<close>)
  then obtain v where p: "hdr_pass apf ?s = (None, v)" by (cases "hdr_pass apf ?s") simp
  then have vd: "v = snd (hdr_pass apf ?s)" by simp
  have "bus.more u = bus.more s"
    using assms(1) by (auto simp: tds_transfer_def tds_transfer_to_eq hdr_poison_eq split: prod.splits)
  note u = scsi_vars_cong [OF this]
  have v: "scsi_base v = scsi_base s" "scsi_spt v = scsi_spt s" "scsi_heads v = scsi_heads s" "scsi_cyls v = scsi_cyls s"
    by (simp_all add: vd hdr_pass_eq eq u)
  have "scsi_probe apf bytes ?s = (False, v)"
    by (simp add: scsi_probe_def hdr_read_def p)
  then show ?thesis by (simp add: scsi_mount_def emit_def v)
qed

text \<open>A host that says done and delivers nothing.\<close>

definition phantom_apf :: "card apf" where
  "phantom_apf h rq b = (h, b, \<lambda>_. 1)"

theorem scsi_phantom_header_witness:
  "\<not> fst (scsi_mount phantom_apf 1024 (scsi_demo demo_img []))"
proof -
  define s where "s = scsi_demo demo_img []"
  define u where "u = snd (header_transfer phantom_apf s)"
  have h: "header_transfer phantom_apf s = (True, u)"
    by (simp add: u_def tds_transfer_def tds_transfer_to_eq phantom_apf_def)
  have "bram u = bram (hdr_poison s)"
    by (simp add: u_def tds_transfer_def tds_transfer_to_eq phantom_apf_def)
  then have "64 < card {i. i < 128 \<and> bram u (of_nat i) = bram (hdr_poison s) (of_nat i)}" by simp
  from scsi_phantom_header [OF h this, of 1024] show ?thesis unfolding s_def by blast
qed

text \<open>The geometry the target serves, as a function of the file's first sector and size.\<close>

definition servable :: "hdr_geom \<Rightarrow> u32 \<Rightarrow> bool" where
  "servable g bytes \<longleftrightarrow> g_ssize g = 512 \<and> g_hsize g AND 3 = 0 \<and> unat (g_hsize g) < unat bytes
     \<and> unat (g_s g) \<in> {1..255} \<and> unat (g_hd g) \<in> {1..255} \<and> unat (g_c g) \<in> {1..65535}"

definition declared_total :: "hdr_geom \<Rightarrow> nat" where
  "declared_total g = (if g_total g = 0 then unat (g_c g) * unat (g_hd g) * unat (g_s g) else unat (g_total g))"

definition mounted_as :: "hdr_geom \<Rightarrow> u32 \<Rightarrow> ('h, 'z) scsi_st_scheme \<Rightarrow> bool" where
  "mounted_as g bytes t \<longleftrightarrow>
     (if g_ssize g = 0 then
        scsi_base t = 0 \<and> unat (scsi_sectors t) = unat bytes div 512 \<and> scsi_heads t = 8 \<and> scsi_spt t = 25
        \<and> unat (scsi_cyls t) = min 65535 (unat bytes div 512 div 200)
      else if servable g bytes then
        scsi_base t = g_hsize g \<and> scsi_heads t = g_hd g \<and> scsi_spt t = g_s g \<and> scsi_cyls t = g_c g
        \<and> unat (scsi_sectors t) = min (declared_total g) ((unat bytes - unat (g_hsize g)) div 512)
      else scsi_sectors t = 0)"

lemma unat_total:
  assumes "unat (g_s g) \<in> {1..255}" "unat (g_hd g) \<in> {1..255}" "unat (g_c g) \<in> {1..65535}"
  shows "unat (if g_total g = 0 then g_c g * g_hd g * g_s g else g_total g) = declared_total g"
proof -
  have a: "unat (g_c g) * unat (g_hd g) \<le> 65535 * 255" using assms by (intro mult_le_mono) auto
  then have b: "unat (g_c g) * unat (g_hd g) * unat (g_s g) \<le> 65535 * 255 * 255"
    using assms by (intro mult_le_mono) auto
  have "unat (g_c g * g_hd g) = unat (g_c g) * unat (g_hd g)" using a by (simp add: unat_word_ariths)
  then have "unat (g_c g * g_hd g * g_s g) = unat (g_c g) * unat (g_hd g) * unat (g_s g)"
    using b by (simp add: unat_word_ariths)
  then show ?thesis by (simp add: declared_total_def)
qed

lemma not_servable:
  "\<not> servable g bytes \<longleftrightarrow> g_ssize g \<noteq> SECTOR_BYTES \<or> g_hsize g AND 3 \<noteq> 0 \<or> bytes \<le> g_hsize g
     \<or> g_s g = 0 \<or> 255 < g_s g \<or> g_hd g = 0 \<or> 255 < g_hd g \<or> g_c g = 0 \<or> 0xFFFF < g_c g"
  by (auto simp: servable_def SECTOR_BYTES_def word_le_nat_alt word_less_nat_alt unat_gt_0 Suc_le_eq not_le)

lemma unat_drop9: "unat (drop_bit 9 (w :: u32)) = unat w div 512"
  unfolding unat_drop_bit_eq by (simp add: drop_bit_eq_div)

lemma probe_classify_mounted:
  assumes "scsi_base s = 0" "scsi_heads s = 8" "scsi_spt s = 25"
  shows "mounted_as g bytes (probe_classify bytes g s)"
proof (cases "g_ssize g = 0")
  case True
  have "unat (scsi_udiv (drop_bit 9 bytes) 200) = unat bytes div 512 div 200"
    using scsi_div.unat_quot [of 200 "drop_bit 9 bytes"] by (simp add: unat_drop9)
  then show ?thesis
    using True assms
    by (simp add: mounted_as_def probe_classify_def Let_def word_less_nat_alt unat_drop9)
next
  case ssize: False
  show ?thesis
  proof (cases "servable g bytes")
    case False
    then have "probe_classify bytes g s = s\<lparr>scsi_sectors := 0\<rparr>"
      using ssize unfolding probe_classify_def not_servable by simp
    then show ?thesis using ssize False by (simp add: mounted_as_def)
  next
    case True
    then have "unat (bytes - g_hsize g) = unat bytes - unat (g_hsize g)"
      by (simp add: servable_def unat_sub_if_size word_le_nat_alt)
    moreover have "unat (if g_total g = 0 then g_c g * g_hd g * g_s g else g_total g) = declared_total g"
      using True by (intro unat_total) (simp_all add: servable_def)
    ultimately show ?thesis
      using ssize True not_servable [of g bytes]
      by (simp add: mounted_as_def probe_classify_def Let_def word_less_nat_alt unat_drop9
          min_def split del: if_split) (auto simp: unat_drop9)
  qed
qed

context prompt_dataslot
begin

lemma mount_serves:
  assumes "512 \<le> length (slot_file (host s) HDD0_SLOT_ID)" and "scsi_mount apf bytes s = (ok, t)"
  defines "b \<equiv> stage (take 512 (slot_file (host s) HDD0_SLOT_ID))"
  shows "ok = (poisoned_count b \<le> 64)"
    and "if ok then mounted_as (header_geom b bytes) bytes t else scsi_sectors t = 0"
    and "last (outs t) = (SOFT_SCSI_MEDIA, of_bool (scsi_sectors t \<noteq> 0))"
proof -
  define s1 where "s1 = s\<lparr>scsi_bytes := bytes, scsi_reprobe := True\<rparr>"
  obtain okr u where r: "hdr_read apf s1 = (okr, u)" by fastforce
  have host: "host s1 = host s" by (simp add: s1_def)
  note h = hdr_read_serves [of s1, unfolded host r fst_conv snd_conv, OF assms(1), folded b_def]
  define v where "v = u\<lparr>scsi_base := 0, scsi_spt := 25, scsi_heads := 8, scsi_sectors := 0\<rparr>"
  obtain a where a: "probe_header bytes v = (header_geom (bram v) bytes, v\<lparr>bram_addr := a\<rparr>)"
    using probe_header_eq by blast
  have g: "header_geom (bram v) bytes = header_geom b bytes"
    using same_header_fields(1) [OF h(2)] by (simp add: v_def)
  have p: "scsi_probe apf bytes s1 = (if okr then (True, probe_classify bytes (header_geom b bytes)
      (v\<lparr>bram_addr := a\<rparr>)) else (False, u))"
    by (simp add: scsi_probe_def r v_def [symmetric] a g)
  have m: "mounted_as (header_geom b bytes) bytes
      (probe_classify bytes (header_geom b bytes) (v\<lparr>bram_addr := a\<rparr>))"
    by (rule probe_classify_mounted) (simp_all add: v_def)
  have eq: "(ok, t) = (if okr then (True, (emit SOFT_SCSI_MEDIA (of_bool (scsi_sectors
        (probe_classify bytes (header_geom b bytes) (v\<lparr>bram_addr := a\<rparr>)) \<noteq> 0))
        (probe_classify bytes (header_geom b bytes) (v\<lparr>bram_addr := a\<rparr>)))
          \<lparr>scsi_sense_key := SENSE_NO_SENSE, scsi_asc := 0\<rparr>)
      else (False, emit SOFT_SCSI_MEDIA 0 (u\<lparr>scsi_sectors := 0\<rparr>)))"
    using assms(2) p unfolding scsi_mount_def s1_def [symmetric] by (auto simp: Let_def split: if_splits)
  show "ok = (poisoned_count b \<le> 64)" using eq h(1) by (simp split: if_splits)
  show "if ok then mounted_as (header_geom b bytes) bytes t else scsi_sectors t = 0"
    using eq m by (simp add: emit_def mounted_as_def split: if_splits)
  show "last (outs t) = (SOFT_SCSI_MEDIA, of_bool (scsi_sectors t \<noteq> 0))"
    using eq by (simp add: emit_def split: if_splits)
qed

end

text \<open>C5: A mount against a host that serves its files believes the header exactly when it is not
  itself mostly the poison pattern, and then serves the geometry the first sector of the file
  declares: the base offset, surfaces, sectors, cylinders of an NHD, VHD or plausible HDI header
  with 512-byte sectors, with as many sectors as the header declares and the file holds; the
  flat geometry of 8 surfaces by 25 sectors when there is no header; nothing when the header
  declares what the board cannot serve.  The media flag follows the result.\<close>

theorem scsi_mount_geometry:
  assumes "prompt_dataslot apf slot_file" and "512 \<le> length (slot_file (host s) HDD0_SLOT_ID)"
    and "scsi_mount apf bytes s = (ok, t)"
  shows "let b = stage (take 512 (slot_file (host s) HDD0_SLOT_ID)) in
    ok = (poisoned_count b \<le> 64)
    \<and> (if ok then mounted_as (header_geom b bytes) bytes t else scsi_sectors t = 0)
    \<and> last (outs t) = (SOFT_SCSI_MEDIA, of_bool (scsi_sectors t \<noteq> 0))"
  using prompt_dataslot.mount_serves [OF assms] by (simp add: Let_def)

text \<open>An NHD image: the signature, header size 512, 4 cylinders, 2 heads, 2 sectors of 512 bytes.\<close>

definition demo_nhd :: "u8 list" where
  "demo_nhd = map of_char ''T98HDDIMAGE.R0'' @ replicate 258 0 @ [0, 2, 0, 0, 4, 0, 0, 0, 2, 0, 2, 0, 0, 2]
     @ replicate 226 0"

lemma length_demo_nhd: "length demo_nhd = 512"
  by (simp add: demo_nhd_def)

lemma ram_byte_stage:
  assumes "length hdr = 512" "unat b < 512"
  shows "ram_byte (stage hdr) b = hdr ! unat b"
proof -
  have r: "ram_bytes (stage hdr) 0 512 = hdr"
    unfolding stage_def using ram_bytes_land [of hdr "\<lambda>_. 0" 0] assms(1) by simp
  have "unat (drop_bit 2 b) = unat b div 4" unfolding unat_drop_bit_eq by (simp add: drop_bit_eq_div)
  then have a: "(ucast (drop_bit 2 b) :: 10 word) = of_nat (unat b div 4)" by (metis of_nat_unat)
  have k: "unat (b AND 3) = unat b mod 4"
  proof -
    have "b AND 3 = take_bit 2 b" by (simp add: take_bit_eq_mask mask_eq_exp_minus_1)
    then show ?thesis by (simp add: take_bit_eq_mod unat_mod)
  qed
  have "ram_bytes (stage hdr) 0 512 ! unat b = hdr ! unat b" using r by simp
  then show ?thesis using nth_ram_bytes [OF assms(2), of "stage hdr" 0] by (simp add: ram_byte_def a k)
qed

text \<open>A header that has no byte \<open>0xA5\<close> matches no poisoned word.\<close>

lemma poison_top_byte:
  assumes "i < 128"
  shows "byte_of (HDR_POISON XOR of_nat i) 3 = 0xA5"
proof -
  have "unat (of_nat i :: u32) = i" using assms by (simp add: unat_of_nat)
  then have "unat (drop_bit 24 (of_nat i :: u32)) = 0"
    unfolding unat_drop_bit_eq using assms by (simp add: drop_bit_eq_div)
  then have "drop_bit 24 (of_nat i :: u32) = 0" by (simp only: unat_eq_0)
  then show ?thesis by (simp add: byte_of_def drop_bit_xor HDR_POISON_def)
qed

lemma poisoned_count_clean:
  assumes "length hdr = 512" "0xA5 \<notin> set hdr"
  shows "poisoned_count (stage hdr) = 0"
proof -
  have "stage hdr (of_nat i) \<noteq> HDR_POISON XOR of_nat i" if i: "i < 128" for i
  proof
    assume "stage hdr (of_nat i) = HDR_POISON XOR of_nat i"
    then have "byte_of (stage hdr (of_nat i)) 3 = 0xA5" using poison_top_byte [OF i] by simp
    moreover have "ram_bytes (stage hdr) 0 512 ! (4 * i + 3) = hdr ! (4 * i + 3)"
      unfolding stage_def using ram_bytes_land [of hdr "\<lambda>_. 0" 0] assms(1) by simp
    moreover have "4 * i + 3 < 512" using i by simp
    ultimately have "hdr ! (4 * i + 3) = 0xA5" using nth_ram_bytes [of "4 * i + 3" 512 "stage hdr" 0] by simp
    then show False using assms \<open>4 * i + 3 < 512\<close> nth_mem [of "4 * i + 3" hdr] by auto
  qed
  then show ?thesis by (simp add: poisoned_count_def)
qed

lemma demo_nhd_geom:
  "header_geom (stage demo_nhd) 8704 = \<lparr>g_hsize = 512, g_ssize = 512, g_c = 4, g_hd = 2, g_s = 2, g_total = 0\<rparr>"
proof -
  have sig: "has_sig (stage demo_nhd) 0 ''T98HDDIMAGE.R0''"
    by (simp add: has_sig_Cons ram_byte_stage length_demo_nhd, simp add: has_sig_def, simp add: demo_nhd_def)
  have "nhd_geom (stage demo_nhd) = \<lparr>g_hsize = 512, g_ssize = 512, g_c = 4, g_hd = 2, g_s = 2, g_total = 0\<rparr>"
    by (simp add: nhd_geom_def geom0_def le16_def le32_def ram_byte_stage length_demo_nhd,
        simp add: demo_nhd_def nth_append pack4_def)
  with sig show ?thesis by (simp add: header_geom_def)
qed

theorem scsi_mount_geometry_witness:
  "let t = snd (scsi_mount card_apf 8704 (scsi_demo (demo_nhd @ replicate 8192 0) []))
   in scsi_base t = 512 \<and> scsi_sectors t = 16 \<and> scsi_cyls t = 4 \<and> scsi_heads t = 2 \<and> scsi_spt t = 2"
proof -
  define s where "s = scsi_demo (demo_nhd @ replicate 8192 0) []"
  obtain ok t where m: "scsi_mount card_apf 8704 s = (ok, t)" by fastforce
  have h: "take 512 (host s HDD0_SLOT_ID) = demo_nhd" "512 \<le> length (host s HDD0_SLOT_ID)"
    by (simp_all add: s_def scsi_demo_def length_demo_nhd)
  have "0xA5 \<notin> set demo_nhd" by (simp add: demo_nhd_def)
  then have "poisoned_count (stage demo_nhd) = 0" by (intro poisoned_count_clean length_demo_nhd)
  then have "mounted_as (header_geom (stage demo_nhd) 8704) 8704 t"
    using scsi_mount_geometry [OF prompt_card.prompt_dataslot_axioms h(2) m] h(1) by (simp add: Let_def)
  then have "scsi_base t = 512 \<and> unat (scsi_sectors t) = 16 \<and> scsi_cyls t = 4 \<and> scsi_heads t = 2 \<and> scsi_spt t = 2"
    by (simp add: demo_nhd_geom mounted_as_def servable_def declared_total_def)
  then show ?thesis using m unfolding s_def [symmetric] by (simp add: Let_def word_unat_eq_iff)
qed

text \<open>C8: The re-probe on the first guest commands never unmounts a disk that was serving: when
  the header cannot be read, the sector count, base, geometry, sense data and the media flag are
  exactly what they were, and the next command tries again.\<close>

theorem scsi_reprobe_keeps:
  assumes "dataslot apf slot_file"
    and "\<not> fst (scsi_probe apf (scsi_bytes s) s)"
  shows "scsi_sectors (scsi_reclassify apf s) = scsi_sectors s
    \<and> scsi_base (scsi_reclassify apf s) = scsi_base s \<and> scsi_cyls (scsi_reclassify apf s) = scsi_cyls s
    \<and> scsi_heads (scsi_reclassify apf s) = scsi_heads s \<and> scsi_spt (scsi_reclassify apf s) = scsi_spt s
    \<and> scsi_sense_key (scsi_reclassify apf s) = scsi_sense_key s
    \<and> scsi_reprobe (scsi_reclassify apf s) = scsi_reprobe s \<and> outs (scsi_reclassify apf s) = outs s"
proof -
  obtain ok t where p: "scsi_probe apf (scsi_bytes s) s = (ok, t)" by fastforce
  then have ok: "\<not> ok" using assms(2) by simp
  obtain u a where u: "hdr_frame s u" "\<not> ok \<Longrightarrow> t = u"
    by (rule dataslot.scsi_probe_obs [OF assms(1) p]) blast
  have r: "scsi_reclassify apf s = s \<or> scsi_reclassify apf s = u"
    using p ok u(2) by (simp add: scsi_reclassify_def Let_def)
  have e: "bus.more u = bus.more s" "outs u = outs s"
    using u(1) by (cases s; cases u; simp add: hdr_frame_def)+
  show ?thesis
    by (rule disjE [OF r]) (simp_all add: scsi_vars_cong [OF e(1)] e(2))
qed

text \<open>A host that never answers.\<close>

definition dead_apf :: "card apf" where
  "dead_apf h rq b = (h, b, \<lambda>_. 0)"

lemma dead_dataslot: "dataslot dead_apf (\<lambda>h. h)"
  by unfold_locales (auto simp: dead_apf_def served_def done_at_def reg_defs)

theorem scsi_reprobe_keeps_witness:
  "scsi_sectors (scsi_reclassify dead_apf ((scsi_demo demo_img [])\<lparr>scsi_reprobe := True\<rparr>)) = 2"
proof -
  define s where "s = (scsi_demo demo_img [])\<lparr>scsi_reprobe := True\<rparr>"
  have "\<not> served (\<lambda>_. 0)" by (simp add: served_def done_at_def)
  then have "\<not> fst (header_transfer dead_apf s)"
    by (simp add: tds_transfer_def tds_transfer_to_eq dead_apf_def)
  then have "fst (hdr_pass dead_apf s) = None"
    by (cases "header_transfer dead_apf s") (simp add: hdr_pass_eq)
  then have "\<not> fst (hdr_read dead_apf s)" by (cases "hdr_pass dead_apf s") (simp add: hdr_read_def)
  then have "\<not> fst (scsi_probe dead_apf (scsi_bytes s) s)"
    by (cases "hdr_read dead_apf s") (simp add: scsi_probe_def)
  from scsi_reprobe_keeps [OF dead_dataslot this]
  have "scsi_sectors (scsi_reclassify dead_apf s) = 2" by (simp add: s_def scsi_demo_def)
  then show ?thesis by (simp add: s_def)
qed

section \<open>Replies\<close>

text \<open>C9: MODE SENSE answers a page it has with the mode data cut at the allocation length: the
  length byte counts the whole reply, page 3 carries the sectors per track and page 4 the
  cylinders and heads of the mounted geometry; any other page is refused with invalid field in
  CDB and leaves the buffer alone.\<close>

theorem scsi_mode_sense_reply:
  "let t = scsi_do_mode_sense cdb s; d = map ucast (mode_data cdb s); n = unat (cdb ! 4) in
   if mode_page cdb \<in> {0, 3, 4, 0x3F}
   then cells (dbuf (scsi t)) 0 (min n (length d)) = take n d
     \<and> length d = Suc (unat (d ! 0 :: u8))
     \<and> dbuf (scsi t) = mem_put (dbuf (scsi s)) 0 (take n d)
     \<and> scsistatus (scsi t) = SCSI_GOOD \<and> scsi_completed t \<and> rdptr (scsi t) = 0
   else dbuf (scsi t) = dbuf (scsi s) \<and> scsi_completed t \<and> scsi_asc t = 0x24
     \<and> scsi_sense_key t = SENSE_ILLEGAL_REQ"
proof (cases "mode_page cdb \<in> {0, 3, 4, 0x3F}")
  case True
  define d where "d = (map ucast (mode_data cdb s) :: u8 list)"
  define n where "n = unat (cdb ! 4)"
  define t where "t = scsi_do_mode_sense cdb s"
  have len: "length (take n d) = min n (length d)" "length d \<le> 60"
    using length_mode_data(2) [of cdb s] by (auto simp: d_def)
  have dl: "length d = Suc (unat (d ! 0))"
    by (auto simp: d_def mode_data_def Let_def)
  have b: "dbuf (scsi t) = mem_put (dbuf (scsi s)) 0 (take n d)"
    "scsistatus (scsi t) = SCSI_GOOD" "scsi_completed t" "rdptr (scsi t) = 0"
    unfolding t_def mode_sense_eq [OF True]
    by (simp_all add: reply_state_def reply_win_def n_def d_def scsi_completed_def scsi_consts)
  have c: "cells (dbuf (scsi t)) 0 (min n (length d)) = take n d"
    using cells_mem_put [of "take n d" "dbuf (scsi s)" 0] len unfolding b(1) len(1) [symmetric] by simp
  show ?thesis
    using b c dl True
    unfolding d_def [symmetric] n_def [symmetric] t_def [symmetric] Let_def by simp
next
  case False
  show ?thesis
    unfolding mode_sense_reject [OF False] Let_def if_not_P [OF False]
    by (simp add: scsi_fail_eq scsi_completed_def scsi_consts)
qed

text \<open>C10: REQUEST SENSE reports the sense key and additional code the previous command left, in
  fixed format and cut at the allocation length (zero meaning all eighteen bytes), and clears
  them: a second one reports NO SENSE.\<close>

theorem scsi_request_sense_reports:
  "let t = scsi_do_request_sense alloc s; n = alloc_len 18 alloc in
   cells (dbuf (scsi t)) 0 n
     = take n [0x70, 0, scsi_sense_key s, 0, 0, 0, 0, 10, 0, 0, 0, 0, scsi_asc s, 0, 0, 0, 0, 0]
   \<and> scsi_sense_key t = SENSE_NO_SENSE \<and> scsi_asc t = 0 \<and> scsi_completed t"
proof -
  have d: "scsi_sense_data (scsi_sense_key s) (scsi_asc s)
      = [0x70, 0, scsi_sense_key s, 0, 0, 0, 0, 10, 0, 0, 0, 0, scsi_asc s, 0, 0, 0, 0, 0]"
    by (simp add: scsi_sense_data_def numeral_eq_Suc)
  let ?bs = "take (alloc_len 18 alloc) (scsi_sense_data (scsi_sense_key s) (scsi_asc s))"
  have "cells (mem_put (dbuf (scsi s)) 0 ?bs) 0 (alloc_len 18 alloc) = ?bs"
    using cells_mem_put [of ?bs "dbuf (scsi s)" 0] alloc_len_le [of 18 alloc]
    by (simp add: length_sense)
  then show ?thesis
    unfolding scsi_do_request_sense_eq Let_def d [symmetric]
    by (simp add: reply_state_def reply_win_def scsi_completed_def scsi_consts)
qed

end
