(* ===== verification/Key_Bind.thy ===== *)
theory Key_Bind
  imports Scsi
begin

text \<open>
  \<open>firmware/key_bind.c\<close> and \<open>firmware/dpad.c\<close>: which key each controller button types, and
  the D-pad presets.  Both drive \<open>KEYCFG_REG\<close>, one write per control slot
  (\<open>{id[12:9], ext[8], code[7:0]}\<close>); the machine keeps the last write to each slot.
\<close>

section \<open>State and tables\<close>

record 'h key_st = "'h scsi_st" +
  bind_code :: "nat \<Rightarrow> u8"
  bind_ext :: u8

definition BIND_COUNT :: nat where "BIND_COUNT = 7"
definition BIND_FN_FIRST :: u8 where "BIND_FN_FIRST = 0xF1"
definition BTNFN_NONE :: u8 where "BTNFN_NONE = 0"
definition BTNFN_SETTINGS :: u8 where "BTNFN_SETTINGS = 1"
definition BTNFN_VIDEO :: u8 where "BTNFN_VIDEO = 3"

text \<open>A, B, X, Y, R1, Select, Start.\<close>

definition bind_keycfg_id :: "u32 list" where
  "bind_keycfg_id = [4, 5, 6, 7, 10, 8, 9]"

definition bind_default :: "u8 list" where
  "bind_default = [0x5A, 0x11, 0x29, 0x14, 0x00, 0xF1, 0x00]"

section \<open>Bindings\<close>

definition key_push :: "nat \<Rightarrow> ('h, 'z) key_st_scheme \<Rightarrow> ('h, 'z) key_st_scheme" where
  "key_push btn s =
     (let code = bind_code s btn;
          key = (if BIND_FN_FIRST \<le> code then 0 else code);
          ext = drop_bit btn (bind_ext s) AND 1
      in emit KEYCFG_REG (push_bit 9 (bind_keycfg_id ! btn) OR push_bit 8 (ucast ext) OR ucast key) s)"

definition key_bind_reset :: "('h, 'z) key_st_scheme \<Rightarrow> ('h, 'z) key_st_scheme" where
  "key_bind_reset s =
     for_to BIND_COUNT (\<lambda>b s. key_push b (s\<lparr>bind_code := (bind_code s)(b := bind_default ! b)\<rparr>))
       (s\<lparr>bind_ext := 0\<rparr>)"

definition key_bind_init :: "('h, 'z) key_st_scheme \<Rightarrow> ('h, 'z) key_st_scheme" where
  "key_bind_init s = key_bind_reset s"

definition key_bind_set :: "nat \<Rightarrow> u8 \<Rightarrow> bool \<Rightarrow> ('h, 'z) key_st_scheme \<Rightarrow> ('h, 'z) key_st_scheme" where
  "key_bind_set btn code ext s =
     key_push btn (s\<lparr>bind_code := (bind_code s)(btn := code),
                    bind_ext := (if ext then bind_ext s OR push_bit btn 1
                                 else bind_ext s AND NOT (push_bit btn 1))\<rparr>)"

definition key_bind_code :: "nat \<Rightarrow> ('h, 'z) key_st_scheme \<Rightarrow> u8" where
  "key_bind_code btn s = bind_code s btn"

definition key_bind_ext :: "nat \<Rightarrow> ('h, 'z) key_st_scheme \<Rightarrow> u8" where
  "key_bind_ext btn s = drop_bit btn (bind_ext s) AND 1"

definition key_bind_function :: "nat \<Rightarrow> ('h, 'z) key_st_scheme \<Rightarrow> u8" where
  "key_bind_function btn s =
     (let code = bind_code s btn in if BIND_FN_FIRST \<le> code then code - 0xF0 else 0)"

section \<open>The D-pad\<close>

definition DPAD_NUMPAD :: nat where "DPAD_NUMPAD = 0"
definition DPAD_ARROWS :: nat where "DPAD_ARROWS = 2"
definition DPAD_COUNT :: nat where "DPAD_COUNT = 6"

definition dpad_cardinal :: "(u32 \<times> u32) list list" where
  "dpad_cardinal =
     [[(0, 0x75), (0, 0x72), (0, 0x6B), (0, 0x74)],
      [(0, 0x75), (0, 0x72), (0, 0x6B), (0, 0x74)],
      [(1, 0x75), (1, 0x72), (1, 0x6B), (1, 0x74)],
      [(0, 0x1D), (0, 0x1B), (0, 0x1C), (0, 0x23)],
      [(0, 0x42), (0, 0x3B), (0, 0x33), (0, 0x4B)],
      [(0, 0x42), (0, 0x3B), (0, 0x33), (0, 0x4B)]]"

definition dpad_corner :: "(u32 \<times> u32) list list" where
  "dpad_corner =
     [[(0, 0), (0, 0), (0, 0), (0, 0)],
      [(0, 0x6C), (0, 0x7D), (0, 0x69), (0, 0x7A)],
      [(0, 0), (0, 0), (0, 0), (0, 0)],
      [(0, 0), (0, 0), (0, 0), (0, 0)],
      [(0, 0), (0, 0), (0, 0), (0, 0)],
      [(0, 0x35), (0, 0x3C), (0, 0x32), (0, 0x31)]]"

definition keycfg_word :: "u32 \<Rightarrow> u32 \<times> u32 \<Rightarrow> u32" where
  "keycfg_word slot k = push_bit 9 slot OR push_bit 8 (fst k) OR snd k"

definition dpad_apply :: "int \<Rightarrow> ('h, 'z) hw_scheme \<Rightarrow> ('h, 'z) hw_scheme" where
  "dpad_apply preset s =
     (let p = (if preset < 0 \<or> int DPAD_COUNT \<le> preset then DPAD_NUMPAD else nat preset)
      in for_to 4 (\<lambda>d s.
           emit KEYCFG_REG (keycfg_word (of_nat (11 + d)) (dpad_corner ! p ! d))
             (emit KEYCFG_REG (keycfg_word (of_nat d) (dpad_cardinal ! p ! d)) s)) s)"

section \<open>What the machine holds\<close>

text \<open>The last word written to a register for which \<open>P\<close> holds.\<close>

definition last_write :: "mmio \<Rightarrow> (u32 \<Rightarrow> bool) \<Rightarrow> (mmio \<times> u32) list \<Rightarrow> u32 option" where
  "last_write r P tr =
     foldl (\<lambda>acc (r', v). if r' = r \<and> P v then Some v else acc) None tr"

lemma last_write_snoc [simp]:
  "last_write r P (tr @ [(r', v)]) = (if r' = r \<and> P v then Some v else last_write r P tr)"
  by (simp add: last_write_def)

text \<open>The key-configuration slot \<open>i\<close>: \<open>(ext, code)\<close> as last written.\<close>

definition keycfg_slot :: "u32 \<Rightarrow> (mmio \<times> u32) list \<Rightarrow> u32 option" where
  "keycfg_slot i tr = map_option (\<lambda>v. v AND 0x1FF) (last_write KEYCFG_REG (\<lambda>v. drop_bit 9 v = i) tr)"

lemma emit_fields [simp]:
  "host (emit r v s) = host s" "bram (emit r v s) = bram s" "bram_addr (emit r v s) = bram_addr s"
  "tds_log (emit r v s) = tds_log s" "dtbl (emit r v s) = dtbl s" "hw.more (emit r v s) = hw.more s"
  "outs (emit r v s) = outs s @ [(r, v)]"
  by (simp_all add: emit_def)

lemma emit_key_fields [simp]:
  "bind_code (emit r v s) = bind_code s" "bind_ext (emit r v s) = bind_ext s"
  "fdd (emit r v s) = fdd s" "scsi (emit r v s) = scsi s" "opna (emit r v s) = opna s"
  "fdd_request (emit r v s) = fdd_request s" "key_st.more (emit r v s) = key_st.more s"
  by (simp_all add: emit_def)

section \<open>The machine agrees with the bindings\<close>

definition key_word :: "nat \<Rightarrow> ('h, 'z) key_st_scheme \<Rightarrow> u32" where
  "key_word btn s = push_bit 9 (bind_keycfg_id ! btn) OR push_bit 8 (ucast (key_bind_ext btn s))
     OR ucast (if BIND_FN_FIRST \<le> bind_code s btn then 0 else bind_code s btn)"

lemma key_push_eq: "key_push btn s = emit KEYCFG_REG (key_word btn s) s"
  by (simp add: key_push_def key_word_def key_bind_ext_def Let_def or.assoc)

lemma key_word_cong:
  "bind_code t btn = bind_code s btn \<Longrightarrow> bind_ext t = bind_ext s \<Longrightarrow> key_word btn t = key_word btn s"
  by (simp add: key_word_def key_bind_ext_def)

lemma slot_low_bits:
  "drop_bit 9 (push_bit 8 (ucast (e AND 1 :: u8)) :: u32) = 0" "drop_bit 9 (ucast (k :: u8) :: u32) = 0"
  by (rule bit_word_eqI, auto simp: bit_simps dest: bit_imp_le_length)+

lemma slot_key_word: "btn < BIND_COUNT \<Longrightarrow> drop_bit 9 (key_word btn s) = bind_keycfg_id ! btn"
proof -
  assume b: "btn < BIND_COUNT"
  have "drop_bit 9 (key_word btn s) = drop_bit 9 (push_bit 9 (bind_keycfg_id ! btn))"
    unfolding key_word_def key_bind_ext_def or.assoc
    by (simp only: drop_bit_or slot_low_bits or.right_neutral)
  also have "\<dots> = bind_keycfg_id ! btn"
  proof -
    have "btn \<in> {0, 1, 2, 3, 4, 5, 6}" using b by (auto simp: BIND_COUNT_def)
    then show ?thesis by (auto simp: bind_keycfg_id_def)
  qed
  finally show ?thesis .
qed

lemma keycfg_id_inj:
  "a < BIND_COUNT \<Longrightarrow> b < BIND_COUNT \<Longrightarrow> bind_keycfg_id ! a = bind_keycfg_id ! b \<longleftrightarrow> a = b"
proof -
  have "distinct bind_keycfg_id" "length bind_keycfg_id = BIND_COUNT"
    by (simp_all add: bind_keycfg_id_def BIND_COUNT_def)
  then show "a < BIND_COUNT \<Longrightarrow> b < BIND_COUNT \<Longrightarrow> ?thesis" by (simp add: nth_eq_iff_index_eq)
qed

text \<open>Every button's slot in the machine types what the binding says.\<close>

definition keys_agree :: "('h, 'z) key_st_scheme \<Rightarrow> bool" where
  "keys_agree s \<longleftrightarrow> (\<forall>b<BIND_COUNT.
     last_write KEYCFG_REG (\<lambda>v. drop_bit 9 v = bind_keycfg_id ! b) (outs s) = Some (key_word b s))"

lemma keys_agree_push:
  assumes "btn < BIND_COUNT"
    and "\<And>b. b < BIND_COUNT \<Longrightarrow> b \<noteq> btn \<Longrightarrow>
      last_write KEYCFG_REG (\<lambda>v. drop_bit 9 v = bind_keycfg_id ! b) (outs s) = Some (key_word b s)"
  shows "keys_agree (key_push btn s)"
  using assms by (auto simp: keys_agree_def key_push_eq slot_key_word keycfg_id_inj
      cong: key_word_cong)

lemma key_bind_ext_bit: "key_bind_ext b s = of_bool (bit (bind_ext s) b)"
  by (simp add: key_bind_ext_def and_one_eq mod_2_eq_odd bit_iff_odd_drop_bit)

lemma key_bind_set_obs:
  assumes "btn < BIND_COUNT"
  shows "bind_code (key_bind_set btn code ext s) = (bind_code s)(btn := code)"
    and "b < BIND_COUNT \<Longrightarrow> bit (bind_ext (key_bind_set btn code ext s)) b
           = (if b = btn then ext else bit (bind_ext s) b)"
    and "key_word b (key_bind_set btn code ext s)
           = key_word b (s\<lparr>bind_code := (bind_code s)(btn := code),
                           bind_ext := bind_ext (key_bind_set btn code ext s)\<rparr>)"
    and "outs (key_bind_set btn code ext s) =
           outs s @ [(KEYCFG_REG, key_word btn (key_bind_set btn code ext s))]"
  using assms
  by (auto simp: key_bind_set_def key_push_eq BIND_COUNT_def bit_simps key_word_def key_bind_ext_def)

lemma key_bind_set_frame [simp]:
  "bram (key_bind_set btn code ext s) = bram s" "bram_addr (key_bind_set btn code ext s) = bram_addr s"
  "host (key_bind_set btn code ext s) = host s" "tds_log (key_bind_set btn code ext s) = tds_log s"
  "key_st.more (key_bind_set btn code ext s) = key_st.more s"
  by (simp_all add: key_bind_set_def key_push_eq)

lemma key_word_other:
  assumes "b < BIND_COUNT" "btn < BIND_COUNT" "b \<noteq> btn"
  shows "key_word b (key_bind_set btn code ext s) = key_word b s"
proof -
  have "bind_code (key_bind_set btn code ext s) b = bind_code s b"
    "bit (bind_ext (key_bind_set btn code ext s)) b = bit (bind_ext s) b"
    using assms by (simp_all add: key_bind_set_obs(1,2) [OF assms(2)])
  then show ?thesis unfolding key_word_def key_bind_ext_bit by simp
qed

lemma keys_agree_set:
  assumes "keys_agree s" "btn < BIND_COUNT"
  shows "keys_agree (key_bind_set btn code ext s)"
proof -
  let ?m = "s\<lparr>bind_code := (bind_code s)(btn := code),
              bind_ext := (if ext then bind_ext s OR push_bit btn 1 else bind_ext s AND NOT (push_bit btn 1))\<rparr>"
  have k: "key_bind_set btn code ext s = key_push btn ?m" by (simp add: key_bind_set_def)
  have "key_word b ?m = key_word b s" if "b < BIND_COUNT" "b \<noteq> btn" for b
  proof -
    have "key_word b (key_push btn ?m) = key_word b ?m"
      by (rule key_word_cong) (simp_all only: key_push_eq emit_key_fields)
    then show ?thesis using key_word_other [OF that(1) assms(2) that(2), of code ext s] unfolding k by simp
  qed
  then show ?thesis
    unfolding k using assms by (intro keys_agree_push) (auto simp: keys_agree_def)
qed

lemma key_bind_reset_obs:
  shows "keys_agree (key_bind_reset s)" "bind_ext (key_bind_reset s) = 0"
    "b < BIND_COUNT \<Longrightarrow> bind_code (key_bind_reset s) b = bind_default ! b"
    "bram (key_bind_reset s) = bram s" "bram_addr (key_bind_reset s) = bram_addr s"
    "host (key_bind_reset s) = host s" "tds_log (key_bind_reset s) = tds_log s"
    "key_st.more (key_bind_reset s) = key_st.more s"
proof -
  define body where "body = (\<lambda>b (s :: ('a, 'b) key_st_scheme).
      key_push b (s\<lparr>bind_code := (bind_code s)(b := bind_default ! b)\<rparr>))"
  have r: "key_bind_reset s = for_to BIND_COUNT body (s\<lparr>bind_ext := 0\<rparr>)"
    by (simp add: key_bind_reset_def body_def)
  define I where "I = (\<lambda>k (t :: ('a, 'b) key_st_scheme). bind_ext t = 0
      \<and> (\<forall>b<k. bind_code t b = bind_default ! b
          \<and> last_write KEYCFG_REG (\<lambda>v. drop_bit 9 v = bind_keycfg_id ! b) (outs t) = Some (key_word b t))
      \<and> bram t = bram s \<and> bram_addr t = bram_addr s \<and> host t = host s \<and> tds_log t = tds_log s
      \<and> key_st.more t = key_st.more s)"
  have "I BIND_COUNT (for_to BIND_COUNT body (s\<lparr>bind_ext := 0\<rparr>))"
  proof (rule for_to_inv)
    show "I 0 (s\<lparr>bind_ext := 0\<rparr>)" by (simp add: I_def)
  next
    fix k t assume k: "k < BIND_COUNT" and I: "I k t"
    let ?m = "t\<lparr>bind_code := (bind_code t)(k := bind_default ! k)\<rparr>"
    have w: "key_word b ?m = key_word b t" if "b < k" for b
      using that by (simp add: key_word_def key_bind_ext_def)
    have b: "body k t = emit KEYCFG_REG (key_word k ?m) ?m" by (simp add: body_def key_push_eq)
    have kw: "key_word c (emit r v ?m) = key_word c ?m" for c r v
      by (simp add: key_word_def key_bind_ext_def)
    show "I (Suc k) (body k t)"
      unfolding I_def b kw using I k w
      by (auto simp: I_def less_Suc_eq slot_key_word keycfg_id_inj)
  qed
  then show "keys_agree (key_bind_reset s)" "bind_ext (key_bind_reset s) = 0"
    "b < BIND_COUNT \<Longrightarrow> bind_code (key_bind_reset s) b = bind_default ! b"
    "bram (key_bind_reset s) = bram s" "bram_addr (key_bind_reset s) = bram_addr s"
    "host (key_bind_reset s) = host s" "tds_log (key_bind_reset s) = tds_log s"
    "key_st.more (key_bind_reset s) = key_st.more s"
    unfolding r I_def keys_agree_def by simp_all
qed

end
