(* ===== verification/Settings_Store.thy ===== *)
theory Settings_Store
  imports Key_Bind
begin

text \<open>
  The persistent half of \<open>firmware/settings_ui.c\<close>: the option table, the settings blob and
  the per-disk profile table in the bridge RAM's settings window (words 128 to 255), loading,
  the migration of older blobs, saving, and following the image mounted in drive A.
\<close>

section \<open>The option table\<close>

definition opt_cpu :: "string list" where
  "opt_cpu = [''286 8MHz'', ''286 10MHz'', ''286 12MHz'', ''Turbo (max)'']"
definition opt_bios_wr :: "string list" where "opt_bios_wr = [''None'', ''EC00'', ''Main'', ''All'']"
definition opt_boost :: "string list" where "opt_boost = [''None'', ''2x'', ''4x'']"
definition opt_level4 :: "string list" where "opt_level4 = [''1'', ''2'', ''3'', ''4'']"
definition opt_stereo :: "string list" where "opt_stereo = [''None'', ''25%'', ''50%'', ''100%'']"
definition opt_dis_en :: "string list" where "opt_dis_en = [''Disabled'', ''Enabled'']"
definition opt_extmem :: "string list" where "opt_extmem = [''None'', ''2 MB'', ''4 MB'', ''8 MB'']"
definition opt_display :: "string list" where
  "opt_display = [''Full Color'', ''Green'', ''Amber'', ''B&W'', ''Red'', ''Blue'', ''Fuchsia'', ''Purple'']"
definition opt_mode200 :: "string list" where "opt_mode200 = [''Double'', ''Skip'']"
definition opt_fdd_turbo :: "string list" where "opt_fdd_turbo = [''On'', ''Off'']"
definition opt_drv_sound :: "string list" where
  "opt_drv_sound = [''Off'', [CHR ''5'', CHR ''.'', CHR ''2'', CHR ''5'', CHR 0x22],
                    [CHR ''3'', CHR ''.'', CHR ''5'', CHR 0x22]]"
definition opt_txt_lines :: "string list" where "opt_txt_lines = [''25 Lines'', ''20 Lines'']"
definition opt_txt_cols :: "string list" where "opt_txt_cols = [''80 Cols'', ''40 Cols'']"
definition opt_boot_bsc :: "string list" where "opt_boot_bsc = [''Disks First'', ''ROM BASIC'']"
definition opt_boot_dev :: "string list" where
  "opt_boot_dev = [''Standard'', ''640KB FDD'', ''1MB FDD'', ''ROM BASIC'', ''HDD #1'', ''HDD #2'', ''SCSI HDD'']"
definition opt_ram_sz :: "string list" where
  "opt_ram_sz = [''640 KB'', ''128 KB'', ''256 KB'', ''384 KB'', ''512 KB'']"
definition opt_off_on :: "string list" where "opt_off_on = [''Off'', ''On'']"
definition opt_extrom :: "string list" where "opt_extrom = [''Absent'', ''Present'']"
definition opt_cache :: "string list" where "opt_cache = [''On'', ''Off'']"
definition opt_dpad :: "string list" where
  "opt_dpad = [''Numpad'', ''Numpad w/ Diag.'', ''Arrows'', ''WASD'', ''HJKL'', ''HJKL w/ YUBN'']"
definition opt_gamepad :: "string list" where "opt_gamepad = [''Keyboard'', ''Joystick'', ''Mouse'']"

lemmas opt_defs = opt_cpu_def opt_bios_wr_def opt_boost_def opt_level4_def opt_stereo_def
  opt_dis_en_def opt_extmem_def opt_display_def opt_mode200_def opt_fdd_turbo_def opt_drv_sound_def
  opt_txt_lines_def opt_txt_cols_def opt_boot_bsc_def opt_boot_dev_def opt_ram_sz_def opt_off_on_def
  opt_extrom_def opt_cache_def opt_dpad_def opt_gamepad_def

text \<open>The settings by index; the save blob stores values in this order.\<close>

definition SET_CPU_SPEED :: nat where "SET_CPU_SPEED = 0"
definition SET_BOOST :: nat where "SET_BOOST = 2"
definition SET_SPK_VOL :: nat where "SET_SPK_VOL = 3"
definition SET_STEREO :: nat where "SET_STEREO = 4"
definition SET_FDD_TURBO :: nat where "SET_FDD_TURBO = 6"
definition SET_MODE200 :: nat where "SET_MODE200 = 7"
definition SET_DPAD :: nat where "SET_DPAD = 8"
definition SET_GAMEPAD :: nat where "SET_GAMEPAD = 9"
definition SET_DISK_LED :: nat where "SET_DISK_LED = 10"
definition SET_EXTMEM :: nat where "SET_EXTMEM = 11"
definition SET_DRV_SOUND :: nat where "SET_DRV_SOUND = 12"
definition SET_TXT_LINES :: nat where "SET_TXT_LINES = 13"
definition SET_TXT_COLS :: nat where "SET_TXT_COLS = 14"
definition SET_BOOT_BSC :: nat where "SET_BOOT_BSC = 15"
definition SET_BOOT_DEV :: nat where "SET_BOOT_DEV = 16"
definition SET_RAM_SZ :: nat where "SET_RAM_SZ = 17"
definition SET_DEL_BS :: nat where "SET_DEL_BS = 18"
definition SET_EXTROM :: nat where "SET_EXTROM = 19"
definition SET_CPU_CACHE :: nat where "SET_CPU_CACHE = 20"
definition SET_COUNT :: nat where "SET_COUNT = 21"

text \<open>Each setting's options and its compiled default.\<close>

definition settings_table :: "(string list \<times> u8) list" where
  "settings_table =
     [(opt_cpu, 3), (opt_bios_wr, 0), (opt_boost, 0), (opt_level4, 0), (opt_stereo, 0),
      (opt_display, 0), (opt_fdd_turbo, 1), (opt_mode200, 0), (opt_dpad, of_nat DPAD_ARROWS),
      (opt_gamepad, 0), (opt_dis_en, 1), (opt_extmem, 3), (opt_drv_sound, 1), (opt_txt_lines, 0),
      (opt_txt_cols, 0), (opt_boot_bsc, 0), (opt_boot_dev, 0), (opt_ram_sz, 0), (opt_off_on, 0),
      (opt_extrom, 1), (opt_cache, 0)]"

definition set_count :: "nat \<Rightarrow> u8" where
  "set_count i = of_nat (length (fst (settings_table ! i)))"

section \<open>State\<close>

record 'h set_st = "'h key_st" +
  set_value :: "nat \<Rightarrow> u8"
  settings_default :: "nat \<Rightarrow> u8"
  dirty :: bool
  have_table :: bool
  disk_hash :: u32
  disk_slot :: int
  evict_i :: u8
  keybind_sel :: "nat \<Rightarrow> u8"
  keybind_key :: "nat \<Rightarrow> u8"
  keybind_key_ext :: u8

section \<open>Driving the machine\<close>

definition settings_push :: "nat \<Rightarrow> ('h, 'z) set_st_scheme \<Rightarrow> ('h, 'z) set_st_scheme" where
  "settings_push i s =
     (if i = SET_DPAD then dpad_apply (uint (set_value s i)) s
      else emit SETTINGS_REG (push_bit 8 (of_nat i) OR ucast (set_value s i)) s)"

definition apply_defaults :: "('h, 'z) set_st_scheme \<Rightarrow> ('h, 'z) set_st_scheme" where
  "apply_defaults s =
     key_bind_reset (for_to SET_COUNT (\<lambda>i s.
       settings_push i (s\<lparr>set_value := (set_value s)(i := settings_default s i)\<rparr>)) s)"

section \<open>The binding roller's cache\<close>

definition BIND_KEY_SLOT :: u8 where "BIND_KEY_SLOT = 0xFF"

text \<open>\<open>(ext, code, name)\<close>; \<open>None\<close> where the row shows the function's own label.\<close>

definition keybind_cycle :: "(u8 \<times> u8 \<times> string option) list" where
  "keybind_cycle =
     [(0, 0x00, None), (0, 0xF0 + BTNFN_SETTINGS, None), (0, 0x5A, Some ''Return''),
      (0, 0x29, Some ''Space''), (0, 0x76, Some ''Esc''), (0, 0x1A, Some ''Z''), (0, 0x22, Some ''X''),
      (0, 0x21, Some ''C''), (0, 0x12, Some ''L Shift''), (0, 0x59, Some ''R Shift''),
      (0, 0x14, Some ''Ctrl''), (1, 0x14, Some ''GRPH''), (0, 0x11, Some ''NFER''),
      (1, 0x11, Some ''XFER''), (0, 0x08, Some ''STOP''), (0, 0x0D, Some ''Tab''),
      (0, 0x66, Some ''Backspace''), (1, 0x75, Some ''Up''), (1, 0x72, Some ''Down''),
      (1, 0x6B, Some ''Left''), (1, 0x74, Some ''Right''), (0, 0x05, Some ''F1''),
      (0, 0x06, Some ''F2''), (0, 0x04, Some ''F3''), (0, 0x0C, Some ''F4''), (0, 0x03, Some ''F5''),
      (0, 0x0B, Some ''F6''), (0, 0x83, Some ''F7''), (0, 0x0A, Some ''F8''), (0, 0x01, Some ''F9''),
      (0, 0x09, Some ''F10''), (0, BIND_KEY_SLOT, None)]"

definition KEYBIND_CYCLE_COUNT :: nat where "KEYBIND_CYCLE_COUNT = length keybind_cycle"

fun keybind_slot_from :: "u8 \<Rightarrow> u8 \<Rightarrow> (u8 \<times> u8 \<times> string option) list \<Rightarrow> nat \<Rightarrow> nat" where
  "keybind_slot_from code ext [] i = KEYBIND_CYCLE_COUNT - 1"
| "keybind_slot_from code ext ((e, c, nm) # rest) i =
     (if c = code \<and> e = ext then i else keybind_slot_from code ext rest (Suc i))"

definition keybind_slot :: "nat \<Rightarrow> ('h, 'z) key_st_scheme \<Rightarrow> nat" where
  "keybind_slot btn s = keybind_slot_from (key_bind_code btn s) (key_bind_ext btn s) keybind_cycle 0"

definition keybind_is_key :: "nat \<Rightarrow> ('h, 'z) key_st_scheme \<Rightarrow> bool" where
  "keybind_is_key btn s \<longleftrightarrow> key_bind_code btn s \<noteq> 0 \<and> key_bind_function btn s = BTNFN_NONE"

definition keybind_remember :: "nat \<Rightarrow> ('h, 'z) set_st_scheme \<Rightarrow> ('h, 'z) set_st_scheme" where
  "keybind_remember btn s =
     s\<lparr>keybind_key := (keybind_key s)(btn := if keybind_is_key btn s then key_bind_code btn s else 0),
       keybind_key_ext := (if keybind_is_key btn s \<and> key_bind_ext btn s \<noteq> 0
                           then keybind_key_ext s OR push_bit btn 1
                           else keybind_key_ext s AND NOT (push_bit btn 1))\<rparr>"

definition keybind_sync :: "('h, 'z) set_st_scheme \<Rightarrow> ('h, 'z) set_st_scheme" where
  "keybind_sync s =
     for_to BIND_COUNT (\<lambda>b s.
       keybind_remember b (s\<lparr>keybind_sel := (keybind_sel s)(b := of_nat (keybind_slot b s))\<rparr>)) s"

section \<open>The save window's layout\<close>

definition SETTINGS_MAGIC :: u32 where "SETTINGS_MAGIC = 0x50435853"
definition SETTINGS_VERSION :: u32 where "SETTINGS_VERSION = 10"
definition SETTINGS_WORD :: nat where "SETTINGS_WORD = 128"
definition VALUE_WORDS :: nat where "VALUE_WORDS = (SET_COUNT + 3) div 4"
definition BIND_WORDS :: nat where "BIND_WORDS = (BIND_COUNT + 1 + 3) div 4"
definition BLOCK_WORDS :: nat where "BLOCK_WORDS = VALUE_WORDS + BIND_WORDS"
definition TABLE_WORD :: nat where "TABLE_WORD = SETTINGS_WORD + 2 + BLOCK_WORDS"
definition TABLE_MAGIC :: u32 where "TABLE_MAGIC = 0x504B5444"
definition ENTRY_WORDS :: nat where "ENTRY_WORDS = BLOCK_WORDS + 2"
definition ENTRY_COUNT :: nat where "ENTRY_COUNT = (255 - TABLE_WORD) div ENTRY_WORDS"
definition V9_TABLE_WORD :: nat where "V9_TABLE_WORD = SETTINGS_WORD + 9"
definition V9_ENTRY_WORDS :: nat where "V9_ENTRY_WORDS = 9"
definition V9_ENTRY_COUNT :: nat where "V9_ENTRY_COUNT = 13"

definition SETTINGS_V4_COUNT :: nat where "SETTINGS_V4_COUNT = 22"
definition SETTINGS_V5_COUNT :: nat where "SETTINGS_V5_COUNT = 11"

definition v4_to_v5 :: "nat list" where
  "v4_to_v5 = [0, 0xFF, 0xFF, 0xFF, 1, 0xFF, 0xFF, 2, 3, 4, 0xFF, 0xFF, 5, 6, 7, 8, 0xFF, 0xFF, 0xFF,
               0xFF, 9, 10]"

definition v5_to_v6 :: "nat list" where
  "v5_to_v6 = [0, 1, 2, 3, 4, 5, 0xFF, 7, 0xFF, 8, 9]"

lemma layout_simps:
  "VALUE_WORDS = 6" "BIND_WORDS = 2" "BLOCK_WORDS = 8" "TABLE_WORD = 138" "ENTRY_WORDS = 10"
  "ENTRY_COUNT = 11" "V9_TABLE_WORD = 137" "V9_ENTRY_WORDS = 9" "V9_ENTRY_COUNT = 13"
  "SETTINGS_WORD = 128"
  by (simp_all add: VALUE_WORDS_def BIND_WORDS_def BLOCK_WORDS_def TABLE_WORD_def ENTRY_WORDS_def
      ENTRY_COUNT_def V9_TABLE_WORD_def V9_ENTRY_WORDS_def V9_ENTRY_COUNT_def SETTINGS_WORD_def
      SET_COUNT_def BIND_COUNT_def)

text \<open>The first word of a table entry.\<close>

definition entry_word :: "nat \<Rightarrow> nat" where
  "entry_word e = TABLE_WORD + 1 + e * ENTRY_WORDS"

definition v9_entry_word :: "nat \<Rightarrow> nat" where
  "v9_entry_word e = V9_TABLE_WORD + 1 + e * V9_ENTRY_WORDS"

section \<open>Writing a block\<close>

text \<open>One value byte into the word being packed; a full word, or the last one, is stored.\<close>

definition pack_value :: "nat \<Rightarrow> u32 \<times> ('h, 'z) set_st_scheme \<Rightarrow> u32 \<times> ('h, 'z) set_st_scheme" where
  "pack_value i ws =
     (let (word, s) = ws;
          word = word OR push_bit (i mod 4 * 8) (ucast (set_value s i))
      in if i mod 4 = 3 \<or> i = SET_COUNT - 1 then (0, bram_write word s) else (word, s))"

definition pack_binding :: "u8 \<Rightarrow> nat \<Rightarrow> u32 \<times> ('h, 'z) set_st_scheme \<Rightarrow> u32 \<times> ('h, 'z) set_st_scheme" where
  "pack_binding ext i ws =
     (let (word, s) = ws;
          b = (if i < BIND_COUNT then key_bind_code i s else ext);
          word = word OR push_bit (i mod 4 * 8) (ucast b)
      in if i mod 4 = 3 \<or> i = BIND_COUNT then (0, bram_write word s) else (word, s))"

definition ext_bits :: "('h, 'z) set_st_scheme \<Rightarrow> u8" where
  "ext_bits s = for_to BIND_COUNT (\<lambda>i ext. ext OR push_bit i (key_bind_ext i s)) 0"

definition block_write :: "nat \<Rightarrow> ('h, 'z) set_st_scheme \<Rightarrow> ('h, 'z) set_st_scheme" where
  "block_write addr s =
     (let s = bram_seek (of_nat addr) s;
          (_, s) = for_to SET_COUNT pack_value (0, s);
          ext = ext_bits s;
          (_, s) = for_to (BIND_COUNT + 1) (pack_binding ext) (0, s)
      in s)"

section \<open>Adopting a block\<close>

definition adopt_value :: "nat \<Rightarrow> u32 \<times> ('h, 'z) set_st_scheme \<Rightarrow> u32 \<times> ('h, 'z) set_st_scheme" where
  "adopt_value i ws =
     (let (word, s) = ws;
          (word, s) = (if i mod 4 = 0 then bram_read s else (word, s));
          v = byte_of word (i mod 4)
      in (word, if i < SET_COUNT \<and> v < set_count i then s\<lparr>set_value := (set_value s)(i := v)\<rparr> else s))"

text \<open>The binding block: seven codes, then the ext bitmap.\<close>

definition read_binding ::
  "nat \<Rightarrow> (u8 list \<times> u32) \<times> ('h, 'z) hw_scheme \<Rightarrow> (u8 list \<times> u32) \<times> ('h, 'z) hw_scheme" where
  "read_binding i cs =
     (let ((codes, word), s) = cs;
          (word, s) = (if i mod 4 = 0 then bram_read s else (word, s))
      in ((codes @ [byte_of word (i mod 4)], word), s))"

definition adopt_bindings :: "u32 \<Rightarrow> ('h, 'z) key_st_scheme \<Rightarrow> ('h, 'z) key_st_scheme" where
  "adopt_bindings word s =
     (let ((codes, _), s) = for_to (BIND_COUNT + 1) read_binding (([], word), s);
          ext = codes ! BIND_COUNT
      in for_to BIND_COUNT (\<lambda>i s. key_bind_set i (codes ! i) (drop_bit i ext AND 1 \<noteq> 0) s) s)"

definition push_all :: "('h, 'z) set_st_scheme \<Rightarrow> ('h, 'z) set_st_scheme" where
  "push_all s = for_to SET_COUNT settings_push s"

definition block_apply :: "nat \<Rightarrow> nat \<Rightarrow> ('h, 'z) set_st_scheme \<Rightarrow> ('h, 'z) set_st_scheme" where
  "block_apply addr count s =
     (let s = bram_seek (of_nat addr) s;
          (word, s) = for_to count adopt_value (0, s)
      in push_all (adopt_bindings word s))"

section \<open>The global blob\<close>

definition global_write :: "('h, 'z) set_st_scheme \<Rightarrow> ('h, 'z) set_st_scheme" where
  "global_write s =
     (let s = bram_seek (of_nat SETTINGS_WORD) s;
          s = bram_write SETTINGS_MAGIC s;
          s = bram_write (SETTINGS_VERSION OR push_bit 8 (of_nat SET_COUNT)) s
      in block_write (SETTINGS_WORD + 2) s)"

text \<open>\<open>(head >> 8) & 0xFF\<close>\<close>

definition head_count :: "u32 \<Rightarrow> nat" where
  "head_count head = unat (drop_bit 8 head AND 0xFF)"

definition apply_global :: "('h, 'z) set_st_scheme \<Rightarrow> ('h, 'z) set_st_scheme" where
  "apply_global s =
     (let s = bram_seek (of_nat SETTINGS_WORD) s;
          (magic, s) = bram_read s;
          (head, s) = bram_read s;
          version = head AND 0xFF
      in if magic = SETTINGS_MAGIC \<and> 6 \<le> version \<and> version \<le> SETTINGS_VERSION
         then block_apply (SETTINGS_WORD + 2) (head_count head) s
         else apply_defaults s)"

section \<open>The per-disk table\<close>

fun table_find_from :: "u32 \<Rightarrow> nat list \<Rightarrow> ('h, 'z) hw_scheme \<Rightarrow> int \<times> ('h, 'z) hw_scheme" where
  "table_find_from hash [] s = (-1, s)"
| "table_find_from hash (e # es) s =
     (let s = bram_seek (of_nat (entry_word e)) s;
          (h, s) = bram_read s;
          (nh, s) = bram_read s
      in if h = hash \<and> nh = NOT hash then (int e, s) else table_find_from hash es s)"

definition table_find :: "u32 \<Rightarrow> ('h, 'z) set_st_scheme \<Rightarrow> int \<times> ('h, 'z) set_st_scheme" where
  "table_find hash s =
     (if \<not> have_table s then (-1, s) else table_find_from hash [0..<ENTRY_COUNT] s)"

definition alloc_probe :: "nat \<Rightarrow> int \<times> ('h, 'z) hw_scheme \<Rightarrow> int \<times> ('h, 'z) hw_scheme" where
  "alloc_probe e fs =
     (let (free_e, s) = fs;
          s = bram_seek (of_nat (entry_word e)) s;
          (h, s) = bram_read s;
          (nh, s) = bram_read s
      in (if free_e < 0 \<and> (h = 0 \<or> nh \<noteq> NOT h) then int e else free_e, s))"

definition table_alloc :: "('h, 'z) set_st_scheme \<Rightarrow> int \<times> ('h, 'z) set_st_scheme" where
  "table_alloc s =
     (let (free_e, s) = for_to ENTRY_COUNT alloc_probe (-1, s)
      in if 0 \<le> free_e then (free_e, s)
         else (uint (evict_i s),
               s\<lparr>evict_i := if int ENTRY_COUNT \<le> uint (evict_i s) + 1 then 0 else evict_i s + 1\<rparr>))"

section \<open>Migrating a version-9 table\<close>

definition bram_writes :: "u32 list \<Rightarrow> ('h, 'z) hw_scheme \<Rightarrow> ('h, 'z) hw_scheme" where
  "bram_writes ws s = fold bram_write ws s"

definition default_word :: "('h, 'z) set_st_scheme \<Rightarrow> u32" where
  "default_word s = fold (\<lambda>i word. word OR push_bit (i mod 4 * 8) (ucast (settings_default s i)))
     [SET_CPU_CACHE..<SET_COUNT] 0"

definition entry_write :: "nat \<Rightarrow> u32 list \<Rightarrow> ('h, 'z) set_st_scheme \<Rightarrow> ('h, 'z) set_st_scheme" where
  "entry_write e b s =
     (let s = bram_seek (of_nat (entry_word e)) s;
          s = bram_writes (take 7 b) s;
          s = bram_write (default_word s) s;
          s = bram_write (b ! 7) s
      in bram_write (b ! 8) s)"

definition stash_tail :: "nat \<Rightarrow> u32 list list \<times> ('h, 'z) hw_scheme \<Rightarrow> u32 list list \<times> ('h, 'z) hw_scheme" where
  "stash_tail e ts =
     (let (stash, s) = ts;
          s = bram_seek (of_nat (v9_entry_word e)) s;
          (h, s) = bram_read s;
          (nh, s) = bram_read s
      in if h \<noteq> 0 \<and> nh = NOT h
         then let (rest, s) = collect (V9_ENTRY_WORDS - 2) bram_read s in (stash @ [h # nh # rest], s)
         else (stash, s))"

definition move_entry :: "nat \<Rightarrow> u16 \<times> ('h, 'z) set_st_scheme \<Rightarrow> u16 \<times> ('h, 'z) set_st_scheme" where
  "move_entry e fs =
     (let (filled, s) = fs;
          s = bram_seek (of_nat (v9_entry_word e)) s;
          (b, s) = collect V9_ENTRY_WORDS bram_read s
      in if b ! 0 \<noteq> 0 \<and> b ! 1 = NOT (b ! 0)
         then (filled OR push_bit e 1, entry_write e b s)
         else (filled, bram_writes (replicate ENTRY_WORDS 0) (bram_seek (of_nat (entry_word e)) s)))"

function next_free :: "u16 \<Rightarrow> nat \<Rightarrow> nat" where
  "next_free filled e =
     (if e < ENTRY_COUNT \<and> filled AND push_bit e 1 \<noteq> 0 then next_free filled (Suc e) else e)"
  by pat_completeness auto
termination by (relation "measure (\<lambda>(filled, e). ENTRY_COUNT - e)") auto

declare next_free.simps [simp del]

fun place_tails :: "u32 list list \<Rightarrow> nat \<Rightarrow> u16 \<Rightarrow> ('h, 'z) set_st_scheme \<Rightarrow> ('h, 'z) set_st_scheme" where
  "place_tails [] e filled s = s"
| "place_tails (b # bs) e filled s =
     (let e = next_free filled e
      in if ENTRY_COUNT \<le> e then s else place_tails bs (Suc e) filled (entry_write e b s))"

definition table_migrate :: "('h, 'z) set_st_scheme \<Rightarrow> ('h, 'z) set_st_scheme" where
  "table_migrate s =
     (let (m, s) = bram_read (bram_seek (of_nat V9_TABLE_WORD) s)
      in if m \<noteq> TABLE_MAGIC then s
         else
           let s = bram_write 0 (bram_seek (of_nat V9_TABLE_WORD) s);
               (stash, s) = fold stash_tail (rev [ENTRY_COUNT..<V9_ENTRY_COUNT]) ([], s);
               (filled, s) = fold move_entry (rev [0..<ENTRY_COUNT]) (0, s);
               s = place_tails stash 0 filled s
           in bram_write TABLE_MAGIC (bram_seek (of_nat TABLE_WORD) s))"

section \<open>Loading, saving, following drive A\<close>

definition adopt_old :: "u32 \<Rightarrow> nat \<Rightarrow> u32 \<times> ('h, 'z) set_st_scheme \<Rightarrow> u32 \<times> ('h, 'z) set_st_scheme" where
  "adopt_old version i ws =
     (let (word, s) = ws;
          (word, s) = (if i mod 4 = 0 then bram_read s else (word, s));
          v = byte_of word (i mod 4);
          t = (if version = 4 then v4_to_v5 ! i else i);
          t = (if version \<le> 5 \<and> t \<noteq> 0xFF then v5_to_v6 ! t else t)
      in (word, if t \<noteq> 0xFF \<and> v < set_count t then s\<lparr>set_value := (set_value s)(t := v)\<rparr> else s))"

definition old_values :: "u32 \<Rightarrow> nat \<Rightarrow> nat" where
  "old_values version count =
     (if version = 4 then min SETTINGS_V4_COUNT count else min SETTINGS_V5_COUNT count)"

definition load_old :: "u32 \<Rightarrow> nat \<Rightarrow> ('h, 'z) set_st_scheme \<Rightarrow> ('h, 'z) set_st_scheme" where
  "load_old version count s =
     (let (word, s) = for_to (old_values version count) (adopt_old version) (0, s)
      in adopt_bindings word s)"

definition snapshot_defaults :: "('h, 'z) set_st_scheme \<Rightarrow> ('h, 'z) set_st_scheme" where
  "snapshot_defaults s =
     for_to SET_COUNT (\<lambda>i s. s\<lparr>settings_default := (settings_default s)(i := set_value s i)\<rparr>) s"

definition settings_load :: "('h, 'z) set_st_scheme \<Rightarrow> ('h, 'z) set_st_scheme" where
  "settings_load s =
     (let s = snapshot_defaults s;
          s = bram_seek (of_nat SETTINGS_WORD) s;
          (magic, s) = bram_read s;
          (head, s) = bram_read s;
          version = head AND 0xFF;
          s = (if magic = SETTINGS_MAGIC \<and> 4 \<le> version \<and> version \<le> SETTINGS_VERSION then
                 let s = (if 6 \<le> version then block_apply (SETTINGS_WORD + 2) (head_count head) s
                          else load_old version (head_count head) s)
                 in if version < SETTINGS_VERSION
                    then global_write (if version = SETTINGS_VERSION - 1 then table_migrate s else s)
                    else s
               else s);
          s = push_all s;
          (m, s) = bram_read (bram_seek (of_nat TABLE_WORD) s)
      in s\<lparr>have_table := (m = TABLE_MAGIC)\<rparr>)"

definition settings_drive_sound :: "('h, 'z) set_st_scheme \<Rightarrow> u8" where
  "settings_drive_sound s = set_value s SET_DRV_SOUND"

definition settings_mark_dirty :: "('h, 'z) set_st_scheme \<Rightarrow> ('h, 'z) set_st_scheme" where
  "settings_mark_dirty s = s\<lparr>dirty := True\<rparr>"

definition claim_table :: "('h, 'z) set_st_scheme \<Rightarrow> ('h, 'z) set_st_scheme" where
  "claim_table s =
     (if have_table s then s
      else bram_writes (replicate (ENTRY_COUNT * ENTRY_WORDS) 0)
             (bram_write TABLE_MAGIC (bram_seek (of_nat TABLE_WORD) (s\<lparr>have_table := True\<rparr>))))"

definition pick_slot :: "('h, 'z) set_st_scheme \<Rightarrow> int \<times> ('h, 'z) set_st_scheme" where
  "pick_slot s =
     (let e = disk_slot s
      in if e < 0 \<or> int ENTRY_COUNT \<le> e
         then let (e, s) = table_find (disk_hash s) s;
                  (e, s) = (if e < 0 then table_alloc s else (e, s))
              in (e, s\<lparr>disk_slot := e\<rparr>)
         else (e, s))"

definition settings_service :: "('h, 'z) set_st_scheme \<Rightarrow> ('h, 'z) set_st_scheme" where
  "settings_service s =
     (if \<not> dirty s then s
      else
        let s = claim_table (s\<lparr>dirty := False\<rparr>)
        in if disk_hash s = 0 then global_write s
           else
             let (e, s) = pick_slot s;
                 s = bram_seek (of_nat (entry_word (nat e))) s;
                 s = bram_write (disk_hash s) s;
                 s = bram_write (NOT (disk_hash s)) s
             in block_write (entry_word (nat e) + 2) s)"

definition settings_disk_mounted :: "u32 \<Rightarrow> ('h, 'z) set_st_scheme \<Rightarrow> ('h, 'z) set_st_scheme" where
  "settings_disk_mounted hash s =
     (if hash = disk_hash s then s
      else
        let s = settings_service s;
            s = s\<lparr>disk_hash := hash\<rparr>;
            s = (if hash = 0 then apply_global (s\<lparr>disk_slot := -1\<rparr>)
                 else
                   let (e, s) = table_find hash s;
                       s = s\<lparr>disk_slot := e\<rparr>
                   in if 0 \<le> e then block_apply (entry_word (nat e) + 2) SET_COUNT s
                      else apply_global s)
        in keybind_sync s)"

end
