(* ===== verification/Settings_Correct.thy ===== *)
theory Settings_Correct
  imports Settings_Store
begin

text \<open>
  What the storage operations do to the save window and to the live settings: the closed form
  of a written block, what adopting a block makes of arbitrary bytes, which window words each
  operation may write, and the agreement between the live settings and the registers the
  machine was last given.
\<close>

section \<open>Ports\<close>

lemma ucast_of_nat_bram [simp]: "(ucast (of_nat n :: u32) :: 10 word) = of_nat n"
proof -
  have "unat (ucast (of_nat n :: u32) :: 10 word) = unat (of_nat n :: 10 word)"
    by (simp add: unsigned_ucast_eq unsigned_of_nat take_bit_eq_mod mod_mod_cancel)
  then show ?thesis by (simp only: word_unat_eq_iff)
qed

lemma bram_port_eqs:
  "bram_seek (of_nat a) s = s\<lparr>bram_addr := of_nat a\<rparr>"
  "bram_read s = (bram s (bram_addr s), s\<lparr>bram_addr := bram_addr s + 1\<rparr>)"
  "bram_write w s = s\<lparr>bram := mem_put (bram s) (bram_addr s) [w], bram_addr := bram_addr s + 1\<rparr>"
  by (simp_all add: bram_port_defs mem_put_single)

lemma bram_writes_eq:
  "length ws \<le> 1024 \<Longrightarrow> bram_writes ws s =
     s\<lparr>bram := mem_put (bram s) (bram_addr s) ws, bram_addr := bram_addr s + of_nat (length ws)\<rparr>"
proof (induction ws rule: rev_induct)
  case Nil
  then show ?case by (simp add: bram_writes_def)
next
  case (snoc w ws)
  then have "bram_writes (ws @ [w]) s = bram_write w
      (s\<lparr>bram := mem_put (bram s) (bram_addr s) ws, bram_addr := bram_addr s + of_nat (length ws)\<rparr>)"
    by (simp add: bram_writes_def)
  also have "\<dots> = s\<lparr>bram := mem_put (bram s) (bram_addr s) (ws @ [w]),
      bram_addr := bram_addr s + of_nat (length (ws @ [w]))\<rparr>"
    using snoc.prems mem_put_append [of ws "[w]" "bram s" "bram_addr s"]
    by (simp add: bram_port_eqs add.assoc)
  finally show ?case .
qed

section \<open>The block a profile is\<close>

definition block_words :: "('h, 'z) set_st_scheme \<Rightarrow> u32 list" where
  "block_words s =
     (let v = set_value s; c = bind_code s in
      [pack4 (v 0) (v 1) (v 2) (v 3), pack4 (v 4) (v 5) (v 6) (v 7), pack4 (v 8) (v 9) (v 10) (v 11),
       pack4 (v 12) (v 13) (v 14) (v 15), pack4 (v 16) (v 17) (v 18) (v 19), pack4 (v 20) 0 0 0,
       pack4 (c 0) (c 1) (c 2) (c 3), pack4 (c 4) (c 5) (c 6) (ext_bits s)])"

lemma length_block_words [simp]: "length (block_words s) = 8"
  by (simp add: block_words_def Let_def)

lemma pack4_or:
  "((ucast a OR push_bit 8 (ucast b)) OR push_bit 16 (ucast c)) OR push_bit 24 (ucast d) = pack4 a b c d"
  by (simp add: pack4_def or.assoc)

lemma bram_write_fields [simp]:
  "set_value (bram_write w s) = set_value s" "bind_code (bram_write w s) = bind_code s"
  "bind_ext (bram_write w s) = bind_ext s"
  by (simp_all add: bram_write_def)

lemma pack_values:
  "for_to SET_COUNT pack_value (0, s) = (0, bram_writes (take 6 (block_words s)) s)"
  unfolding SET_COUNT_def
  by (simp add: pack_value_def SET_COUNT_def pack4_or)
    (simp add: block_words_def bram_writes_def Let_def pack4_def)

lemma pack_bindings:
  "for_to (BIND_COUNT + 1) (pack_binding ext) (0, s) =
     (0, bram_writes [pack4 (bind_code s 0) (bind_code s 1) (bind_code s 2) (bind_code s 3),
                      pack4 (bind_code s 4) (bind_code s 5) (bind_code s 6) ext] s)"
  unfolding BIND_COUNT_def
  by (simp add: pack_binding_def BIND_COUNT_def pack4_or key_bind_code_def)
    (simp add: bram_writes_def)

lemma ext_bits_cong: "bind_ext t = bind_ext s \<Longrightarrow> ext_bits t = ext_bits s"
  by (simp add: ext_bits_def key_bind_ext_def)

lemma block_write_eq:
  "block_write addr s =
     s\<lparr>bram := mem_put (bram s) (of_nat addr) (block_words s), bram_addr := of_nat addr + 8\<rparr>"
proof -
  let ?s = "bram_seek (of_nat addr) s"
  let ?t = "bram_writes (take 6 (block_words ?s)) ?s"
  have t: "?t = ?s\<lparr>bram := mem_put (bram ?s) (bram_addr ?s) (take 6 (block_words ?s)),
      bram_addr := bram_addr ?s + 6\<rparr>"
    by (subst bram_writes_eq) (simp_all add: block_words_def Let_def)
  have b: "block_words ?s = block_words s"
    by (simp add: block_words_def bram_seek_def ext_bits_def key_bind_ext_def)
  have e: "ext_bits ?t = ext_bits s" unfolding t by (rule ext_bits_cong) (simp add: bram_seek_def)
  have c: "bind_code ?t = bind_code s" unfolding t by (simp add: bram_seek_def)
  have d: "drop 6 (block_words s) = [pack4 (bind_code s 0) (bind_code s 1) (bind_code s 2) (bind_code s 3),
      pack4 (bind_code s 4) (bind_code s 5) (bind_code s 6) (ext_bits s)]"
    by (simp add: block_words_def Let_def)
  have "block_write addr s = bram_writes (drop 6 (block_words s)) ?t"
    unfolding block_write_def Let_def pack_values prod.case pack_bindings e c d ..
  also have "\<dots> = fold bram_write (take 6 (block_words s) @ drop 6 (block_words s)) ?s"
    unfolding bram_writes_def b fold_append by simp
  also have "\<dots> = bram_writes (block_words s) ?s" by (simp add: bram_writes_def)
  also have "\<dots> = ?s\<lparr>bram := mem_put (bram ?s) (bram_addr ?s) (block_words s), bram_addr := bram_addr ?s + 8\<rparr>"
    by (subst bram_writes_eq) simp_all
  finally show ?thesis by (simp add: bram_port_eqs)
qed

section \<open>Adopting bytes\<close>

text \<open>Byte \<open>k\<close> of the block at a bridge word, and what of it lands on a setting.\<close>

definition stored :: "bram \<Rightarrow> 10 word \<Rightarrow> nat \<Rightarrow> u8" where
  "stored m a k = byte_of (m (a + of_nat (k div 4))) (k mod 4)"

definition adopted :: "bram \<Rightarrow> 10 word \<Rightarrow> nat \<Rightarrow> (nat \<Rightarrow> u8) \<Rightarrow> nat \<Rightarrow> u8" where
  "adopted m a n old j =
     (if j < n \<and> j < SET_COUNT \<and> stored m a j < set_count j then stored m a j else old j)"

text \<open>The reading side of every byte loop: a word is fetched when a new group of four starts.\<close>

lemma next_word:
  assumes "bram_addr t = a + of_nat ((n + 3) div 4)" and "n mod 4 \<noteq> 0 \<Longrightarrow> w = bram t (a + of_nat (n div 4))"
  shows "(if n mod 4 = 0 then bram_read t else (w, t))
       = (bram t (a + of_nat (n div 4)), t\<lparr>bram_addr := a + of_nat ((Suc n + 3) div 4)\<rparr>)"
proof (cases "n mod 4 = 0")
  case True
  then have e: "(n + 3) div 4 = n div 4" "(Suc n + 3) div 4 = Suc (n div 4)" by presburger+
  show ?thesis using True assms(1) unfolding e by (simp add: bram_port_eqs algebra_simps)
next
  case False
  then have e: "(n + 3) div 4 = Suc (n div 4)" "(Suc n + 3) div 4 = Suc (n div 4)" by presburger+
  have "t\<lparr>bram_addr := bram_addr t\<rparr> = t" by simp
  then show ?thesis using False assms unfolding e by simp
qed

lemma adopt_values:
  "\<exists>w. for_to n adopt_value (0, s) =
     (w, s\<lparr>bram_addr := bram_addr s + of_nat ((n + 3) div 4),
           set_value := adopted (bram s) (bram_addr s) n (set_value s)\<rparr>)
     \<and> (n mod 4 \<noteq> 0 \<longrightarrow> w = bram s (bram_addr s + of_nat (n div 4)))"
proof (induction n)
  case 0
  show ?case by (simp add: adopted_def)
next
  case (Suc n)
  define t where "t = s\<lparr>bram_addr := bram_addr s + of_nat ((n + 3) div 4),
           set_value := adopted (bram s) (bram_addr s) n (set_value s)\<rparr>"
  from Suc obtain w where IH: "for_to n adopt_value (0, s) = (w, t)"
    "n mod 4 \<noteq> 0 \<Longrightarrow> w = bram t (bram_addr s + of_nat (n div 4))" by (auto simp: t_def)
  let ?w = "bram s (bram_addr s + of_nat (n div 4))"
  have a: "(if n mod 4 = 0 then bram_read t else (w, t))
      = (?w, t\<lparr>bram_addr := bram_addr s + of_nat ((Suc n + 3) div 4)\<rparr>)"
    using next_word [of t "bram_addr s" n w] IH(2) by (simp add: t_def)
  have v: "adopted (bram s) (bram_addr s) (Suc n) (set_value s) =
      (if n < SET_COUNT \<and> byte_of ?w (n mod 4) < set_count n
       then (adopted (bram s) (bram_addr s) n (set_value s))(n := byte_of ?w (n mod 4))
       else adopted (bram s) (bram_addr s) n (set_value s))"
    by (auto simp: adopted_def stored_def less_Suc_eq fun_eq_iff)
  have step: "for_to (Suc n) adopt_value (0, s) =
      (?w, s\<lparr>bram_addr := bram_addr s + of_nat ((Suc n + 3) div 4),
            set_value := adopted (bram s) (bram_addr s) (Suc n) (set_value s)\<rparr>)"
    unfolding for_to_Suc IH(1) adopt_value_def Let_def prod.case a v by (simp add: t_def)
  have "Suc n mod 4 \<noteq> 0 \<Longrightarrow> Suc n div 4 = n div 4" by presburger
  then show ?case using step by auto
qed

lemma read_bindings_n:
  "\<exists>w. for_to n read_binding (([], w0), s) =
     ((map (stored (bram s) (bram_addr s)) [0..<n], w), s\<lparr>bram_addr := bram_addr s + of_nat ((n + 3) div 4)\<rparr>)
     \<and> (n mod 4 \<noteq> 0 \<longrightarrow> w = bram s (bram_addr s + of_nat (n div 4)))"
proof (induction n)
  case 0
  show ?case by simp
next
  case (Suc n)
  define t where "t = s\<lparr>bram_addr := bram_addr s + of_nat ((n + 3) div 4)\<rparr>"
  from Suc obtain w where IH:
    "for_to n read_binding (([], w0), s) = ((map (stored (bram s) (bram_addr s)) [0..<n], w), t)"
    "n mod 4 \<noteq> 0 \<Longrightarrow> w = bram t (bram_addr s + of_nat (n div 4))" by (auto simp: t_def)
  let ?w = "bram s (bram_addr s + of_nat (n div 4))"
  have a: "(if n mod 4 = 0 then bram_read t else (w, t))
      = (?w, t\<lparr>bram_addr := bram_addr s + of_nat ((Suc n + 3) div 4)\<rparr>)"
    using next_word [of t "bram_addr s" n w] IH(2) by (simp add: t_def)
  have step: "for_to (Suc n) read_binding (([], w0), s) =
      ((map (stored (bram s) (bram_addr s)) [0..<Suc n], ?w),
       s\<lparr>bram_addr := bram_addr s + of_nat ((Suc n + 3) div 4)\<rparr>)"
    unfolding for_to_Suc IH(1) read_binding_def Let_def prod.case a by (simp add: t_def stored_def)
  have "Suc n mod 4 \<noteq> 0 \<Longrightarrow> Suc n div 4 = n div 4" by presburger
  then show ?case using step by auto
qed

lemma read_bindings:
  "\<exists>w'. for_to (BIND_COUNT + 1) read_binding (([], w), s) =
     ((map (stored (bram s) (bram_addr s)) [0..<8], w'), s\<lparr>bram_addr := bram_addr s + 2\<rparr>)"
  using read_bindings_n [of 8 w s] by (auto simp: BIND_COUNT_def)

text \<open>Adopting the binding block.\<close>

lemma adopt_bindings_obs:
  fixes s :: "('h, 'z) key_st_scheme" and w :: u32
  defines "t \<equiv> adopt_bindings w s"
  shows "b < BIND_COUNT \<Longrightarrow> bind_code t b = stored (bram s) (bram_addr s) b"
    and "b < BIND_COUNT \<Longrightarrow> bit (bind_ext t) b = bit (stored (bram s) (bram_addr s) 7) b"
    and "keys_agree t" and "bram t = bram s" and "bram_addr t = bram_addr s + 2"
    and "host t = host s" and "tds_log t = tds_log s" and "key_st.more t = key_st.more s"
proof -
  let ?c = "stored (bram s) (bram_addr s)"
  define m where "m = s\<lparr>bram_addr := bram_addr s + 2\<rparr>"
  define body where "body = (\<lambda>i (s :: ('h, 'z) key_st_scheme). key_bind_set i (?c i) (bit (?c 7) i) s)"
  have ext: "(drop_bit i (e :: u8) AND 1 \<noteq> 0) = bit e i" for e i
    by (simp add: and_one_eq mod_2_eq_odd bit_iff_odd_drop_bit)
  obtain w' where r: "for_to (BIND_COUNT + 1) read_binding (([], w), s) = ((map ?c [0..<8], w'), m)"
    using read_bindings [of w s] by (auto simp: m_def)
  have t: "t = for_to BIND_COUNT (\<lambda>i s. key_bind_set i (map ?c [0..<8] ! i) (bit (?c 7) i) s) m"
    unfolding t_def adopt_bindings_def Let_def r prod.case ext by (simp add: BIND_COUNT_def)
  define I where "I = (\<lambda>k (u :: ('h, 'z) key_st_scheme). (\<forall>b<k. bind_code u b = ?c b \<and> bit (bind_ext u) b = bit (?c 7) b
      \<and> last_write KEYCFG_REG (\<lambda>v. drop_bit 9 v = bind_keycfg_id ! b) (outs u) = Some (key_word b u))
      \<and> bram u = bram s \<and> bram_addr u = bram_addr s + 2 \<and> host u = host s \<and> tds_log u = tds_log s
      \<and> key_st.more u = key_st.more s)"
  have "I BIND_COUNT t"
    unfolding t
  proof (rule for_to_inv)
    show "I 0 m" by (simp add: I_def m_def)
  next
    fix k u assume k: "k < BIND_COUNT" and I: "I k u"
    let ?u = "key_bind_set k (?c k) (bit (?c 7) k) u"
    have c: "map ?c [0..<8] ! k = ?c k" using k by (simp add: BIND_COUNT_def)
    have o: "outs ?u = outs u @ [(KEYCFG_REG, key_word k ?u)]" by (rule key_bind_set_obs(4) [OF k])
    have kw: "key_word b ?u = key_word b u" if "b < k" for b
      using key_word_other [of b k] that k by simp
    show "I (Suc k) (key_bind_set k (map ?c [0..<8] ! k) (bit (?c 7) k) u)"
      unfolding I_def c o last_write_snoc slot_key_word [OF k]
      using I k kw by (auto simp: I_def less_Suc_eq key_bind_set_obs(1,2) [OF k] keycfg_id_inj)
  qed
  then show "b < BIND_COUNT \<Longrightarrow> bind_code t b = ?c b" "b < BIND_COUNT \<Longrightarrow> bit (bind_ext t) b = bit (?c 7) b"
    "keys_agree t" "bram t = bram s" "bram_addr t = bram_addr s + 2"
    "host t = host s" "tds_log t = tds_log s" "key_st.more t = key_st.more s"
    by (auto simp: I_def keys_agree_def)
qed

section \<open>Pushing the settings\<close>

lemma last_write_append:
  "last_write r P (xs @ ys) = (case last_write r P ys of None \<Rightarrow> last_write r P xs | Some v \<Rightarrow> Some v)"
proof (induction ys rule: rev_induct)
  case Nil
  show ?case by (simp add: last_write_def)
next
  case (snoc y ys)
  obtain r' v where "y = (r', v)" by fastforce
  then show ?case using snoc
    by (simp add: append_assoc [symmetric] del: append_assoc)
qed

text \<open>The preset the D-pad setting selects, and the writes that install it.\<close>

definition dpad_index :: "int \<Rightarrow> nat" where
  "dpad_index v = (if v < 0 \<or> int DPAD_COUNT \<le> v then DPAD_NUMPAD else nat v)"

definition dpad_writes :: "nat \<Rightarrow> (mmio \<times> u32) list" where
  "dpad_writes p = concat (map (\<lambda>d. [(KEYCFG_REG, keycfg_word (of_nat d) (dpad_cardinal ! p ! d)),
     (KEYCFG_REG, keycfg_word (of_nat (11 + d)) (dpad_corner ! p ! d))]) [0..<4])"

lemma dpad_apply_eq: "dpad_apply v s = s\<lparr>outs := outs s @ dpad_writes (dpad_index v)\<rparr>"
proof -
  have "for_to n (\<lambda>d s. emit KEYCFG_REG (keycfg_word (of_nat (11 + d)) (dpad_corner ! p ! d))
             (emit KEYCFG_REG (keycfg_word (of_nat d) (dpad_cardinal ! p ! d)) s)) s
      = s\<lparr>outs := outs s @ concat (map (\<lambda>d. [(KEYCFG_REG, keycfg_word (of_nat d) (dpad_cardinal ! p ! d)),
          (KEYCFG_REG, keycfg_word (of_nat (11 + d)) (dpad_corner ! p ! d))]) [0..<n])\<rparr>" for n p
    by (induction n) (simp_all add: for_to_Suc emit_def)
  then show ?thesis by (simp add: dpad_apply_def dpad_index_def dpad_writes_def Let_def)
qed

lemma dpad_index_less: "dpad_index v < 6"
  by (auto simp: dpad_index_def DPAD_COUNT_def DPAD_NUMPAD_def)

lemma dpad_slots:
  assumes "p < 6" "d < 4"
  shows "drop_bit 9 (keycfg_word (of_nat d) (dpad_cardinal ! p ! d)) = of_nat d"
    "drop_bit 9 (keycfg_word (of_nat (11 + d)) (dpad_corner ! p ! d)) = of_nat (11 + d)"
proof -
  have "p \<in> {0, 1, 2, 3, 4, 5}" "d \<in> {0, 1, 2, 3}" using assms by auto
  then show "drop_bit 9 (keycfg_word (of_nat d) (dpad_cardinal ! p ! d)) = of_nat d"
    "drop_bit 9 (keycfg_word (of_nat (11 + d)) (dpad_corner ! p ! d)) = of_nat (11 + d)"
    by (auto simp: keycfg_word_def dpad_cardinal_def dpad_corner_def)
qed

definition push_writes :: "nat \<Rightarrow> u8 \<Rightarrow> (mmio \<times> u32) list" where
  "push_writes i v = (if i = SET_DPAD then dpad_writes (dpad_index (uint v))
     else [(SETTINGS_REG, push_bit 8 (of_nat i) OR ucast v)])"

lemma settings_push_eq: "settings_push i s = s\<lparr>outs := outs s @ push_writes i (set_value s i)\<rparr>"
  by (simp add: settings_push_def push_writes_def dpad_apply_eq emit_def)

lemma push_all_eq:
  "push_all s = s\<lparr>outs := outs s @ concat (map (\<lambda>i. push_writes i (set_value s i)) [0..<SET_COUNT])\<rparr>"
proof -
  have "for_to n settings_push s
      = s\<lparr>outs := outs s @ concat (map (\<lambda>i. push_writes i (set_value s i)) [0..<n])\<rparr>" for n
    by (induction n) (simp_all add: for_to_Suc settings_push_eq)
  then show ?thesis by (simp add: push_all_def)
qed

text \<open>The machine was last given exactly the live settings: every option register its index,
  every D-pad slot the preset's keys, every button slot its binding.\<close>

definition reg_word :: "nat \<Rightarrow> u8 \<Rightarrow> u32" where
  "reg_word i v = push_bit 8 (of_nat i) OR ucast v"

definition options_agree :: "(nat \<Rightarrow> bool) \<Rightarrow> (nat \<Rightarrow> u8) \<Rightarrow> (mmio \<times> u32) list \<Rightarrow> bool" where
  "options_agree A v tr \<longleftrightarrow> (\<forall>i<SET_COUNT. A i \<and> i \<noteq> SET_DPAD \<longrightarrow>
     last_write SETTINGS_REG (\<lambda>w. drop_bit 8 w = of_nat i) tr = Some (reg_word i (v i)))"

definition dpad_agrees :: "u8 \<Rightarrow> (mmio \<times> u32) list \<Rightarrow> bool" where
  "dpad_agrees v tr \<longleftrightarrow> (\<forall>d<4.
     last_write KEYCFG_REG (\<lambda>w. drop_bit 9 w = of_nat d) tr
       = Some (keycfg_word (of_nat d) (dpad_cardinal ! dpad_index (uint v) ! d))
     \<and> last_write KEYCFG_REG (\<lambda>w. drop_bit 9 w = of_nat (11 + d)) tr
       = Some (keycfg_word (of_nat (11 + d)) (dpad_corner ! dpad_index (uint v) ! d)))"

definition machine_agrees :: "('h, 'z) set_st_scheme \<Rightarrow> bool" where
  "machine_agrees s \<longleftrightarrow> keys_agree s \<and> options_agree (\<lambda>_. True) (set_value s) (outs s)
     \<and> dpad_agrees (set_value s SET_DPAD) (outs s)"

lemma reg_word_slot: "i < SET_COUNT \<Longrightarrow> drop_bit 8 (reg_word i v) = of_nat i"
proof -
  assume i: "i < SET_COUNT"
  have "drop_bit 8 (ucast v :: u32) = 0"
    by (rule bit_word_eqI) (auto simp: bit_simps dest: bit_imp_le_length)
  moreover have "drop_bit 8 (push_bit 8 (of_nat i :: u32)) = of_nat i"
  proof -
    have "i \<in> set [0..<21]" using i by (simp add: SET_COUNT_def)
    then show ?thesis by (simp add: upt_rec) auto
  qed
  ultimately show ?thesis by (simp add: reg_word_def)
qed

lemma small_of_nat_eq: "i < 2 ^ 16 \<Longrightarrow> j < 2 ^ 16 \<Longrightarrow> (of_nat i :: u32) = of_nat j \<longleftrightarrow> i = j"
  by (simp add: word_unat_eq_iff unat_of_nat)

lemma dpad_writes_regs:
  "last_write SETTINGS_REG P (dpad_writes p) = None"
  by (simp add: dpad_writes_def upt_rec last_write_def)

lemma options_agree_push:
  assumes "options_agree (\<lambda>i. i < k) v tr" "k < SET_COUNT"
  shows "options_agree (\<lambda>i. i < Suc k) v (tr @ push_writes k (v k))"
proof (cases "k = SET_DPAD")
  case True
  then show ?thesis using assms(1)
    by (auto simp: options_agree_def push_writes_def last_write_append dpad_writes_regs less_Suc_eq)
next
  case False
  have "push_writes k (v k) = [(SETTINGS_REG, reg_word k (v k))]"
    using False by (simp add: push_writes_def reg_word_def)
  then show ?thesis
    using assms by (auto simp: options_agree_def less_Suc_eq reg_word_slot small_of_nat_eq SET_COUNT_def)
qed

lemma options_agree_all:
  "options_agree (\<lambda>i. i < n) v (tr @ concat (map (\<lambda>i. push_writes i (v i)) [0..<n]))" if "n \<le> SET_COUNT"
  using that
proof (induction n)
  case 0
  then show ?case by (simp add: options_agree_def)
next
  case (Suc n)
  then show ?case
    using options_agree_push [of n v "tr @ concat (map (\<lambda>i. push_writes i (v i)) [0..<n])"] by simp
qed

text \<open>Only the D-pad's own push writes key-configuration slots.\<close>

lemma push_writes_keycfg:
  "i \<noteq> SET_DPAD \<Longrightarrow> last_write KEYCFG_REG P (push_writes i v) = None"
  by (simp add: push_writes_def last_write_def)

lemma concat_push_keycfg:
  "(\<And>i. i \<in> set is \<Longrightarrow> i \<noteq> SET_DPAD) \<Longrightarrow>
   last_write KEYCFG_REG P (concat (map (\<lambda>i. push_writes i (v i)) is)) = None"
proof (induction "is")
  case Nil
  show ?case by (simp add: last_write_def)
next
  case (Cons i "is")
  then show ?case by (simp add: last_write_append push_writes_keycfg)
qed

lemma push_all_keycfg:
  "last_write KEYCFG_REG P (tr @ concat (map (\<lambda>i. push_writes i (v i)) [0..<SET_COUNT]))
   = last_write KEYCFG_REG P (tr @ dpad_writes (dpad_index (uint (v SET_DPAD))))"
proof -
  have u: "[0..<SET_COUNT] = [0..<SET_DPAD] @ SET_DPAD # [Suc SET_DPAD..<SET_COUNT]"
    by (simp add: SET_COUNT_def SET_DPAD_def upt_rec)
  have "last_write KEYCFG_REG P (concat (map (\<lambda>i. push_writes i (v i)) [0..<SET_DPAD])) = None"
    "last_write KEYCFG_REG P (concat (map (\<lambda>i. push_writes i (v i)) [Suc SET_DPAD..<SET_COUNT])) = None"
    by (rule concat_push_keycfg; simp)+
  moreover have "push_writes SET_DPAD (v SET_DPAD) = dpad_writes (dpad_index (uint (v SET_DPAD)))"
    by (simp add: push_writes_def)
  ultimately show ?thesis unfolding u by (simp add: last_write_append split: option.split)
qed

lemma dpad_writes_slot:
  assumes "p < 6"
  shows "d < 4 \<Longrightarrow> last_write KEYCFG_REG (\<lambda>w. drop_bit 9 w = of_nat d) (tr @ dpad_writes p)
      = Some (keycfg_word (of_nat d) (dpad_cardinal ! p ! d))"
    and "d < 4 \<Longrightarrow> last_write KEYCFG_REG (\<lambda>w. drop_bit 9 w = of_nat (11 + d)) (tr @ dpad_writes p)
      = Some (keycfg_word (of_nat (11 + d)) (dpad_corner ! p ! d))"
    and "b < BIND_COUNT \<Longrightarrow> last_write KEYCFG_REG (\<lambda>w. drop_bit 9 w = bind_keycfg_id ! b) (tr @ dpad_writes p)
      = last_write KEYCFG_REG (\<lambda>w. drop_bit 9 w = bind_keycfg_id ! b) tr"
proof -
  have w: "tr @ dpad_writes p = tr @ [(KEYCFG_REG, keycfg_word (of_nat 0) (dpad_cardinal ! p ! 0)),
      (KEYCFG_REG, keycfg_word (of_nat (11 + 0)) (dpad_corner ! p ! 0)),
      (KEYCFG_REG, keycfg_word (of_nat 1) (dpad_cardinal ! p ! 1)),
      (KEYCFG_REG, keycfg_word (of_nat (11 + 1)) (dpad_corner ! p ! 1)),
      (KEYCFG_REG, keycfg_word (of_nat 2) (dpad_cardinal ! p ! 2)),
      (KEYCFG_REG, keycfg_word (of_nat (11 + 2)) (dpad_corner ! p ! 2)),
      (KEYCFG_REG, keycfg_word (of_nat 3) (dpad_cardinal ! p ! 3)),
      (KEYCFG_REG, keycfg_word (of_nat (11 + 3)) (dpad_corner ! p ! 3))]"
    by (simp add: dpad_writes_def upt_rec numeral_eq_Suc)
  note slots = dpad_slots [OF assms, of 0, simplified] dpad_slots [OF assms, of 1, simplified]
    dpad_slots [OF assms, of 2, simplified] dpad_slots [OF assms, of 3, simplified]
  show "d < 4 \<Longrightarrow> last_write KEYCFG_REG (\<lambda>w. drop_bit 9 w = of_nat d) (tr @ dpad_writes p)
      = Some (keycfg_word (of_nat d) (dpad_cardinal ! p ! d))"
    and "d < 4 \<Longrightarrow> last_write KEYCFG_REG (\<lambda>w. drop_bit 9 w = of_nat (11 + d)) (tr @ dpad_writes p)
      = Some (keycfg_word (of_nat (11 + d)) (dpad_corner ! p ! d))"
  proof -
    assume "d < 4"
    then have "d = 0 \<or> d = 1 \<or> d = 2 \<or> d = 3" by linarith
    then show "last_write KEYCFG_REG (\<lambda>w. drop_bit 9 w = of_nat d) (tr @ dpad_writes p)
        = Some (keycfg_word (of_nat d) (dpad_cardinal ! p ! d))"
      "last_write KEYCFG_REG (\<lambda>w. drop_bit 9 w = of_nat (11 + d)) (tr @ dpad_writes p)
        = Some (keycfg_word (of_nat (11 + d)) (dpad_corner ! p ! d))"
      unfolding w by (elim disjE; simp add: last_write_def slots)+
  qed
  assume "b < BIND_COUNT"
  then have "b \<in> {0, 1, 2, 3, 4, 5, 6}" by (auto simp: BIND_COUNT_def)
  then show "last_write KEYCFG_REG (\<lambda>w. drop_bit 9 w = bind_keycfg_id ! b) (tr @ dpad_writes p)
      = last_write KEYCFG_REG (\<lambda>w. drop_bit 9 w = bind_keycfg_id ! b) tr"
    unfolding w by (elim insertE emptyE) (simp_all add: last_write_def slots bind_keycfg_id_def)
qed

lemma push_all_agrees:
  assumes "keys_agree s"
  shows "machine_agrees (push_all s)"
proof -
  note e = push_all_eq [of s]
  have o: "options_agree (\<lambda>_. True) (set_value s) (outs (push_all s))"
    using options_agree_all [of SET_COUNT "set_value s" "outs s"] by (simp add: e options_agree_def)
  have k: "key_word b (push_all s) = key_word b s" for b
    by (rule key_word_cong) (simp_all add: e)
  have ob: "outs (push_all s) = outs s @ concat (map (\<lambda>i. push_writes i (set_value s i)) [0..<SET_COUNT])"
    by (simp add: e)
  have "keys_agree (push_all s)"
    using assms unfolding keys_agree_def k ob push_all_keycfg
    by (simp add: dpad_writes_slot(3) [OF dpad_index_less])
  moreover have "dpad_agrees (set_value s SET_DPAD) (outs (push_all s))"
    unfolding dpad_agrees_def ob push_all_keycfg
    using dpad_writes_slot(1,2) [OF dpad_index_less] by blast
  ultimately show ?thesis using o by (simp add: machine_agrees_def e)
qed

section \<open>What adopting, defaulting and saving leave alone\<close>

text \<open>The rest of the machine, and the store's own bookkeeping.\<close>

definition store_frame :: "('h, 'z) set_st_scheme \<Rightarrow> ('h, 'z) set_st_scheme \<Rightarrow> bool" where
  "store_frame s t \<longleftrightarrow> host t = host s \<and> tds_log t = tds_log s \<and> dtbl t = dtbl s \<and> fdd t = fdd s
     \<and> scsi t = scsi s \<and> opna t = opna s \<and> fdd_request t = fdd_request s
     \<and> set_st.more t = set_st.more s"

lemma store_frame_refl [simp]: "store_frame s s"
  by (simp add: store_frame_def)

lemma store_frame_trans: "store_frame s t \<Longrightarrow> store_frame t u \<Longrightarrow> store_frame s u"
  by (simp add: store_frame_def)

definition book :: "('h, 'z) set_st_scheme \<Rightarrow>
    (nat \<Rightarrow> u8) \<times> bool \<times> bool \<times> u32 \<times> int \<times> u8" where
  "book s = (settings_default s, dirty s, have_table s, disk_hash s, disk_slot s, evict_i s)"

lemma key_set_frame:
  fixes s :: "('h, 'z) set_st_scheme"
  shows "set_value (key_bind_set b c e s) = set_value s" "book (key_bind_set b c e s) = book s"
    "store_frame s (key_bind_set b c e s)"
  by (simp_all add: key_bind_set_def key_push_eq emit_def book_def store_frame_def)

lemma adopt_bindings_frame:
  fixes s :: "('h, 'z) set_st_scheme"
  shows "set_value (adopt_bindings w s) = set_value s" "book (adopt_bindings w s) = book s"
    "store_frame s (adopt_bindings w s)"
proof -
  obtain w' where r: "for_to (BIND_COUNT + 1) read_binding (([], w), s)
      = ((map (stored (bram s) (bram_addr s)) [0..<8], w'), s\<lparr>bram_addr := bram_addr s + 2\<rparr>)"
    using read_bindings by blast
  have "set_value (for_to n (\<lambda>i s. key_bind_set i (c i) (e i) s) m) = set_value m
      \<and> book (for_to n (\<lambda>i s. key_bind_set i (c i) (e i) s) m) = book m
      \<and> store_frame m (for_to n (\<lambda>i s. key_bind_set i (c i) (e i) s) m)" for n c e and m :: "('h, 'z) set_st_scheme"
    by (induction n) (auto simp: for_to_Suc key_set_frame intro: store_frame_trans)
  then show "set_value (adopt_bindings w s) = set_value s" "book (adopt_bindings w s) = book s"
    "store_frame s (adopt_bindings w s)"
    unfolding adopt_bindings_def r Let_def prod.case
    by (simp_all add: book_def store_frame_def)
qed

lemma push_all_frame:
  "set_value (push_all s) = set_value s" "book (push_all s) = book s" "store_frame s (push_all s)"
  "bram (push_all s) = bram s" "bind_code (push_all s) = bind_code s" "bind_ext (push_all s) = bind_ext s"
  by (simp_all add: push_all_eq book_def store_frame_def)

lemma block_apply_obs:
  fixes s :: "('h, 'z) set_st_scheme" and addr count :: nat
  defines "t \<equiv> block_apply addr count s"
  shows "set_value t = adopted (bram s) (of_nat addr) count (set_value s)"
    and "b < BIND_COUNT \<Longrightarrow> bind_code t b = stored (bram s) (of_nat addr + of_nat ((count + 3) div 4)) b"
    and "b < BIND_COUNT \<Longrightarrow> bit (bind_ext t) b = bit (stored (bram s) (of_nat addr + of_nat ((count + 3) div 4)) 7) b"
    and "machine_agrees t" and "bram t = bram s" and "book t = book s" and "store_frame s t"
proof -
  let ?s = "s\<lparr>bram_addr := of_nat addr\<rparr>"
  obtain w where a: "for_to count adopt_value (0, ?s) =
     (w, ?s\<lparr>bram_addr := of_nat addr + of_nat ((count + 3) div 4),
            set_value := adopted (bram s) (of_nat addr) count (set_value s)\<rparr>)"
    using adopt_values [of count ?s] by auto
  define m where "m = ?s\<lparr>bram_addr := of_nat addr + of_nat ((count + 3) div 4),
            set_value := adopted (bram s) (of_nat addr) count (set_value s)\<rparr>"
  have t: "t = push_all (adopt_bindings w m)"
    unfolding t_def block_apply_def Let_def bram_port_eqs a m_def by simp
  note b = adopt_bindings_obs [where w = w and s = m] and f = adopt_bindings_frame [where w = w and s = m] and p = push_all_frame
  show "set_value t = adopted (bram s) (of_nat addr) count (set_value s)"
    by (simp add: t p f(1)) (simp add: m_def)
  show "b < BIND_COUNT \<Longrightarrow> bind_code t b = stored (bram s) (of_nat addr + of_nat ((count + 3) div 4)) b"
    "b < BIND_COUNT \<Longrightarrow> bit (bind_ext t) b = bit (stored (bram s) (of_nat addr + of_nat ((count + 3) div 4)) 7) b"
    by (simp_all add: t p b(1,2), simp_all add: m_def)
  show "machine_agrees t" unfolding t by (rule push_all_agrees) (rule b(3))
  show "bram t = bram s" by (simp add: t p b(4)) (simp add: m_def)
  show "book t = book s" by (simp add: t p f(2)) (simp add: m_def book_def)
  have "store_frame s m" by (simp add: m_def store_frame_def)
  then show "store_frame s t" unfolding t using f(3) p(3) store_frame_trans by blast
qed

text \<open>The key reset in closed form: seven writes, all to button slots.\<close>

definition reset_writes :: "(mmio \<times> u32) list" where
  "reset_writes = [(KEYCFG_REG, 0x85A), (KEYCFG_REG, 0xA11), (KEYCFG_REG, 0xC29), (KEYCFG_REG, 0xE14),
     (KEYCFG_REG, 0x1400), (KEYCFG_REG, 0x1000), (KEYCFG_REG, 0x1200)]"

lemma key_bind_reset_eq:
  "key_bind_reset s = s\<lparr>bind_ext := 0, outs := outs s @ reset_writes,
     bind_code := (bind_code s)(0 := 0x5A, 1 := 0x11, 2 := 0x29, 3 := 0x14, 4 := 0, 5 := 0xF1, 6 := 0)\<rparr>"
  unfolding key_bind_reset_def BIND_COUNT_def
  by (simp add: key_push_def Let_def emit_def bind_keycfg_id_def bind_default_def BIND_FN_FIRST_def
      reset_writes_def)

lemma reset_writes_other:
  "last_write SETTINGS_REG P (reset_writes) = None"
  "d < 4 \<Longrightarrow> last_write KEYCFG_REG (\<lambda>w. drop_bit 9 w = of_nat d) reset_writes = None"
  "d < 4 \<Longrightarrow> last_write KEYCFG_REG (\<lambda>w. drop_bit 9 w = of_nat (11 + d)) reset_writes = None"
proof -
  show "last_write SETTINGS_REG P reset_writes = None" by (simp add: last_write_def reset_writes_def)
  assume "d < 4"
  then have "d = 0 \<or> d = 1 \<or> d = 2 \<or> d = 3" by linarith
  then show "last_write KEYCFG_REG (\<lambda>w. drop_bit 9 w = of_nat d) reset_writes = None"
    "last_write KEYCFG_REG (\<lambda>w. drop_bit 9 w = of_nat (11 + d)) reset_writes = None"
    by (elim disjE; simp add: last_write_def reset_writes_def)+
qed

lemma apply_defaults_obs:
  fixes s :: "('h, 'z) set_st_scheme"
  defines "t \<equiv> apply_defaults s"
  shows "set_value t = (\<lambda>i. if i < SET_COUNT then settings_default s i else set_value s i)"
    and "b < BIND_COUNT \<Longrightarrow> bind_code t b = bind_default ! b" and "bind_ext t = 0"
    and "machine_agrees t" and "bram t = bram s" and "book t = book s" and "store_frame s t"
proof -
  define d where "d = (\<lambda>n i. if i < n then settings_default s i else set_value s i)"
  define m where "m = (\<lambda>n. s\<lparr>set_value := d n, outs := outs s @ concat (map (\<lambda>i. push_writes i (settings_default s i)) [0..<n])\<rparr>)"
  have run: "for_to n (\<lambda>i s. settings_push i (s\<lparr>set_value := (set_value s)(i := settings_default s i)\<rparr>)) s = m n" for n
    by (induction n) (auto simp: for_to_Suc settings_push_eq m_def d_def fun_eq_iff less_Suc_eq)
  have t: "t = key_bind_reset (m SET_COUNT)" by (simp add: t_def apply_defaults_def run)
  note e = key_bind_reset_eq [of "m SET_COUNT"] and r = key_bind_reset_obs [where s = "m SET_COUNT"]
  show sv: "set_value t = (\<lambda>i. if i < SET_COUNT then settings_default s i else set_value s i)"
    by (simp add: t e) (simp add: m_def d_def)
  show "b < BIND_COUNT \<Longrightarrow> bind_code t b = bind_default ! b" "bind_ext t = 0" using r(2,3) by (simp_all add: t)
  show "bram t = bram s" "book t = book s" "store_frame s t"
    by (simp_all add: t e) (simp_all add: m_def book_def store_frame_def)
  have ov: "outs t = outs s @ concat (map (\<lambda>i. push_writes i (set_value t i)) [0..<SET_COUNT]) @ reset_writes"
    unfolding t e by (simp add: m_def, intro arg_cong [where f = concat] map_cong) (auto simp: d_def)
  have "options_agree (\<lambda>_. True) (set_value t) (outs t)"
    using options_agree_all [of SET_COUNT "set_value t" "outs s"]
    by (simp add: ov options_agree_def last_write_append [of _ _ _ reset_writes] reset_writes_other
        append_assoc [symmetric] del: append_assoc)
  moreover have "dpad_agrees (set_value t SET_DPAD) (outs t)"
    unfolding dpad_agrees_def ov append_assoc [symmetric] last_write_append [of _ _ _ reset_writes]
    using dpad_writes_slot(1,2) [OF dpad_index_less] by (simp add: reset_writes_other push_all_keycfg del: of_nat_add)
  ultimately show "machine_agrees t" using r(1) by (simp add: machine_agrees_def t)
qed

end
