(* ===== verification/Profile_Table.thy ===== *)
theory Profile_Table
  imports Settings_Correct
begin

text \<open>
  The per-disk table as what it stands for: a finite map from image hashes to saved profiles.
  \<open>profile_table\<close> is the interface (find a slot, put a profile into it, read it back) with the
  laws the settings code relies on; it is interpreted on the words of the save window, with
  \<open>table_find\<close>, \<open>table_alloc\<close>, the save of \<open>settings_service\<close> and \<open>block_apply\<close> shown to be
  its operations.
\<close>

section \<open>The interface\<close>

locale profile_table =
  fixes locate :: "'m \<Rightarrow> 'k \<Rightarrow> nat option" and put :: "nat \<Rightarrow> 'k \<Rightarrow> 'p \<Rightarrow> 'm \<Rightarrow> 'm"
    and get :: "'m \<Rightarrow> nat \<Rightarrow> 'p" and slots :: nat and ok :: "'p \<Rightarrow> bool"
  assumes locate_bound: "locate m k = Some e \<Longrightarrow> e < slots"
    and locate_put: "e < slots \<Longrightarrow> ok p \<Longrightarrow> locate m k = None \<or> locate m k = Some e \<Longrightarrow>
      locate (put e k p m) k = Some e"
    and locate_put_other: "e < slots \<Longrightarrow> ok p \<Longrightarrow> k' \<noteq> k \<Longrightarrow> locate m k' = Some e' \<Longrightarrow> e' \<noteq> e \<Longrightarrow>
      locate (put e k p m) k' = Some e'"
    and get_put: "e < slots \<Longrightarrow> ok p \<Longrightarrow> get (put e k p m) e = p"
    and get_put_other: "e < slots \<Longrightarrow> ok p \<Longrightarrow> e' < slots \<Longrightarrow> e' \<noteq> e \<Longrightarrow> get (put e k p m) e' = get m e'"
begin

definition lookup :: "'m \<Rightarrow> 'k \<Rightarrow> 'p option" where
  "lookup m k = map_option (get m) (locate m k)"

lemma lookup_put:
  "e < slots \<Longrightarrow> ok p \<Longrightarrow> locate m k = None \<or> locate m k = Some e \<Longrightarrow> lookup (put e k p m) k = Some p"
  using locate_put [of e p m k] by (auto simp: lookup_def get_put)

lemma lookup_put_other:
  assumes "e < slots" "ok p" "k' \<noteq> k" "locate m k' = Some e'" "e' \<noteq> e"
  shows "lookup (put e k p m) k' = lookup m k'"
  using assms locate_put_other [of e p k' k m e'] locate_bound [of m k' e']
  by (simp add: lookup_def get_put_other)

text \<open>A profile survives every sequence of saves of other disks into other slots.\<close>

lemma lookup_puts:
  assumes "locate m k = Some e"
    and "\<And>e' k' p. (e', k', p) \<in> set ps \<Longrightarrow> e' < slots \<and> ok p \<and> k' \<noteq> k \<and> e' \<noteq> e"
  shows "locate (fold (\<lambda>(e', k', p). put e' k' p) ps m) k = Some e
       \<and> lookup (fold (\<lambda>(e', k', p). put e' k' p) ps m) k = lookup m k"
  using assms
proof (induction ps arbitrary: m)
  case Nil
  then show ?case by simp
next
  case (Cons x ps)
  obtain e' k' p where x: "x = (e', k', p)" by (cases x) auto
  have c: "e' < slots" "ok p" "k \<noteq> k'" "e \<noteq> e'" using Cons.prems(2) [of e' k' p] x by auto
  have l: "locate (put e' k' p m) k = Some e" using locate_put_other [OF c(1,2,3) Cons.prems(1) c(4)] .
  have "lookup (put e' k' p m) k = lookup m k" using lookup_put_other [OF c(1,2,3) Cons.prems(1) c(4)] .
  then show ?case using Cons.IH [OF l] Cons.prems(2) x by auto
qed

end

section \<open>Window words by number\<close>

lemma unat_of_nat_sub:
  assumes "i < 1024" "j < 1024"
  shows "unat (of_nat i - of_nat j :: 10 word) = (if j \<le> i then i - j else 1024 + i - j)"
  using assms by (cases "j \<le> i") (simp_all add: unat_sub_if_size word_size word_le_nat_alt unat_of_nat)

lemma mem_put_at:
  assumes "i < 1024" "j < 1024" "j + length bs \<le> 1024"
  shows "mem_put m (of_nat j :: 10 word) bs (of_nat i)
    = (if j \<le> i \<and> i < j + length bs then bs ! (i - j) else m (of_nat i))"
  using assms unat_of_nat_sub [OF assms(1,2)] by (auto simp: mem_put_def)

lemma bram_of_nat: "\<exists>i<1024. (a :: 10 word) = of_nat i"
  by (rule exI [of _ "unat a"]) (use unsigned_less [of a] in simp)

section \<open>The table in the save window\<close>

definition entry_tag :: "bram \<Rightarrow> nat \<Rightarrow> u32 \<Rightarrow> bool" where
  "entry_tag m e h \<longleftrightarrow> m (of_nat (entry_word e)) = h \<and> m (of_nat (Suc (entry_word e))) = NOT h"

definition lookup_slot :: "bram \<Rightarrow> u32 \<Rightarrow> nat option" where
  "lookup_slot m h = find (\<lambda>e. entry_tag m e h) [0..<ENTRY_COUNT]"

definition put_entry :: "nat \<Rightarrow> u32 \<Rightarrow> u32 list \<Rightarrow> bram \<Rightarrow> bram" where
  "put_entry e h ws m = mem_put m (of_nat (entry_word e)) (h # NOT h # ws)"

definition entry_block :: "bram \<Rightarrow> nat \<Rightarrow> u32 list" where
  "entry_block m e = cells m (of_nat (entry_word e + 2)) BLOCK_WORDS"

lemma entry_word_eq: "entry_word e = 139 + 10 * e"
  by (simp add: entry_word_def layout_simps)

lemma put_entry_at:
  assumes "e < ENTRY_COUNT" "length ws = 8" "i < 1024"
  shows "put_entry e h ws m (of_nat i) =
    (if entry_word e \<le> i \<and> i < entry_word e + 10 then (h # NOT h # ws) ! (i - entry_word e) else m (of_nat i))"
proof -
  have "entry_word e < 1024" "entry_word e + length (h # NOT h # ws) \<le> 1024"
    using assms by (simp_all add: entry_word_eq layout_simps)
  from mem_put_at [OF assms(3) this] show ?thesis using assms(2) by (simp add: put_entry_def)
qed

lemma entry_tag_put:
  assumes "e < ENTRY_COUNT" "length ws = 8" "e' < ENTRY_COUNT"
  shows "entry_tag (put_entry e h ws m) e' k \<longleftrightarrow> (if e' = e then h = k else entry_tag m e' k)"
proof -
  have b: "entry_word e' < 1024" "Suc (entry_word e') < 1024"
    using assms by (simp_all add: entry_word_eq layout_simps)
  have o: "\<not> (entry_word e \<le> entry_word e' \<and> entry_word e' < entry_word e + 10)"
    "\<not> (entry_word e \<le> Suc (entry_word e') \<and> Suc (entry_word e') < entry_word e + 10)" if "e' \<noteq> e"
    using that unfolding entry_word_eq by presburger+
  show ?thesis
  proof (cases "e' = e")
    case True
    then show ?thesis using b by (simp add: entry_tag_def put_entry_at [OF assms(1,2)] del: of_nat_Suc)
  next
    case False
    show ?thesis
      unfolding entry_tag_def put_entry_at [OF assms(1,2) b(1)] put_entry_at [OF assms(1,2) b(2)]
        if_not_P [OF o(1) [OF False]] if_not_P [OF o(2) [OF False]] if_not_P [OF False] ..
  qed
qed

lemma entry_block_put:
  assumes "e < ENTRY_COUNT" "length ws = 8" "e' < ENTRY_COUNT"
  shows "entry_block (put_entry e h ws m) e' = (if e' = e then ws else entry_block m e')"
proof (rule nth_equalityI)
  show "length (entry_block (put_entry e h ws m) e') = length (if e' = e then ws else entry_block m e')"
    using assms by (simp add: entry_block_def layout_simps)
next
  fix i assume "i < length (entry_block (put_entry e h ws m) e')"
  then have i: "i < 8" by (simp add: entry_block_def layout_simps)
  have w: "entry_word e' + 2 + i < 1024" using assms i by (simp add: entry_word_eq layout_simps)
  have n: "entry_block mm e' ! i = mm (of_nat (entry_word e' + 2 + i))" for mm
    using i by (simp add: entry_block_def layout_simps add.assoc)
  show "entry_block (put_entry e h ws m) e' ! i = (if e' = e then ws else entry_block m e') ! i"
  proof (cases "e' = e")
    case True
    then show ?thesis using i assms unfolding n put_entry_at [OF assms(1,2) w] by simp
  next
    case False
    then have "\<not> (entry_word e \<le> entry_word e' + 2 + i \<and> entry_word e' + 2 + i < entry_word e + 10)"
      using i unfolding entry_word_eq by presburger
    then show ?thesis
      by (simp only: n put_entry_at [OF assms(1,2) w] if_not_P [OF False] if_False)
  qed
qed

lemma find_upt_Some:
  "find P [0..<n] = Some e \<longleftrightarrow> e < n \<and> P e \<and> (\<forall>i<e. \<not> P i)"
  by (auto simp: find_Some_iff)

lemma lookup_slot_bound: "lookup_slot m h = Some e \<Longrightarrow> e < ENTRY_COUNT"
  by (simp add: lookup_slot_def find_upt_Some)

text \<open>Lookups and entries are decided by the save window alone.\<close>

lemma lookup_slot_cong:
  assumes "\<And>i. 128 \<le> i \<Longrightarrow> i < 256 \<Longrightarrow> m' (of_nat i) = m (of_nat i)"
  shows "lookup_slot m' h = lookup_slot m h"
proof -
  have "entry_tag m' e h = entry_tag m e h" if "e < ENTRY_COUNT" for e
    using that assms by (simp add: entry_tag_def entry_word_eq layout_simps del: of_nat_add of_nat_Suc)
  then show ?thesis unfolding lookup_slot_def by (intro find_cong) auto
qed

lemma entry_block_cong:
  assumes "\<And>i. 128 \<le> i \<Longrightarrow> i < 256 \<Longrightarrow> m' (of_nat i) = m (of_nat i)" and "e < ENTRY_COUNT"
  shows "entry_block m' e = entry_block m e"
proof (rule nth_equalityI)
  fix i assume "i < length (entry_block m' e)"
  then have i: "i < 8" by (simp add: entry_block_def layout_simps)
  have n: "entry_block mm e ! i = mm (of_nat (entry_word e + 2 + i))" for mm
    using i by (simp add: entry_block_def layout_simps add_ac)
  show "entry_block m' e ! i = entry_block m e ! i"
    unfolding n by (rule assms(1)) (use i assms(2) in \<open>simp_all add: entry_word_eq layout_simps\<close>)
qed (simp add: entry_block_def)

interpretation disk_table: profile_table lookup_slot put_entry entry_block ENTRY_COUNT "\<lambda>ws. length ws = 8"
proof
  fix m :: bram and h k h' :: u32 and e e' :: nat and ws :: "u32 list"
  show "lookup_slot m h = Some e \<Longrightarrow> e < ENTRY_COUNT" by (rule lookup_slot_bound)
  assume c: "e < ENTRY_COUNT" "length ws = 8"
  note t = entry_tag_put [OF c]
  show "lookup_slot (put_entry e h ws m) h = Some e" if "lookup_slot m h = None \<or> lookup_slot m h = Some e"
    using that c(1) by (auto simp: lookup_slot_def find_upt_Some find_None_iff t)
  show "lookup_slot (put_entry e h ws m) k = Some e'" if "k \<noteq> h" "lookup_slot m k = Some e'" "e' \<noteq> e"
    using that c(1) by (auto simp: lookup_slot_def find_upt_Some t)
  show "entry_block (put_entry e h ws m) e = ws" by (simp add: entry_block_put [OF c c(1)])
  show "entry_block (put_entry e h ws m) e' = entry_block m e'" if "e' < ENTRY_COUNT" "e' \<noteq> e"
    using that by (simp add: entry_block_put [OF c])
qed


section \<open>The table operations of the firmware\<close>

definition slot_int :: "nat option \<Rightarrow> int" where
  "slot_int f = (case f of None \<Rightarrow> -1 | Some e \<Rightarrow> int e)"

lemma slot_int_simps [simp]: "slot_int None = -1" "slot_int (Some e) = int e"
  by (simp_all add: slot_int_def)

lemma slot_int_cases: "slot_int f = i \<Longrightarrow> (i < 0 \<and> f = None) \<or> (0 \<le> i \<and> f = Some (nat i))"
  by (auto simp: slot_int_def split: option.splits)

lemma table_find_from_eq:
  "\<exists>a. table_find_from h es s =
     (slot_int (find (\<lambda>e. entry_tag (bram s) e h) es), s\<lparr>bram_addr := a\<rparr>)"
proof (induction es arbitrary: s)
  case Nil
  show ?case by (simp add: exI [of _ "bram_addr s"])
next
  case (Cons e es)
  let ?s = "s\<lparr>bram_addr := of_nat (entry_word e) + 2\<rparr>"
  have n: "(of_nat (Suc n) :: 10 word) = of_nat n + 1" for n by simp
  obtain a where "table_find_from h es ?s = (slot_int (find (\<lambda>e. entry_tag (bram ?s) e h) es), ?s\<lparr>bram_addr := a\<rparr>)"
    using Cons.IH by blast
  then show ?case
    by (cases "entry_tag (bram s) e h") (auto simp: bram_port_eqs entry_tag_def n Let_def algebra_simps)
qed

lemma table_find_eq:
  "\<exists>a. table_find h s =
     (if have_table s then slot_int (lookup_slot (bram s) h) else -1, s\<lparr>bram_addr := a\<rparr>)"
  using table_find_from_eq [of h "[0..<ENTRY_COUNT]" s]
  by (auto simp: table_find_def lookup_slot_def exI [of _ "bram_addr s"])

definition free_at :: "bram \<Rightarrow> nat \<Rightarrow> bool" where
  "free_at m e \<longleftrightarrow> m (of_nat (entry_word e)) = 0
     \<or> m (of_nat (Suc (entry_word e))) \<noteq> NOT (m (of_nat (entry_word e)))"

lemma alloc_probe_eq:
  "alloc_probe e (f, t) = (if f < 0 \<and> free_at (bram t) e then int e else f,
     t\<lparr>bram_addr := of_nat (entry_word e) + 2\<rparr>)"
  by (simp add: alloc_probe_def bram_port_eqs free_at_def Let_def add.commute)

lemma alloc_probes:
  "\<exists>a. for_to n alloc_probe (-1, s) = (slot_int (find (free_at (bram s)) [0..<n]), s\<lparr>bram_addr := a\<rparr>)"
proof (induction n)
  case 0
  show ?case by (simp add: exI [of _ "bram_addr s"])
next
  case (Suc n)
  then obtain a where "for_to n alloc_probe (-1, s)
      = (slot_int (find (free_at (bram s)) [0..<n]), s\<lparr>bram_addr := a\<rparr>)" by blast
  moreover have "find P (xs @ [x]) = (case find P xs of None \<Rightarrow> if P x then Some x else None | Some y \<Rightarrow> Some y)"
    for P :: "nat \<Rightarrow> bool" and xs x by (induction xs) auto
  ultimately show ?case
    by (auto simp: for_to_Suc alloc_probe_eq split: option.split)
qed

lemma table_alloc_eq:
  assumes "evict_i s < of_nat ENTRY_COUNT"
  shows "\<exists>e a ev. table_alloc s = (int e, s\<lparr>bram_addr := a, evict_i := ev\<rparr>)
    \<and> e < ENTRY_COUNT \<and> ev < of_nat ENTRY_COUNT
    \<and> ((\<exists>f<ENTRY_COUNT. free_at (bram s) f) \<longrightarrow> free_at (bram s) e)"
proof -
  obtain a where a: "for_to ENTRY_COUNT alloc_probe (-1, s)
      = (slot_int (find (free_at (bram s)) [0..<ENTRY_COUNT]), s\<lparr>bram_addr := a\<rparr>)"
    using alloc_probes by blast
  show ?thesis
  proof (cases "find (free_at (bram s)) [0..<ENTRY_COUNT]")
    case (Some e)
    have "table_alloc s = (int e, s\<lparr>bram_addr := a, evict_i := evict_i s\<rparr>)"
      using Some by (simp add: table_alloc_def a)
    moreover have "e < ENTRY_COUNT" "free_at (bram s) e" using Some by (simp_all add: find_upt_Some)
    ultimately show ?thesis using assms by blast
  next
    case None
    have u: "unat (evict_i s) < 11" using assms by (simp add: word_less_nat_alt layout_simps)
    define ev where "ev = (if int ENTRY_COUNT \<le> uint (evict_i s) + 1 then 0 else evict_i s + 1)"
    obtain n where n: "unat (evict_i s) = n" "uint (evict_i s) = int n" by (simp add: uint_nat)
    have "unat (evict_i s + 1) = unat (evict_i s) + 1" using u by (simp add: unat_word_ariths)
    then have "ev < of_nat ENTRY_COUNT"
      using u n by (auto simp: ev_def layout_simps word_less_nat_alt)
    moreover have "table_alloc s = (int (unat (evict_i s)), s\<lparr>bram_addr := a, evict_i := ev\<rparr>)"
      using None by (simp add: table_alloc_def a ev_def)
    moreover have "unat (evict_i s) < ENTRY_COUNT" using u by (simp add: layout_simps)
    moreover have "\<not> (\<exists>f<ENTRY_COUNT. free_at (bram s) f)" using None by (auto simp: find_None_iff)
    ultimately show ?thesis by blast
  qed
qed

definition claimed :: "bram \<Rightarrow> bram" where
  "claimed m = mem_put m (of_nat TABLE_WORD) (TABLE_MAGIC # replicate (ENTRY_COUNT * ENTRY_WORDS) 0)"

lemma claim_table_eq:
  "\<exists>a. claim_table s = s\<lparr>bram := if have_table s then bram s else claimed (bram s), have_table := True,
     bram_addr := a\<rparr>"
proof (cases "have_table s")
  case True
  then have "claim_table s = s\<lparr>bram := bram s, have_table := True, bram_addr := bram_addr s\<rparr>"
    by (cases s) (simp add: claim_table_def)
  then show ?thesis unfolding if_P [OF True] by (rule exI)
next
  case False
  let ?m = "s\<lparr>have_table := True, bram := mem_put (bram s) (of_nat TABLE_WORD) [TABLE_MAGIC],
     bram_addr := of_nat TABLE_WORD + 1\<rparr>"
  have "claim_table s = bram_writes (replicate (ENTRY_COUNT * ENTRY_WORDS) 0) ?m"
    using False by (simp add: claim_table_def bram_port_eqs)
  also have "\<dots> = ?m\<lparr>bram := claimed (bram s), bram_addr := of_nat TABLE_WORD + 1 + 110\<rparr>"
    by (subst bram_writes_eq)
      (use mem_put_append [of "[TABLE_MAGIC]" "replicate 110 0" "bram s" "of_nat TABLE_WORD"] in
        \<open>simp_all add: layout_simps claimed_def\<close>)
  finally have "claim_table s = s\<lparr>bram := claimed (bram s), have_table := True, bram_addr := of_nat TABLE_WORD + 1 + 110\<rparr>"
    by (cases s) simp
  then show ?thesis unfolding if_not_P [OF False] by (rule exI)
qed

text \<open>The window word by word after a claim: a blank table.\<close>

lemma claimed_at:
  "i < 1024 \<Longrightarrow> claimed m (of_nat i) =
     (if i = 138 then TABLE_MAGIC else if 139 \<le> i \<and> i < 249 then 0 else m (of_nat i))"
proof -
  assume i: "i < 1024"
  have "claimed m (of_nat i) = (if 138 \<le> i \<and> i < 249
      then (TABLE_MAGIC # replicate 110 0) ! (i - 138) else m (of_nat i))"
    unfolding claimed_def
    using mem_put_at [OF i, of 138 "TABLE_MAGIC # replicate 110 0" m] by (simp add: layout_simps)
  then show ?thesis by (auto simp: nth_Cons')
qed

lemma lookup_claimed [simp]: "lookup_slot (claimed m) h = None"
proof -
  have "\<not> entry_tag (claimed m) e h" if "e < ENTRY_COUNT" for e
  proof
    assume t: "entry_tag (claimed m) e h"
    have b: "entry_word e < 1024" "Suc (entry_word e) < 1024"
      and z: "139 \<le> entry_word e" "Suc (entry_word e) < 249"
      using that by (simp_all add: entry_word_eq layout_simps)
    have "claimed m (of_nat (entry_word e)) = 0" "claimed m (of_nat (Suc (entry_word e))) = 0"
      unfolding claimed_at [OF b(1)] claimed_at [OF b(2)] using z by simp_all
    then have "(0 :: u32) = NOT 0" using t unfolding entry_tag_def by simp
    then show False by simp
  qed
  then show ?thesis by (auto simp: lookup_slot_def find_None_iff)
qed

end
