(* ===== verification/Settings_Profiles.thy ===== *)
theory Settings_Profiles
  imports Profile_Table
begin

text \<open>
  Saving and following drive A over the profile table: what \<open>settings_service\<close> writes, what
  \<open>settings_disk_mounted\<close> and \<open>settings_load\<close> make of the window, the invariants of the store,
  and the profile a disk gets back.
\<close>

section \<open>Invariants of the store\<close>

text \<open>Every live value, and every compiled default, is an option its row has.\<close>

definition options_ok :: "(nat \<Rightarrow> u8) \<Rightarrow> bool" where
  "options_ok v \<longleftrightarrow> (\<forall>i<SET_COUNT. v i < set_count i)"

text \<open>A live table carries its magic, and the cached slot is the one a search would find.\<close>

definition slot_inv :: "('h, 'z) set_st_scheme \<Rightarrow> bool" where
  "slot_inv s \<longleftrightarrow> evict_i s < of_nat ENTRY_COUNT
     \<and> (have_table s \<longrightarrow> bram s (of_nat TABLE_WORD) = TABLE_MAGIC)
     \<and> (0 \<le> disk_slot s \<longrightarrow> have_table s \<and> lookup_slot (bram s) (disk_hash s) = Some (nat (disk_slot s)))"

definition store_inv :: "('h, 'z) set_st_scheme \<Rightarrow> bool" where
  "store_inv s \<longleftrightarrow> slot_inv s \<and> options_ok (set_value s) \<and> options_ok (settings_default s)"

lemma slot_invD:
  assumes "slot_inv s" "0 \<le> disk_slot s"
  shows "have_table s" "lookup_slot (bram s) (disk_hash s) = Some (nat (disk_slot s))"
    "nat (disk_slot s) < ENTRY_COUNT"
proof -
  show "have_table s" and l: "lookup_slot (bram s) (disk_hash s) = Some (nat (disk_slot s))"
    using assms by (simp_all add: slot_inv_def)
  show "nat (disk_slot s) < ENTRY_COUNT" by (rule lookup_slot_bound [OF l])
qed

section \<open>Saving\<close>

text \<open>The window a save starts from: the table is claimed when there was none.\<close>

definition save_base :: "('h, 'z) set_st_scheme \<Rightarrow> bram" where
  "save_base s = (if have_table s then bram s else claimed (bram s))"

lemma block_words_cong:
  "set_value t = set_value s \<Longrightarrow> bind_code t = bind_code s \<Longrightarrow> bind_ext t = bind_ext s \<Longrightarrow>
   block_words t = block_words s"
  by (simp add: block_words_def ext_bits_cong [of t s] Let_def)

text \<open>The slot a save goes to: the disk's own, else a free one, else (a full table) any.\<close>

definition slot_choice :: "bram \<Rightarrow> u32 \<Rightarrow> nat \<Rightarrow> bool" where
  "slot_choice m h e \<longleftrightarrow> lookup_slot m h = Some e
     \<or> lookup_slot m h = None \<and> ((\<exists>f<ENTRY_COUNT. free_at m f) \<longrightarrow> free_at m e)"

lemma pick_slot_eq:
  assumes "slot_inv s" "have_table s"
  shows "\<exists>e a ev. pick_slot s = (int e, s\<lparr>bram_addr := a, evict_i := ev, disk_slot := int e\<rparr>)
    \<and> e < ENTRY_COUNT \<and> ev < of_nat ENTRY_COUNT
    \<and> slot_choice (bram s) (disk_hash s) e"
proof (cases "0 \<le> disk_slot s")
  case True
  note d = slot_invD [OF assms(1) True]
  obtain e where e: "disk_slot s = int e" using True nonneg_int_cases by blast
  have "e < ENTRY_COUNT" using d(3) e by simp
  then have "pick_slot s = (int e, s\<lparr>bram_addr := bram_addr s, evict_i := evict_i s, disk_slot := int e\<rparr>)"
    by (simp add: pick_slot_def e Let_def)
  moreover have "evict_i s < of_nat ENTRY_COUNT" using assms(1) by (simp add: slot_inv_def)
  moreover have "lookup_slot (bram s) (disk_hash s) = Some e" using d(2) e by simp
  ultimately show ?thesis using \<open>e < ENTRY_COUNT\<close> unfolding slot_choice_def by blast
next
  case False
  have ev: "evict_i s < of_nat ENTRY_COUNT" using assms(1) by (simp add: slot_inv_def)
  obtain a where f: "table_find (disk_hash s) s
      = (slot_int (lookup_slot (bram s) (disk_hash s)), s\<lparr>bram_addr := a\<rparr>)"
    using table_find_eq [of "disk_hash s" s] assms(2) by auto
  show ?thesis
  proof (cases "lookup_slot (bram s) (disk_hash s)")
    case (Some e)
    have "pick_slot s = (int e, s\<lparr>bram_addr := a, evict_i := evict_i s, disk_slot := int e\<rparr>)"
      using False Some by (simp add: pick_slot_def f Let_def)
    then show ?thesis using Some ev lookup_slot_bound [OF Some] unfolding slot_choice_def by blast
  next
    case None
    have "evict_i (s\<lparr>bram_addr := a\<rparr>) < of_nat ENTRY_COUNT" using ev by simp
    from table_alloc_eq [OF this] obtain e b v where
      t: "table_alloc (s\<lparr>bram_addr := a\<rparr>) = (int e, s\<lparr>bram_addr := b, evict_i := v\<rparr>)"
        "e < ENTRY_COUNT" "v < of_nat ENTRY_COUNT"
        "(\<exists>f<ENTRY_COUNT. free_at (bram s) f) \<longrightarrow> free_at (bram s) e" by auto
    have "pick_slot s = (int e, s\<lparr>bram_addr := b, evict_i := v, disk_slot := int e\<rparr>)"
      using False None by (simp add: pick_slot_def f t(1) Let_def)
    then show ?thesis using None t unfolding slot_choice_def by blast
  qed
qed

definition global_words :: "('h, 'z) set_st_scheme \<Rightarrow> u32 list" where
  "global_words s = SETTINGS_MAGIC # (SETTINGS_VERSION OR push_bit 8 (of_nat SET_COUNT)) # block_words s"

lemma global_write_eq:
  "global_write s = s\<lparr>bram := mem_put (bram s) (of_nat SETTINGS_WORD) (global_words s),
     bram_addr := of_nat (SETTINGS_WORD + 2) + 8\<rparr>"
proof -
  let ?h = "[SETTINGS_MAGIC, SETTINGS_VERSION OR push_bit 8 (of_nat SET_COUNT)]"
  let ?m = "s\<lparr>bram := mem_put (bram s) (of_nat SETTINGS_WORD) ?h, bram_addr := of_nat SETTINGS_WORD + 2\<rparr>"
  have "bram_writes ?h (bram_seek (of_nat SETTINGS_WORD) s) = ?m"
    by (subst bram_writes_eq) (simp_all add: bram_port_eqs)
  then have "global_write s = block_write (SETTINGS_WORD + 2) ?m"
    by (simp add: global_write_def bram_writes_def)
  also have "\<dots> = ?m\<lparr>bram := mem_put (bram ?m) (of_nat SETTINGS_WORD + of_nat (length ?h)) (block_words s),
      bram_addr := of_nat (SETTINGS_WORD + 2) + 8\<rparr>"
    by (simp add: block_write_eq block_words_cong [of ?m s] add.commute)
  also have "\<dots> = s\<lparr>bram := mem_put (bram s) (of_nat SETTINGS_WORD) (?h @ block_words s),
      bram_addr := of_nat (SETTINGS_WORD + 2) + 8\<rparr>"
    using mem_put_append [of ?h "block_words s" "bram s" "of_nat SETTINGS_WORD"] by simp
  finally show ?thesis by (simp add: global_words_def)
qed

lemma entry_save_eq:
  "block_write (entry_word e + 2) (bram_write (NOT h) (bram_write h (bram_seek (of_nat (entry_word e)) s)))
   = s\<lparr>bram := put_entry e h (block_words s) (bram s), bram_addr := of_nat (entry_word e + 2) + 8\<rparr>"
proof -
  let ?m = "s\<lparr>bram := mem_put (bram s) (of_nat (entry_word e)) [h, NOT h], bram_addr := of_nat (entry_word e) + 2\<rparr>"
  have "bram_writes [h, NOT h] (bram_seek (of_nat (entry_word e)) s) = ?m"
    by (subst bram_writes_eq) (simp_all add: bram_port_eqs)
  then have "bram_write (NOT h) (bram_write h (bram_seek (of_nat (entry_word e)) s)) = ?m"
    by (simp add: bram_writes_def)
  moreover have "block_write (entry_word e + 2) ?m
      = ?m\<lparr>bram := mem_put (bram ?m) (of_nat (entry_word e) + of_nat (length [h, NOT h])) (block_words s),
           bram_addr := of_nat (entry_word e + 2) + 8\<rparr>"
    by (simp add: block_write_eq block_words_cong [of ?m s] add.commute)
  ultimately show ?thesis
    using mem_put_append [of "[h, NOT h]" "block_words s" "bram s" "of_nat (entry_word e)"]
    by (simp add: put_entry_def)
qed

lemma magic_word_claimed: "claimed m (of_nat TABLE_WORD) = TABLE_MAGIC"
  using claimed_at [of TABLE_WORD m] by (simp add: layout_simps)

lemma claim_clean:
  "\<exists>a. claim_table (s\<lparr>dirty := False\<rparr>)
     = s\<lparr>bram := save_base s, dirty := False, have_table := True, bram_addr := a\<rparr>"
proof -
  obtain a where "claim_table (s\<lparr>dirty := False\<rparr>) = s\<lparr>dirty := False, bram := save_base s,
      have_table := True, bram_addr := a\<rparr>"
    using claim_table_eq [of "s\<lparr>dirty := False\<rparr>"] unfolding save_base_def by fastforce
  also have "\<dots> = s\<lparr>bram := save_base s, dirty := False, have_table := True, bram_addr := a\<rparr>"
    by (rule set_st.equality) simp_all
  finally show ?thesis by (rule exI)
qed

lemma settings_service_clean: "\<not> dirty s \<Longrightarrow> settings_service s = s"
  by (simp add: settings_service_def)

lemma settings_service_global:
  assumes "dirty s" "disk_hash s = 0"
  shows "\<exists>a. settings_service s = s\<lparr>bram := mem_put (save_base s) (of_nat SETTINGS_WORD) (global_words s),
     dirty := False, have_table := True, bram_addr := a\<rparr>"
proof -
  obtain a where c: "claim_table (s\<lparr>dirty := False\<rparr>)
      = s\<lparr>bram := save_base s, dirty := False, have_table := True, bram_addr := a\<rparr>"
    using claim_clean by blast
  let ?m = "s\<lparr>bram := save_base s, dirty := False, have_table := True, bram_addr := a\<rparr>"
  have w: "global_words ?m = global_words s"
    by (simp add: global_words_def block_words_cong [of ?m s])
  have "settings_service s = global_write ?m" using assms by (simp add: settings_service_def c)
  also have "\<dots> = s\<lparr>bram := mem_put (save_base s) (of_nat SETTINGS_WORD) (global_words s),
     dirty := False, have_table := True, bram_addr := of_nat (SETTINGS_WORD + 2) + 8\<rparr>"
    unfolding global_write_eq w by simp
  finally show ?thesis by (rule exI)
qed

lemma settings_service_disk:
  assumes "slot_inv s" "dirty s" "disk_hash s \<noteq> 0"
  shows "\<exists>e a ev. settings_service s =
      s\<lparr>bram := put_entry e (disk_hash s) (block_words s) (save_base s), dirty := False,
        have_table := True, evict_i := ev, disk_slot := int e, bram_addr := a\<rparr>
    \<and> e < ENTRY_COUNT \<and> ev < of_nat ENTRY_COUNT
    \<and> slot_choice (save_base s) (disk_hash s) e"
proof -
  obtain a where c: "claim_table (s\<lparr>dirty := False\<rparr>)
      = s\<lparr>bram := save_base s, dirty := False, have_table := True, bram_addr := a\<rparr>"
    using claim_clean by blast
  define m where "m = s\<lparr>bram := save_base s, dirty := False, have_table := True, bram_addr := a\<rparr>"
  have "slot_inv m" "have_table m"
    using assms(1) by (auto simp: slot_inv_def m_def save_base_def magic_word_claimed)
  from pick_slot_eq [OF this] obtain e b ev where
    p: "pick_slot m = (int e, m\<lparr>bram_addr := b, evict_i := ev, disk_slot := int e\<rparr>)"
      "e < ENTRY_COUNT" "ev < of_nat ENTRY_COUNT"
      "slot_choice (bram m) (disk_hash m) e"
    by blast
  let ?n = "m\<lparr>bram_addr := b, evict_i := ev, disk_slot := int e\<rparr>"
  have w: "block_words ?n = block_words s" by (rule block_words_cong) (simp_all add: m_def)
  have "settings_service s = block_write (entry_word e + 2)
      (bram_write (NOT (disk_hash s)) (bram_write (disk_hash s) (bram_seek (of_nat (entry_word e)) ?n)))"
  proof -
    have sk: "disk_hash (bram_seek x u) = disk_hash u" "disk_hash (bram_write y u) = disk_hash u"
      for x y and u :: "('a, 'b) set_st_scheme"
      by (simp_all add: bram_seek_def bram_write_def)
    show ?thesis
      using assms(2,3) unfolding settings_service_def Let_def c m_def [symmetric] p(1) prod.case sk
      by (simp add: m_def)
  qed
  also have "\<dots> = ?n\<lparr>bram := put_entry e (disk_hash s) (block_words s) (bram ?n),
      bram_addr := of_nat (entry_word e + 2) + 8\<rparr>"
    unfolding entry_save_eq w ..
  also have "\<dots> = s\<lparr>bram := put_entry e (disk_hash s) (block_words s) (save_base s), dirty := False,
        have_table := True, evict_i := ev, disk_slot := int e, bram_addr := of_nat (entry_word e + 2) + 8\<rparr>"
    by (rule set_st.equality) (simp_all add: m_def)
  finally show ?thesis using p by (auto simp: m_def)
qed


section \<open>What a stored block gives back\<close>

definition same_profile :: "('h, 'z) set_st_scheme \<Rightarrow> ('h, 'y) set_st_scheme \<Rightarrow> bool" where
  "same_profile s t \<longleftrightarrow> (\<forall>i<SET_COUNT. set_value t i = set_value s i)
     \<and> (\<forall>b<BIND_COUNT. bind_code t b = bind_code s b \<and> (bit (bind_ext t) b \<longleftrightarrow> bit (bind_ext s) b))"

lemma same_profile_refl [simp]: "same_profile s s"
  by (simp add: same_profile_def)

lemma ext_bits_bit: "b < BIND_COUNT \<Longrightarrow> bit (ext_bits s) b = bit (bind_ext s) b"
proof -
  have "bit (for_to n (\<lambda>i ext. ext OR push_bit i (key_bind_ext i s)) 0 :: u8) b
      \<longleftrightarrow> b < n \<and> bit (bind_ext s) b" if "n \<le> 8" for n
    using that
  proof (induction n)
    case (Suc n)
    then show ?case by (auto simp: for_to_Suc key_bind_ext_bit bit_simps less_Suc_eq)
  qed simp
  from this [of BIND_COUNT] show "b < BIND_COUNT \<Longrightarrow> ?thesis"
    unfolding ext_bits_def by (simp add: BIND_COUNT_def del: for_to_numeral)
qed

lemma block_byte:
  "j < SET_COUNT \<Longrightarrow> byte_of (block_words s ! (j div 4)) (j mod 4) = set_value s j"
  "b < BIND_COUNT \<Longrightarrow> byte_of (block_words s ! (6 + b div 4)) (b mod 4) = bind_code s b"
  "byte_of (block_words s ! 7) 3 = ext_bits s"
proof -
  assume "j < SET_COUNT"
  then have "j \<in> {..<21}" by (simp add: SET_COUNT_def)
  then have "j \<in> {0, 1, 2, 3, 4, 5, 6, 7, 8, 9, 10, 11, 12, 13, 14, 15, 16, 17, 18, 19, 20}"
    by (simp add: lessThan_nat_numeral lessThan_Suc) blast
  then show "byte_of (block_words s ! (j div 4)) (j mod 4) = set_value s j"
    by (elim insertE emptyE) (simp_all add: block_words_def Let_def byte_of_pack4)
next
  assume "b < BIND_COUNT"
  then have "b \<in> {0, 1, 2, 3, 4, 5, 6}" by (auto simp: BIND_COUNT_def)
  then show "byte_of (block_words s ! (6 + b div 4)) (b mod 4) = bind_code s b"
    by (elim insertE emptyE) (simp_all add: block_words_def Let_def byte_of_pack4)
qed (simp add: block_words_def Let_def byte_of_pack4)

lemma stored_block:
  assumes "cells m a 8 = block_words s"
  shows "j < SET_COUNT \<Longrightarrow> stored m a j = set_value s j"
    "b < BIND_COUNT \<Longrightarrow> stored m (a + 6) b = bind_code s b"
    "stored m (a + 6) 7 = ext_bits s"
proof -
  have w: "m (a + of_nat k) = block_words s ! k" if "k < 8" for k
    using that assms nth_cells [of k 8 m a] by simp
  show "j < SET_COUNT \<Longrightarrow> stored m a j = set_value s j"
    by (simp add: stored_def w SET_COUNT_def) (simp add: block_byte SET_COUNT_def)
  show "b < BIND_COUNT \<Longrightarrow> stored m (a + 6) b = bind_code s b"
    using w [of "6 + b div 4"] block_byte(2) [of b s] by (simp add: stored_def add.assoc BIND_COUNT_def)
  show "stored m (a + 6) 7 = ext_bits s"
    using w [of 7] block_byte(3) [of s] by (simp add: stored_def add.assoc)
qed

lemma block_apply_restores:
  fixes s s0 :: "('h, 'z) set_st_scheme"
  assumes "cells (bram s) (of_nat a) 8 = block_words s0" "options_ok (set_value s0)"
  shows "same_profile s0 (block_apply a SET_COUNT s)"
proof -
  note o = block_apply_obs(1) [of a SET_COUNT s] block_apply_obs(2,3) [of _ a SET_COUNT s]
    and b = stored_block [OF assms(1)]
  have six: "of_nat ((SET_COUNT + 3) div 4) = (6 :: 10 word)" by (simp add: SET_COUNT_def)
  show ?thesis
    using assms(2) unfolding same_profile_def o(1)
    by (auto simp: adopted_def b options_ok_def o(2,3) six ext_bits_bit)
qed

section \<open>Following drive A\<close>

lemma keybind_sync_frame:
  fixes s :: "('h, 'z) set_st_scheme"
  shows "set_value (keybind_sync s) = set_value s" "book (keybind_sync s) = book s"
    "bram (keybind_sync s) = bram s" "bind_code (keybind_sync s) = bind_code s"
    "bind_ext (keybind_sync s) = bind_ext s" "outs (keybind_sync s) = outs s"
    "store_frame s (keybind_sync s)"
  unfolding keybind_sync_def
  by (rule for_to_frame, simp add: keybind_remember_def book_def)+
    (rule for_to_inv [where I = "\<lambda>_. store_frame s"], simp_all add: keybind_remember_def store_frame_def)


lemma bookD:
  "book t = book s \<Longrightarrow> settings_default t = settings_default s \<and> dirty t = dirty s
     \<and> have_table t = have_table s \<and> disk_hash t = disk_hash s \<and> disk_slot t = disk_slot s \<and> evict_i t = evict_i s"
  by (simp add: book_def)

lemma options_ok_adopted: "options_ok old \<Longrightarrow> options_ok (adopted m a n old)"
  by (auto simp: options_ok_def adopted_def)

lemma apply_global_obs:
  fixes s :: "('h, 'z) set_st_scheme"
  shows "options_ok (set_value s) \<Longrightarrow> options_ok (settings_default s) \<Longrightarrow>
      options_ok (set_value (apply_global s))"
    and "machine_agrees (apply_global s)" "bram (apply_global s) = bram s"
    "book (apply_global s) = book s" "store_frame s (apply_global s)"
proof -
  let ?m = "s\<lparr>bram_addr := 2 + of_nat SETTINGS_WORD\<rparr>"
  have c: "apply_global s = apply_defaults ?m \<or> (\<exists>n. apply_global s = block_apply (SETTINGS_WORD + 2) n ?m)"
    by (simp add: apply_global_def bram_port_eqs Let_def) blast
  have f: "store_frame s ?m" by (simp add: store_frame_def)
  have "machine_agrees (apply_global s) \<and> bram (apply_global s) = bram s
      \<and> book (apply_global s) = book s \<and> store_frame ?m (apply_global s)"
    using c apply_defaults_obs(4-7) [of ?m] block_apply_obs(4-7) [where addr = "SETTINGS_WORD + 2" and s = ?m]
    by (auto simp: book_def)
  then show "machine_agrees (apply_global s)" "bram (apply_global s) = bram s"
    "book (apply_global s) = book s" "store_frame s (apply_global s)"
    using store_frame_trans [OF f] by auto
  assume ok: "options_ok (set_value s)" "options_ok (settings_default s)"
  have "options_ok (set_value (apply_defaults ?m))"
    using ok by (simp add: apply_defaults_obs(1)) (simp add: options_ok_def)
  moreover have "options_ok (set_value (block_apply (SETTINGS_WORD + 2) n ?m))" for n
    unfolding block_apply_obs(1) by (rule options_ok_adopted) (use ok in simp)
  ultimately show "options_ok (set_value (apply_global s))" using c by metis
qed

text \<open>The global blob lies below the table.\<close>

lemma find_cong: "(\<And>x. x \<in> set xs \<Longrightarrow> P x = Q x) \<Longrightarrow> find P xs = find Q xs"
  by (induction xs) auto

lemma lookup_global_put:
  "lookup_slot (mem_put m (of_nat SETTINGS_WORD) (global_words s)) h = lookup_slot m h"
proof -
  have "mem_put m (of_nat SETTINGS_WORD) (global_words s) (of_nat i) = m (of_nat i)"
    if "138 \<le> i" "i < 1024" for i
    using mem_put_at [OF that(2), of SETTINGS_WORD "global_words s" m] that(1)
    by (simp add: layout_simps global_words_def)
  moreover have "entry_word n < 1024" "Suc (entry_word n) < 1024" "138 \<le> entry_word n"
    "138 \<le> Suc (entry_word n)"
    if "n < ENTRY_COUNT" for n using that by (simp_all add: entry_word_eq layout_simps)
  ultimately show ?thesis
    unfolding lookup_slot_def by (intro find_cong) (simp only: entry_tag_def set_upt atLeastLessThan_iff)
qed

text \<open>The table's magic survives every save.\<close>

lemma magic_kept:
  "mem_put m (of_nat SETTINGS_WORD) (global_words s) (of_nat TABLE_WORD) = m (of_nat TABLE_WORD)"
  "e < ENTRY_COUNT \<Longrightarrow> put_entry e h (block_words s) m (of_nat TABLE_WORD) = m (of_nat TABLE_WORD)"
  "claimed m (of_nat TABLE_WORD) = TABLE_MAGIC"
  using mem_put_at [of TABLE_WORD SETTINGS_WORD "global_words s" m]
    put_entry_at [of e "block_words s" TABLE_WORD h m] magic_word_claimed [of m]
  by (simp_all add: layout_simps entry_word_eq global_words_def)

text \<open>A save changes the window and the bookkeeping only, and keeps the slot invariant.\<close>

lemma settings_service_frame:
  assumes "slot_inv s"
  shows "set_value (settings_service s) = set_value s" "bind_code (settings_service s) = bind_code s"
    "bind_ext (settings_service s) = bind_ext s" "outs (settings_service s) = outs s"
    "settings_default (settings_service s) = settings_default s"
    "disk_hash (settings_service s) = disk_hash s" "\<not> dirty (settings_service s)"
    "store_frame s (settings_service s)" "slot_inv (settings_service s)"
    "dirty s \<Longrightarrow> have_table (settings_service s)"
    "have_table s \<Longrightarrow> have_table (settings_service s)"
proof -
  have "set_value (settings_service s) = set_value s \<and> bind_code (settings_service s) = bind_code s
    \<and> bind_ext (settings_service s) = bind_ext s \<and> outs (settings_service s) = outs s
    \<and> settings_default (settings_service s) = settings_default s
    \<and> disk_hash (settings_service s) = disk_hash s \<and> \<not> dirty (settings_service s)
    \<and> store_frame s (settings_service s) \<and> slot_inv (settings_service s)
    \<and> (dirty s \<longrightarrow> have_table (settings_service s)) \<and> (have_table s \<longrightarrow> have_table (settings_service s))"
  proof (cases "dirty s")
    case False
    then show ?thesis using assms by (simp add: settings_service_clean)
  next
    case True
    show ?thesis
    proof (cases "disk_hash s = 0")
      case z: True
      obtain a where e: "settings_service s = s\<lparr>bram := mem_put (save_base s) (of_nat SETTINGS_WORD) (global_words s),
          dirty := False, have_table := True, bram_addr := a\<rparr>"
        using settings_service_global [OF True z] by blast
      have "slot_inv (settings_service s)"
        using assms unfolding e slot_inv_def save_base_def by (auto simp: lookup_global_put magic_kept)
      then show ?thesis unfolding e using True by (auto simp: store_frame_def)
    next
      case nz: False
      obtain e a ev where e: "settings_service s =
          s\<lparr>bram := put_entry e (disk_hash s) (block_words s) (save_base s), dirty := False,
            have_table := True, evict_i := ev, disk_slot := int e, bram_addr := a\<rparr>"
        "e < ENTRY_COUNT" "ev < of_nat ENTRY_COUNT" "slot_choice (save_base s) (disk_hash s) e"
        using settings_service_disk [OF assms True nz] by blast
      have "lookup_slot (put_entry e (disk_hash s) (block_words s) (save_base s)) (disk_hash s) = Some e"
        using e(4) by (intro disk_table.locate_put e(2)) (auto simp: slot_choice_def)
      then have "slot_inv (settings_service s)"
        using assms unfolding e(1) slot_inv_def by (simp add: e(3) magic_kept e(2) save_base_def)
      then show ?thesis unfolding e(1) using True by (auto simp: store_frame_def)
    qed
  qed
  then show "set_value (settings_service s) = set_value s" "bind_code (settings_service s) = bind_code s"
    "bind_ext (settings_service s) = bind_ext s" "outs (settings_service s) = outs s"
    "settings_default (settings_service s) = settings_default s"
    "disk_hash (settings_service s) = disk_hash s" "\<not> dirty (settings_service s)"
    "store_frame s (settings_service s)" "slot_inv (settings_service s)"
    "dirty s \<Longrightarrow> have_table (settings_service s)"
    "have_table s \<Longrightarrow> have_table (settings_service s)" by auto
qed


text \<open>Mounting another image: save, look the image up, adopt its profile or the global one.\<close>

definition mount_hit :: "u32 \<Rightarrow> ('h, 'z) set_st_scheme \<Rightarrow> nat option" where
  "mount_hit h u = (if h \<noteq> 0 \<and> have_table u then lookup_slot (bram u) h else None)"

lemma mount_eq:
  assumes "h \<noteq> disk_hash s"
  defines "u \<equiv> settings_service s"
  shows "\<exists>a. settings_disk_mounted h s = keybind_sync
     (case mount_hit h u of
        None \<Rightarrow> apply_global (u\<lparr>bram_addr := a, disk_hash := h, disk_slot := -1\<rparr>)
      | Some e \<Rightarrow> block_apply (entry_word e + 2) SET_COUNT
          (u\<lparr>bram_addr := a, disk_hash := h, disk_slot := int e\<rparr>))"
proof -
  obtain a where f: "table_find h (u\<lparr>disk_hash := h\<rparr>)
      = (if have_table u then slot_int (lookup_slot (bram u) h) else -1, u\<lparr>disk_hash := h, bram_addr := a\<rparr>)"
    using table_find_eq [of h "u\<lparr>disk_hash := h\<rparr>"] by auto
  have c: "u\<lparr>disk_hash := h, bram_addr := a, disk_slot := i\<rparr> = u\<lparr>bram_addr := a, disk_hash := h, disk_slot := i\<rparr>" for i
    by (rule set_st.equality) simp_all
  show ?thesis
  proof (cases "h = 0")
    case True
    have m: "mount_hit h u = None" using True by (simp add: mount_hit_def)
    have g: "settings_disk_mounted h s = keybind_sync
        (apply_global (u\<lparr>bram_addr := bram_addr u, disk_hash := h, disk_slot := -1\<rparr>))"
      using True assms(1) by (simp add: settings_disk_mounted_def u_def)
    show ?thesis by (rule exI [of _ "bram_addr u"]) (simp only: m g option.case)
  next
    case False
    have "settings_disk_mounted h s = keybind_sync
     (case mount_hit h u of
        None \<Rightarrow> apply_global (u\<lparr>bram_addr := a, disk_hash := h, disk_slot := -1\<rparr>)
      | Some e \<Rightarrow> block_apply (entry_word e + 2) SET_COUNT
          (u\<lparr>bram_addr := a, disk_hash := h, disk_slot := int e\<rparr>))"
      using False assms(1) f
      by (auto simp: settings_disk_mounted_def c u_def [symmetric] mount_hit_def Let_def split: option.splits)
    then show ?thesis by (rule exI)
  qed
qed

lemma mount_obs:
  fixes s :: "('h, 'z) set_st_scheme"
  assumes inv: "slot_inv s" and h: "h \<noteq> disk_hash s"
  defines "t \<equiv> settings_disk_mounted h s" and "u \<equiv> settings_service s"
  shows "bram t = bram u" "\<not> dirty t" "disk_hash t = h" "have_table t = have_table u"
    "slot_inv t" "machine_agrees t" "settings_default t = settings_default s" "store_frame s t"
    "options_ok (set_value s) \<Longrightarrow> options_ok (settings_default s) \<Longrightarrow> options_ok (set_value t)"
    "disk_slot t = slot_int (mount_hit h u)"
proof -
  let ?m = "\<lambda>a i. u\<lparr>bram_addr := a, disk_hash := h, disk_slot := i\<rparr>"
  obtain a where e: "t = keybind_sync (case mount_hit h u of
        None \<Rightarrow> apply_global (?m a (-1))
      | Some e \<Rightarrow> block_apply (entry_word e + 2) SET_COUNT (?m a (int e)))"
    using mount_eq [OF h] unfolding t_def u_def by blast
  note uf = settings_service_frame [OF inv, folded u_def]
  obtain r where r: "t = keybind_sync r" "bram r = bram u" "book r = book (?m a (slot_int (mount_hit h u)))"
    "machine_agrees r" "store_frame u r"
    "options_ok (set_value u) \<Longrightarrow> options_ok (settings_default u) \<Longrightarrow> options_ok (set_value r)"
  proof (cases "mount_hit h u")
    case None
    have "store_frame u (?m a (-1))" by (simp add: store_frame_def)
    then show ?thesis
      using that [of "apply_global (?m a (-1))"] None e apply_global_obs [of "?m a (-1)"]
        store_frame_trans by simp blast
  next
    case (Some x)
    let ?b = "block_apply (entry_word x + 2) SET_COUNT (?m a (int x))"
    have "store_frame u (?m a (int x))" by (simp add: store_frame_def)
    moreover have "options_ok (set_value u) \<Longrightarrow> options_ok (set_value ?b)"
      unfolding block_apply_obs(1) by (rule options_ok_adopted) simp
    ultimately show ?thesis
      using that [of ?b] Some e block_apply_obs(4-7) [where addr = "entry_word x + 2" and count = SET_COUNT and s = "?m a (int x)"]
        store_frame_trans by simp blast
  qed
  note k = keybind_sync_frame [of r, folded r(1)]
  have b: "settings_default t = settings_default u" "dirty t = dirty u" "have_table t = have_table u"
    "disk_hash t = h" "disk_slot t = slot_int (mount_hit h u)" "evict_i t = evict_i u"
    using bookD [OF k(2)] bookD [OF r(3)] by simp_all
  show "bram t = bram u" "\<not> dirty t" "disk_hash t = h" "have_table t = have_table u"
    "settings_default t = settings_default s" "disk_slot t = slot_int (mount_hit h u)"
    using b k(3) r(2) uf by simp_all
  show "slot_inv t"
    using uf(9) b k(3) r(2) unfolding slot_inv_def by (auto simp: mount_hit_def slot_int_def split: option.splits if_splits)
  have "key_word c t = key_word c r" for c by (rule key_word_cong) (simp_all add: k)
  then show "machine_agrees t"
    using r(4) unfolding machine_agrees_def keys_agree_def by (simp add: k)
  show "store_frame s t" using uf(8) r(5) k(7) store_frame_trans by blast
  show "options_ok (set_value t)" if "options_ok (set_value s)" "options_ok (settings_default s)"
    using r(6) that uf by (simp add: k)
qed

text \<open>Mounting an image the table knows gives back the profile it was saved with.\<close>

lemma mount_restores:
  fixes s s0 :: "('h, 'z) set_st_scheme"
  assumes h: "h \<noteq> disk_hash s" and hit: "mount_hit h (settings_service s) = Some e"
    and blk: "entry_block (bram (settings_service s)) e = block_words s0" and ok: "options_ok (set_value s0)"
  shows "same_profile s0 (settings_disk_mounted h s)"
proof -
  let ?u = "settings_service s"
  obtain a where e: "settings_disk_mounted h s = keybind_sync (block_apply (entry_word e + 2) SET_COUNT
      (?u\<lparr>bram_addr := a, disk_hash := h, disk_slot := int e\<rparr>))"
    using mount_eq [OF h] unfolding hit by auto
  have "same_profile s0 (block_apply (entry_word e + 2) SET_COUNT
      (?u\<lparr>bram_addr := a, disk_hash := h, disk_slot := int e\<rparr>))"
    using blk by (intro block_apply_restores ok) (simp add: entry_block_def layout_simps)
  then show ?thesis unfolding e same_profile_def by (simp add: keybind_sync_frame)
qed

end
