(* ===== verification/Table_Migration.thy ===== *)
theory Table_Migration
  imports Settings_Profiles
begin

text \<open>
  Widening a version-9 table in place: thirteen nine-word entries from word 138 become eleven
  ten-word entries from word 139.  The entries move from the top down so a move never lands on
  words still to be read, and the two that no longer fit are stashed first and refilled into
  the holes.
\<close>

section \<open>Entries of both widths\<close>

definition v9_entry :: "bram \<Rightarrow> nat \<Rightarrow> u32 list" where
  "v9_entry m e = cells m (of_nat (v9_entry_word e)) V9_ENTRY_WORDS"

definition new_entry :: "bram \<Rightarrow> nat \<Rightarrow> u32 list" where
  "new_entry m e = cells m (of_nat (entry_word e)) ENTRY_WORDS"

definition live_entry :: "u32 list \<Rightarrow> bool" where
  "live_entry ws \<longleftrightarrow> ws ! 0 \<noteq> 0 \<and> ws ! 1 = NOT (ws ! 0)"

text \<open>A version-9 entry with the one value it lacks.\<close>

definition widened :: "('h, 'z) set_st_scheme \<Rightarrow> u32 list \<Rightarrow> u32 list" where
  "widened s b = take 7 b @ [default_word s, b ! 7, b ! 8]"

lemma v9_entry_word_eq: "v9_entry_word e = 138 + 9 * e"
  by (simp add: v9_entry_word_def layout_simps)

lemma length_widened: "length b = 9 \<Longrightarrow> length (widened s b) = 10"
  by (simp add: widened_def)

lemma widened_cong: "settings_default t = settings_default s \<Longrightarrow> widened t b = widened s b"
  by (simp add: widened_def default_word_def)

section \<open>One step\<close>

lemma collect_bram:
  "collect n bram_read s = (cells (bram s) (bram_addr s) n, s\<lparr>bram_addr := bram_addr s + of_nat n\<rparr>)"
proof (induction n arbitrary: s)
  case 0
  show ?case by (simp add: cells_def)
next
  case (Suc n)
  have "cells (bram s) (bram_addr s) (1 + n) = [bram s (bram_addr s)] @ cells (bram s) (bram_addr s + 1) n"
    by (subst cells_append) (simp add: cells_def)
  then show ?case
    using Suc.IH [of "s\<lparr>bram_addr := bram_addr s + 1\<rparr>"]
    by (simp add: bram_port_eqs(3) bram_read_def algebra_simps)
qed

lemma entry_write_eq:
  assumes "length b = 9"
  shows "\<exists>a. entry_write e b s =
    s\<lparr>bram := mem_put (bram s) (of_nat (entry_word e)) (widened s b), bram_addr := a\<rparr>"
proof -
  have d: "default_word (bram_writes ws (bram_seek x s)) = default_word s" for ws x
  proof -
    have "settings_default (fold bram_write ws u) = settings_default u" for u :: "('a, 'b) set_st_scheme"
      by (induction ws arbitrary: u) (simp_all add: bram_write_def)
    then show ?thesis by (simp add: default_word_def bram_writes_def bram_seek_def)
  qed
  have "entry_write e b s = bram_writes (widened s b) (bram_seek (of_nat (entry_word e)) s)"
    by (simp add: entry_write_def Let_def d) (simp add: bram_writes_def widened_def)
  also have "\<dots> = s\<lparr>bram := mem_put (bram s) (of_nat (entry_word e)) (widened s b),
      bram_addr := of_nat (entry_word e) + of_nat (length (widened s b))\<rparr>"
    by (subst bram_writes_eq) (simp_all add: bram_port_eqs length_widened [OF assms])
  finally show ?thesis by (rule exI)
qed

lemma stash_tail_eq:
  "\<exists>a. stash_tail e (st, s) = ((if live_entry (v9_entry (bram s) e) then st @ [v9_entry (bram s) e] else st),
     s\<lparr>bram_addr := a\<rparr>)"
proof -
  let ?w = "of_nat (v9_entry_word e) :: 10 word"
  have c: "v9_entry (bram s) e = bram s ?w # bram s (?w + 1) # cells (bram s) (?w + 2) 7"
    using cells_append [of "bram s" ?w 2 7]
    by (simp add: v9_entry_def layout_simps) (simp add: cells_def upt_rec [of 0 2] upt_rec [of "Suc 0" 2])
  have l: "live_entry (v9_entry (bram s) e) \<longleftrightarrow> bram s ?w \<noteq> 0 \<and> bram s (?w + 1) = NOT (bram s ?w)"
    unfolding c live_entry_def by simp
  have two: "V9_ENTRY_WORDS - 2 = 7" by (simp add: layout_simps)
  show ?thesis
    unfolding l by (auto simp: stash_tail_def bram_port_eqs collect_bram c Let_def two add.commute)
qed

lemma move_entry_eq:
  "\<exists>a. move_entry e (f, s) =
     (if live_entry (v9_entry (bram s) e) then f OR push_bit e 1 else f,
      s\<lparr>bram := mem_put (bram s) (of_nat (entry_word e))
          (if live_entry (v9_entry (bram s) e) then widened s (v9_entry (bram s) e) else replicate ENTRY_WORDS 0),
        bram_addr := a\<rparr>)"
proof -
  let ?b = "v9_entry (bram s) e"
  have c: "collect V9_ENTRY_WORDS bram_read (bram_seek (of_nat (v9_entry_word e)) s)
      = (?b, s\<lparr>bram_addr := of_nat (v9_entry_word e) + of_nat V9_ENTRY_WORDS\<rparr>)" (is "_ = (_, ?s)")
    unfolding collect_bram by (simp add: bram_port_eqs v9_entry_def)
  show ?thesis
  proof (cases "live_entry ?b")
    case True
    obtain a where "entry_write e ?b ?s = ?s\<lparr>bram := mem_put (bram ?s) (of_nat (entry_word e)) (widened ?s ?b),
        bram_addr := a\<rparr>"
      using entry_write_eq [of ?b e ?s] by (auto simp: v9_entry_def layout_simps)
    then have "move_entry e (f, s) = (f OR push_bit e 1,
        s\<lparr>bram := mem_put (bram s) (of_nat (entry_word e)) (widened s ?b), bram_addr := a\<rparr>)"
      using True unfolding move_entry_def prod.case Let_def c live_entry_def
      by (simp add: widened_cong [of ?s s])
    then show ?thesis using True by auto
  next
    case False
    have "bram_writes (replicate ENTRY_WORDS 0) (bram_seek (of_nat (entry_word e)) ?s)
        = s\<lparr>bram := mem_put (bram s) (of_nat (entry_word e)) (replicate ENTRY_WORDS 0),
            bram_addr := of_nat (entry_word e) + of_nat ENTRY_WORDS\<rparr>"
      by (subst bram_writes_eq) (simp_all add: bram_port_eqs layout_simps)
    then have "move_entry e (f, s) = (f, s\<lparr>bram := mem_put (bram s) (of_nat (entry_word e)) (replicate ENTRY_WORDS 0),
            bram_addr := of_nat (entry_word e) + of_nat ENTRY_WORDS\<rparr>)"
      using False unfolding move_entry_def prod.case Let_def c live_entry_def by auto
    then show ?thesis using False by auto
  qed
qed


section \<open>Words an entry covers\<close>

lemma new_entry_put:
  assumes "e < ENTRY_COUNT" "length ws = ENTRY_WORDS" "e' < ENTRY_COUNT"
  shows "new_entry (mem_put m (of_nat (entry_word e)) ws) e' = (if e' = e then ws else new_entry m e')"
proof (cases "e' = e")
  case True
  then show ?thesis
    using cells_mem_put [of ws m "of_nat (entry_word e)"] assms(2) by (simp add: new_entry_def layout_simps)
next
  case False
  have "mem_put m (of_nat (entry_word e)) ws (of_nat (entry_word e' + i)) = m (of_nat (entry_word e' + i))"
    if "i < 10" for i
  proof -
    have "entry_word e' + i < 1024" "entry_word e < 1024" "entry_word e + length ws \<le> 1024"
      using assms that by (simp_all add: entry_word_eq layout_simps)
    moreover have "\<not> (entry_word e \<le> entry_word e' + i \<and> entry_word e' + i < entry_word e + 10)"
      using that False unfolding entry_word_eq by presburger
    ultimately show ?thesis using assms(2) mem_put_at [of "entry_word e' + i" "entry_word e" ws m]
      by (auto simp: layout_simps)
  qed
  then show ?thesis using False unfolding new_entry_def by (auto simp: layout_simps intro!: cells_cong)
qed

text \<open>Moving entry \<open>e\<close> leaves every version-9 entry below it in place.\<close>

lemma v9_entry_put:
  assumes "e < ENTRY_COUNT" "length ws = ENTRY_WORDS" "e' < e"
  shows "v9_entry (mem_put m (of_nat (entry_word e)) ws) e' = v9_entry m e'"
proof -
  have "mem_put m (of_nat (entry_word e)) ws (of_nat (v9_entry_word e' + i)) = m (of_nat (v9_entry_word e' + i))"
    if "i < 9" for i
  proof -
    have b: "v9_entry_word e' + i < 1024" "entry_word e < 1024" "entry_word e + length ws \<le> 1024"
      "v9_entry_word e' + i < entry_word e"
      using assms that by (simp_all add: entry_word_eq v9_entry_word_eq layout_simps)
    show ?thesis using b(4) mem_put_at [OF b(1,2,3), of m] by simp
  qed
  then show ?thesis unfolding v9_entry_def by (auto simp: layout_simps intro!: cells_cong)
qed

section \<open>The moves\<close>

definition moved :: "('h, 'z) set_st_scheme \<Rightarrow> u32 list \<Rightarrow> u32 list" where
  "moved s b = (if live_entry b then widened s b else replicate ENTRY_WORDS 0)"

lemma length_v9_entry [simp]: "length (v9_entry m e) = 9"
  by (simp add: v9_entry_def layout_simps)

lemma length_moved: "length b = 9 \<Longrightarrow> length (moved s b) = ENTRY_WORDS"
  by (simp add: moved_def length_widened layout_simps)

text \<open>\<open>n\<close> entries left to move: those at and above \<open>n\<close> have their new shape, the ones below
  still their old one.\<close>

lemma move_entries:
  assumes "n \<le> ENTRY_COUNT"
  shows "\<exists>f' m a. fold move_entry (rev [0..<n]) (f, s) = (f', s\<lparr>bram := m, bram_addr := a\<rparr>)
    \<and> (\<forall>e<n. new_entry m e = moved s (v9_entry (bram s) e))
    \<and> (\<forall>e<ENTRY_COUNT. n \<le> e \<longrightarrow> new_entry m e = new_entry (bram s) e)
    \<and> (\<forall>e<16. bit f' e \<longleftrightarrow> bit f e \<or> e < n \<and> live_entry (v9_entry (bram s) e))
    \<and> (\<forall>i<139. m (of_nat i) = bram s (of_nat i)) \<and> (\<forall>i<1024. 249 \<le> i \<longrightarrow> m (of_nat i) = bram s (of_nat i))"
  using assms
proof (induction n arbitrary: f s)
  case 0
  have "s = s\<lparr>bram := bram s, bram_addr := bram_addr s\<rparr>" by simp
  then show ?case by (intro exI [of _ f] exI [of _ "bram s"] exI [of _ "bram_addr s"]) simp
next
  case (Suc n)
  let ?b = "v9_entry (bram s) n"
  define m1 where "m1 = mem_put (bram s) (of_nat (entry_word n)) (moved s ?b)"
  define f1 where "f1 = (if live_entry ?b then f OR push_bit n 1 else f)"
  obtain a1 where st: "move_entry n (f, s) = (f1, s\<lparr>bram := m1, bram_addr := a1\<rparr>)" (is "_ = (_, ?s1)")
    using move_entry_eq [of n f s] unfolding m1_def f1_def moved_def by auto
  have n: "n < ENTRY_COUNT" "n \<le> ENTRY_COUNT" using Suc.prems by simp_all
  note len = length_moved [of ?b s, simplified]
  from Suc.IH [OF n(2), of f1 ?s1] obtain f' m a where
    r: "fold move_entry (rev [0..<n]) (f1, ?s1) = (f', ?s1\<lparr>bram := m, bram_addr := a\<rparr>)"
    and lo: "\<forall>e<n. new_entry m e = moved ?s1 (v9_entry m1 e)"
    and hi: "\<forall>e<ENTRY_COUNT. n \<le> e \<longrightarrow> new_entry m e = new_entry m1 e"
    and bits: "\<forall>e<16. bit f' e \<longleftrightarrow> bit f1 e \<or> e < n \<and> live_entry (v9_entry m1 e)"
    and out: "\<forall>i<139. m (of_nat i) = m1 (of_nat i)" "\<forall>i<1024. 249 \<le> i \<longrightarrow> m (of_nat i) = m1 (of_nat i)"
    by auto
  have v: "v9_entry m1 e = v9_entry (bram s) e" if "e < n" for e
    unfolding m1_def by (rule v9_entry_put [OF n(1) len that])
  have w: "moved ?s1 b = moved s b" for b by (simp add: moved_def widened_cong [of ?s1 s])
  have ne: "new_entry m1 e = (if e = n then moved s ?b else new_entry (bram s) e)" if "e < ENTRY_COUNT" for e
    unfolding m1_def by (rule new_entry_put [OF n(1) len that])
  have f1: "bit f1 e \<longleftrightarrow> bit f e \<or> e = n \<and> live_entry ?b" if "e < 16" for e
    using that by (auto simp: f1_def bit_simps)
  have o: "m1 (of_nat i) = bram s (of_nat i)" if "i < 1024" "i < 139 \<or> 249 \<le> i" for i
  proof -
    have b: "entry_word n < 1024" "entry_word n + length (moved s ?b) \<le> 1024"
      "\<not> (entry_word n \<le> i \<and> i < entry_word n + length (moved s ?b))"
      using n(1) that(2) by (auto simp: entry_word_eq layout_simps len)
    show ?thesis unfolding m1_def mem_put_at [OF that(1) b(1,2)] if_not_P [OF b(3)] ..
  qed
  have "fold move_entry (rev [0..<Suc n]) (f, s) = (f', s\<lparr>bram := m, bram_addr := a\<rparr>)"
    using r by (simp add: st)
  moreover have "\<forall>e<Suc n. new_entry m e = moved s (v9_entry (bram s) e)"
    using lo hi ne n v w by (simp add: less_Suc_eq)
  moreover have "\<forall>e<ENTRY_COUNT. Suc n \<le> e \<longrightarrow> new_entry m e = new_entry (bram s) e"
    using hi ne by simp
  moreover have "\<forall>e<16. bit f' e \<longleftrightarrow> bit f e \<or> e < Suc n \<and> live_entry (v9_entry (bram s) e)"
    using bits f1 v by (auto simp: less_Suc_eq)
  moreover have "\<forall>i<139. m (of_nat i) = bram s (of_nat i)"
    "\<forall>i<1024. 249 \<le> i \<longrightarrow> m (of_nat i) = bram s (of_nat i)"
    using out o by simp_all
  ultimately show ?case by blast
qed


section \<open>Refilling the holes\<close>

text \<open>The slots at or after \<open>e\<close> no moved entry took.\<close>

definition holes :: "u16 \<Rightarrow> nat \<Rightarrow> nat list" where
  "holes f e = filter (\<lambda>i. \<not> bit f i) [e..<ENTRY_COUNT]"

lemma and_one_bit: "(f AND push_bit e 1 \<noteq> (0 :: u16)) \<longleftrightarrow> bit f e"
proof -
  have "f AND push_bit e 1 = (if bit f e then push_bit e 1 else 0)"
    by (rule bit_word_eqI) (auto simp: bit_simps)
  moreover have "bit f e \<Longrightarrow> push_bit e (1 :: u16) \<noteq> 0"
    using bit_imp_le_length [of f e] by (auto simp: bit_eq_iff bit_simps intro!: exI [of _ e])
  ultimately show ?thesis by simp
qed

lemma next_free_holes:
  "(if holes f e = [] then ENTRY_COUNT \<le> next_free f e
    else next_free f e < ENTRY_COUNT \<and> holes f e = next_free f e # holes f (Suc (next_free f e)))"
proof (induction f e rule: next_free.induct)
  case (1 f e)
  show ?case
  proof (cases "e < ENTRY_COUNT \<and> bit f e")
    case True
    then have "next_free f e = next_free f (Suc e)"
      by (subst next_free.simps) (simp only: and_one_bit simp_thms if_True)
    moreover have "holes f e = holes f (Suc e)" using True by (simp add: holes_def upt_rec [of e])
    moreover have "e < ENTRY_COUNT \<and> f AND push_bit e 1 \<noteq> 0" using True by (simp only: and_one_bit)
    ultimately show ?thesis using 1 by metis
  next
    case False
    then have n: "next_free f e = e" by (subst next_free.simps) (simp only: and_one_bit if_False)
    show ?thesis using False unfolding n by (auto simp: holes_def upt_rec [of e])
  qed
qed

lemma place_tails_eq:
  "place_tails bs e f s = fold (\<lambda>(b, e). entry_write e b) (zip bs (holes f e)) s"
proof (induction bs arbitrary: e s)
  case Nil
  show ?case by simp
next
  case (Cons b bs)
  show ?case
    using next_free_holes [of f e] Cons.IH [of "Suc (next_free f e)" "entry_write (next_free f e) b s"]
    by (cases "holes f e") (auto simp: Let_def)
qed

lemma place_entries:
  assumes "\<And>b e. (b, e) \<in> set ps \<Longrightarrow> length b = 9 \<and> e < ENTRY_COUNT" and "distinct (map snd ps)"
  shows "\<exists>m a. fold (\<lambda>(b, e). entry_write e b) ps s = s\<lparr>bram := m, bram_addr := a\<rparr>
    \<and> (\<forall>e<ENTRY_COUNT. new_entry m e = (case map_of (map prod.swap ps) e of
         Some b \<Rightarrow> widened s b | None \<Rightarrow> new_entry (bram s) e))
    \<and> (\<forall>i<1024. i < 139 \<or> 249 \<le> i \<longrightarrow> m (of_nat i) = bram s (of_nat i))"
  using assms
proof (induction ps arbitrary: s)
  case Nil
  have "s = s\<lparr>bram := bram s, bram_addr := bram_addr s\<rparr>" by simp
  then show ?case by (intro exI [of _ "bram s"] exI [of _ "bram_addr s"]) simp
next
  case (Cons p ps)
  obtain b e where p: "p = (b, e)" by (cases p)
  have l: "length b = 9" "e < ENTRY_COUNT" using Cons.prems(1) [of b e] p by auto
  define m1 where "m1 = mem_put (bram s) (of_nat (entry_word e)) (widened s b)"
  obtain a1 where w: "entry_write e b s = s\<lparr>bram := m1, bram_addr := a1\<rparr>" (is "_ = ?s1")
    using entry_write_eq [OF l(1)] unfolding m1_def by blast
  have "distinct (map snd ps)" "e \<notin> snd ` set ps" using Cons.prems(2) p by simp_all
  have "length b' = 9 \<and> e' < ENTRY_COUNT" if "(b', e') \<in> set ps" for b' e'
    using Cons.prems(1) [of b' e'] that by simp
  from Cons.IH [OF this \<open>distinct (map snd ps)\<close>, of ?s1] obtain m a where
    r: "fold (\<lambda>(b, e). entry_write e b) ps ?s1 = ?s1\<lparr>bram := m, bram_addr := a\<rparr>"
    "\<forall>e'<ENTRY_COUNT. new_entry m e' = (case map_of (map prod.swap ps) e' of
         Some b \<Rightarrow> widened ?s1 b | None \<Rightarrow> new_entry (bram ?s1) e')"
    "\<forall>i<1024. i < 139 \<or> 249 \<le> i \<longrightarrow> m (of_nat i) = bram ?s1 (of_nat i)" by blast
  have ne: "new_entry m1 e' = (if e' = e then widened s b else new_entry (bram s) e')" if "e' < ENTRY_COUNT" for e'
    unfolding m1_def by (rule new_entry_put [OF l(2) _ that]) (simp add: layout_simps length_widened [OF l(1)])
  have o: "m1 (of_nat i) = bram s (of_nat i)" if "i < 1024" "i < 139 \<or> 249 \<le> i" for i
  proof -
    have c: "entry_word e < 1024" "entry_word e + length (widened s b) \<le> 1024"
      "\<not> (entry_word e \<le> i \<and> i < entry_word e + length (widened s b))"
      using l that(2) by (auto simp: entry_word_eq layout_simps length_widened)
    show ?thesis unfolding m1_def mem_put_at [OF that(1) c(1,2)] if_not_P [OF c(3)] ..
  qed
  have nm: "map_of (map prod.swap ps) e = None"
    using \<open>e \<notin> snd ` set ps\<close> by (force simp: map_of_eq_None_iff image_image)
  have wd: "widened ?s1 x = widened s x" for x by (rule widened_cong) simp
  have "\<forall>e'<ENTRY_COUNT. new_entry m e' = (case map_of (map prod.swap (p # ps)) e' of
         Some b \<Rightarrow> widened s b | None \<Rightarrow> new_entry (bram s) e')"
    using r(2) ne nm wd by (auto simp: p split: option.splits)
  moreover have "fold (\<lambda>(b, e). entry_write e b) (p # ps) s = s\<lparr>bram := m, bram_addr := a\<rparr>"
    using r(1) by (simp add: p w)
  ultimately show ?case using r(3) o by auto
qed


section \<open>The whole migration\<close>

definition v9_holes :: "bram \<Rightarrow> nat list" where
  "v9_holes m = filter (\<lambda>e. \<not> live_entry (v9_entry m e)) [0..<ENTRY_COUNT]"

definition v9_tails :: "bram \<Rightarrow> u32 list list" where
  "v9_tails m = filter live_entry [v9_entry m 12, v9_entry m 11]"

lemma stash_tails:
  "\<exists>a. fold stash_tail (rev [ENTRY_COUNT..<V9_ENTRY_COUNT]) ([], s) = (v9_tails (bram s), s\<lparr>bram_addr := a\<rparr>)"
proof -
  have r: "rev [ENTRY_COUNT..<V9_ENTRY_COUNT] = [12, 11]" by (simp add: layout_simps upt_rec)
  define st where "st = (if live_entry (v9_entry (bram s) 12) then [v9_entry (bram s) 12] else [])"
  obtain a where a: "stash_tail 12 ([], s) = (st, s\<lparr>bram_addr := a\<rparr>)"
    using stash_tail_eq [of 12 "[]" s] unfolding st_def by auto
  obtain b where b: "stash_tail 11 (st, s\<lparr>bram_addr := a\<rparr>)
      = (if live_entry (v9_entry (bram s) 11) then st @ [v9_entry (bram s) 11] else st, s\<lparr>bram_addr := b\<rparr>)"
    using stash_tail_eq [of 11 st "s\<lparr>bram_addr := a\<rparr>"] by auto
  show ?thesis unfolding r by (rule exI [of _ b]) (simp add: a b v9_tails_def, simp add: st_def)
qed

lemma v9_entry_above:
  assumes "e < V9_ENTRY_COUNT"
  shows "v9_entry (mem_put m (of_nat V9_TABLE_WORD) [w]) e = v9_entry m e"
proof -
  have "mem_put m (of_nat V9_TABLE_WORD) [w] (of_nat (v9_entry_word e + i)) = m (of_nat (v9_entry_word e + i))"
    if "i < 9" for i
  proof -
    have b: "v9_entry_word e + i < 1024" "V9_TABLE_WORD < 1024" "V9_TABLE_WORD + length [w] \<le> 1024"
      "V9_TABLE_WORD < v9_entry_word e + i"
      using assms that by (simp_all add: v9_entry_word_eq layout_simps)
    show ?thesis using b(4) mem_put_at [OF b(1,2,3), of m] by simp
  qed
  then show ?thesis unfolding v9_entry_def by (auto simp: layout_simps intro!: cells_cong)
qed

lemma zip_swapped: "map prod.swap (zip xs ys) = zip ys xs"
  by (induction xs ys rule: list_induct2') auto

lemma table_migrate_eq:
  assumes "bram s (of_nat V9_TABLE_WORD) = TABLE_MAGIC"
  shows "\<exists>m a. table_migrate s = s\<lparr>bram := m, bram_addr := a\<rparr>
    \<and> m (of_nat TABLE_WORD) = TABLE_MAGIC
    \<and> (\<forall>i<1024. i < 137 \<or> 249 \<le> i \<longrightarrow> m (of_nat i) = bram s (of_nat i))
    \<and> (\<forall>e<ENTRY_COUNT. new_entry m e =
        (if live_entry (v9_entry (bram s) e) then widened s (v9_entry (bram s) e)
         else case map_of (zip (v9_holes (bram s)) (v9_tails (bram s))) e of
           Some b \<Rightarrow> widened s b | None \<Rightarrow> replicate ENTRY_WORDS 0))"
proof -
  define m0 where "m0 = mem_put (bram s) (of_nat V9_TABLE_WORD) [0]"
  have v: "v9_entry m0 e = v9_entry (bram s) e" if "e < V9_ENTRY_COUNT" for e
    unfolding m0_def by (rule v9_entry_above [OF that])
  let ?s0 = "s\<lparr>bram := m0, bram_addr := of_nat V9_TABLE_WORD + 1\<rparr>"
  obtain a1 where st: "fold stash_tail (rev [ENTRY_COUNT..<V9_ENTRY_COUNT]) ([], ?s0)
      = (v9_tails m0, ?s0\<lparr>bram_addr := a1\<rparr>)" (is "_ = (_, ?s1)")
    using stash_tails [of ?s0] by auto
  obtain f m1 a2 where mv: "fold move_entry (rev [0..<ENTRY_COUNT]) (0, ?s1) = (f, ?s1\<lparr>bram := m1, bram_addr := a2\<rparr>)"
    and me: "\<forall>e<ENTRY_COUNT. new_entry m1 e = moved ?s1 (v9_entry m0 e)"
    and bits: "\<forall>e<16. bit f e \<longleftrightarrow> e < ENTRY_COUNT \<and> live_entry (v9_entry m0 e)"
    and o1: "\<forall>i<139. m1 (of_nat i) = m0 (of_nat i)" "\<forall>i<1024. 249 \<le> i \<longrightarrow> m1 (of_nat i) = m0 (of_nat i)"
    using move_entries [of ENTRY_COUNT 0 ?s1] by auto
  let ?s2 = "?s1\<lparr>bram := m1, bram_addr := a2\<rparr>"
  have tl: "v9_tails m0 = v9_tails (bram s)" by (simp add: v9_tails_def v layout_simps)
  have ho: "holes f 0 = v9_holes (bram s)"
    unfolding holes_def v9_holes_def by (rule filter_cong) (use bits v in \<open>auto simp: layout_simps\<close>)
  let ?ps = "zip (v9_tails (bram s)) (v9_holes (bram s))"
  have "length b = 9 \<and> e < ENTRY_COUNT" if "(b, e) \<in> set ?ps" for b e
    using set_zip_leftD [OF that] set_zip_rightD [OF that] by (auto simp: v9_tails_def v9_holes_def split: if_splits)
  moreover have "distinct (map snd ?ps)"
    by (simp add: map_snd_zip_take v9_holes_def)
  ultimately obtain m2 a3 where pl: "fold (\<lambda>(b, e). entry_write e b) ?ps ?s2 = ?s2\<lparr>bram := m2, bram_addr := a3\<rparr>"
    and pe': "\<forall>e<ENTRY_COUNT. new_entry m2 e = (case map_of (map prod.swap ?ps) e of
         Some b \<Rightarrow> widened ?s2 b | None \<Rightarrow> new_entry (bram ?s2) e)"
    and o2': "\<forall>i<1024. i < 139 \<or> 249 \<le> i \<longrightarrow> m2 (of_nat i) = bram ?s2 (of_nat i)"
    using place_entries [of ?ps ?s2] by blast
  have b2: "bram ?s2 = m1" by simp
  have pe: "\<forall>e<ENTRY_COUNT. new_entry m2 e = (case map_of (map prod.swap ?ps) e of
         Some b \<Rightarrow> widened ?s2 b | None \<Rightarrow> new_entry m1 e)" using pe' unfolding b2 .
  have o2: "\<forall>i<1024. i < 139 \<or> 249 \<le> i \<longrightarrow> m2 (of_nat i) = m1 (of_nat i)" using o2' by simp
  define m3 where "m3 = mem_put m2 (of_nat TABLE_WORD) [TABLE_MAGIC]"
  have "table_migrate s = s\<lparr>bram := m3, bram_addr := of_nat TABLE_WORD + 1\<rparr>"
    using assms st mv pl unfolding table_migrate_def
    by (simp add: bram_port_eqs Let_def place_tails_eq ho tl m3_def m0_def [symmetric])
  moreover have at: "m3 (of_nat i) = (if i = TABLE_WORD then TABLE_MAGIC else m2 (of_nat i))" if "i < 1024" for i
    unfolding m3_def using mem_put_at [OF that, of TABLE_WORD "[TABLE_MAGIC]" m2] by (auto simp: layout_simps)
  have z: "m0 (of_nat i) = bram s (of_nat i)" if "i < 1024" "i \<noteq> 137" for i
    unfolding m0_def using mem_put_at [OF that(1), of V9_TABLE_WORD "[0]" "bram s"] that(2) by (auto simp: layout_simps)
  have "new_entry m3 e = new_entry m2 e" if "e < ENTRY_COUNT" for e
  proof -
    have "m3 (of_nat (entry_word e + i)) = m2 (of_nat (entry_word e + i))" if "i < 10" for i
      using that \<open>e < ENTRY_COUNT\<close> by (subst at) (simp_all add: entry_word_eq layout_simps)
    then show ?thesis unfolding new_entry_def by (auto simp: layout_simps intro!: cells_cong)
  qed
  moreover have "map_of (zip (v9_holes (bram s)) (v9_tails (bram s))) e = None"
    if "live_entry (v9_entry (bram s) e)" for e
    using that set_zip_leftD by (fastforce simp: map_of_eq_None_iff v9_holes_def)
  moreover have "widened ?s2 = widened s" "moved ?s1 = moved s"
    by (auto simp: fun_eq_iff moved_def intro: widened_cong)
  ultimately have "\<forall>e<ENTRY_COUNT. new_entry m3 e =
        (if live_entry (v9_entry (bram s) e) then widened s (v9_entry (bram s) e)
         else case map_of (zip (v9_holes (bram s)) (v9_tails (bram s))) e of
           Some b \<Rightarrow> widened s b | None \<Rightarrow> replicate ENTRY_WORDS 0)"
    using pe me v by (auto simp: zip_swapped moved_def layout_simps split: option.split)
  moreover have "\<forall>i<1024. i < 137 \<or> 249 \<le> i \<longrightarrow> m3 (of_nat i) = bram s (of_nat i)"
    using at o2 o1 z by (simp add: layout_simps)
  ultimately show ?thesis
    using \<open>table_migrate s = _\<close> at [of TABLE_WORD] by (auto simp: layout_simps)
qed


lemma table_migrate_frame: "\<exists>m a. table_migrate s = s\<lparr>bram := m, bram_addr := a\<rparr>"
proof (cases "bram s (of_nat V9_TABLE_WORD) = TABLE_MAGIC")
  case True
  then show ?thesis using table_migrate_eq by blast
next
  case False
  then have "table_migrate s = s\<lparr>bram := bram s, bram_addr := of_nat V9_TABLE_WORD + 1\<rparr>"
    by (simp add: table_migrate_def bram_port_eqs)
  then show ?thesis by blast
qed

section \<open>Loading at boot\<close>

lemma snapshot_defaults_eq:
  "snapshot_defaults s = s\<lparr>settings_default := (\<lambda>i. if i < SET_COUNT then set_value s i else settings_default s i)\<rparr>"
proof -
  have "for_to n (\<lambda>i s. s\<lparr>settings_default := (settings_default s)(i := set_value s i)\<rparr>) s
      = s\<lparr>settings_default := (\<lambda>i. if i < n then set_value s i else settings_default s i)\<rparr>" for n
    by (induction n) (auto simp: for_to_Suc fun_eq_iff less_Suc_eq)
  then show ?thesis by (simp add: snapshot_defaults_def)
qed

text \<open>What every branch of the load keeps: the button slots agree, the values are in range,
  and nothing but the window, the live values, the bindings and the registers moved.\<close>

definition load_ok :: "('h, 'z) set_st_scheme \<Rightarrow> ('h, 'z) set_st_scheme \<Rightarrow> bool" where
  "load_ok s t \<longleftrightarrow> keys_agree t \<and> options_ok (set_value t) \<and> book t = book s \<and> store_frame s t"

lemma keys_agree_cong:
  "outs t = outs s \<Longrightarrow> bind_code t = bind_code s \<Longrightarrow> bind_ext t = bind_ext s \<Longrightarrow> keys_agree t = keys_agree s"
  by (simp add: keys_agree_def key_word_cong [of t _ s])

lemma adopt_old_eq:
  "\<exists>w' a v. adopt_old ver i (w, s) = (w', s\<lparr>bram_addr := a, set_value := v\<rparr>)
     \<and> (options_ok (set_value s) \<longrightarrow> options_ok v)"
proof -
  have id: "s = s\<lparr>bram_addr := bram_addr s, set_value := set_value s\<rparr>" by simp
  have ok: "options_ok (set_value s) \<longrightarrow> options_ok ((set_value s)(t := v))" if "v < set_count t" for t v
    using that by (auto simp: options_ok_def)
  obtain w1 a1 where r: "(if i mod 4 = 0 then bram_read s else (w, s)) = (w1, s\<lparr>bram_addr := a1\<rparr>)"
  proof (cases "i mod 4 = 0")
    case True
    then show ?thesis using that by (simp add: bram_port_eqs)
  next
    case False
    then show ?thesis using that [of w "bram_addr s"] by simp
  qed
  define k where "k = (let t = (if ver = 4 then v4_to_v5 ! i else i) in
      if ver \<le> 5 \<and> t \<noteq> 0xFF then v5_to_v6 ! t else t)"
  let ?x = "byte_of w1 (i mod 4)"
  have "adopt_old ver i (w, s) = (w1, if k \<noteq> 0xFF \<and> ?x < set_count k
      then s\<lparr>bram_addr := a1, set_value := (set_value s)(k := ?x)\<rparr> else s\<lparr>bram_addr := a1, set_value := set_value s\<rparr>)"
    unfolding adopt_old_def Let_def prod.case r k_def by simp
  then show ?thesis
  proof (cases "k \<noteq> 0xFF \<and> ?x < set_count k")
    case True
    have o: "options_ok (set_value s) \<longrightarrow> options_ok ((set_value s)(k := ?x))" by (rule ok) (use True in blast)
    show ?thesis
      by (intro exI conjI) (rule \<open>adopt_old ver i (w, s) = _\<close> [unfolded if_P [OF True]], rule o)
  next
    case False
    show ?thesis
      by (intro exI conjI) (rule \<open>adopt_old ver i (w, s) = _\<close> [unfolded if_not_P [OF False]], rule impI)
  qed
qed

lemma load_old_ok:
  fixes s :: "('h, 'z) set_st_scheme"
  assumes "options_ok (set_value s)"
  shows "load_ok s (load_old ver n s)"
proof -
  have "\<exists>w a v. for_to k (adopt_old ver) (0, s) = (w, s\<lparr>bram_addr := a, set_value := v\<rparr>) \<and> options_ok v" for k
  proof (induction k)
    case 0
    show ?case using assms by (intro exI [of _ 0] exI [of _ "bram_addr s"] exI [of _ "set_value s"]) simp
  next
    case (Suc k)
    then obtain w a v where k: "for_to k (adopt_old ver) (0, s) = (w, s\<lparr>bram_addr := a, set_value := v\<rparr>)"
      "options_ok v" by blast
    then show ?case
      using adopt_old_eq [of ver k w "s\<lparr>bram_addr := a, set_value := v\<rparr>"] by (auto simp: for_to_Suc)
  qed
  then obtain w a v where k: "for_to (old_values ver n) (adopt_old ver) (0, s) = (w, s\<lparr>bram_addr := a, set_value := v\<rparr>)"
    "options_ok v" by blast
  let ?m = "s\<lparr>bram_addr := a, set_value := v\<rparr>"
  have "load_old ver n s = adopt_bindings w ?m" by (simp add: load_old_def k(1))
  moreover have "store_frame s ?m" by (simp add: store_frame_def)
  ultimately show ?thesis
    using adopt_bindings_obs(3) [of w ?m] adopt_bindings_frame [where w = w and s = ?m] k(2) store_frame_trans
    by (auto simp: load_ok_def book_def)
qed


definition ram_only :: "('h, 'z) set_st_scheme \<Rightarrow> ('h, 'z) set_st_scheme \<Rightarrow> bool" where
  "ram_only s t \<longleftrightarrow> (\<exists>m a. t = s\<lparr>bram := m, bram_addr := a\<rparr>)"

lemma ram_onlyI: "ram_only s (s\<lparr>bram := m, bram_addr := a\<rparr>)"
  by (auto simp: ram_only_def)

lemma ram_only_trans:
  assumes "ram_only s t" "ram_only t u"
  shows "ram_only s u"
proof -
  obtain m a m' a' where "t = s\<lparr>bram := m, bram_addr := a\<rparr>" "u = t\<lparr>bram := m', bram_addr := a'\<rparr>"
    using assms unfolding ram_only_def by blast
  then have "u = s\<lparr>bram := m', bram_addr := a'\<rparr>" by simp
  then show ?thesis by (simp only: ram_onlyI)
qed

lemma ram_only_load_ok:
  assumes "load_ok s t" "ram_only t u"
  shows "load_ok s u"
proof -
  obtain m a where u: "u = t\<lparr>bram := m, bram_addr := a\<rparr>" using assms(2) unfolding ram_only_def by blast
  have "keys_agree u = keys_agree t" by (rule keys_agree_cong) (simp_all add: u)
  then show ?thesis using assms(1) by (simp add: load_ok_def u book_def store_frame_def)
qed

lemma global_write_ram: "ram_only s (global_write s)"
  unfolding global_write_eq by (rule ram_onlyI)

lemma table_migrate_ram: "ram_only s (table_migrate s)"
  using table_migrate_frame [of s] by (simp add: ram_only_def)

lemma block_apply_ok: "options_ok (set_value s) \<Longrightarrow> load_ok s (block_apply a n s)"
  using block_apply_obs(4,6,7) [where addr = a and count = n and s = s] options_ok_adopted
  by (auto simp: load_ok_def machine_agrees_def block_apply_obs(1))

lemma push_all_ok: "load_ok s t \<Longrightarrow> load_ok s (push_all t)"
  using push_all_agrees [of t] push_all_frame [of t] store_frame_trans
  by (auto simp: load_ok_def machine_agrees_def)

definition adopt_blob :: "('h, 'z) set_st_scheme \<Rightarrow> ('h, 'z) set_st_scheme" where
  "adopt_blob s =
     (let (magic, s) = bram_read (bram_seek (of_nat SETTINGS_WORD) s);
          (head, s) = bram_read s;
          version = head AND 0xFF
      in if magic = SETTINGS_MAGIC \<and> 4 \<le> version \<and> version \<le> SETTINGS_VERSION then
           let s = (if 6 \<le> version then block_apply (SETTINGS_WORD + 2) (head_count head) s
                    else load_old version (head_count head) s)
           in if version < SETTINGS_VERSION
              then global_write (if version = SETTINGS_VERSION - 1 then table_migrate s else s)
              else s
         else s)"

lemma settings_load_split:
  "settings_load s = (let t = push_all (adopt_blob (snapshot_defaults s));
       (m, t) = bram_read (bram_seek (of_nat TABLE_WORD) t) in t\<lparr>have_table := (m = TABLE_MAGIC)\<rparr>)"
  by (simp add: settings_load_def adopt_blob_def Let_def split: prod.split)

lemma adopt_blob_ok:
  assumes "keys_agree s" "options_ok (set_value s)"
  shows "load_ok s (adopt_blob s)"
proof -
  let ?m = "s\<lparr>bram_addr := of_nat SETTINGS_WORD + 1 + 1\<rparr>"
  define head where "head = bram s (of_nat SETTINGS_WORD + 1)"
  have m: "load_ok s ?m"
    using assms keys_agree_cong [of ?m s] by (simp add: load_ok_def book_def store_frame_def)
  have tr: "load_ok s u" if "load_ok ?m u" for u
    using that m store_frame_trans by (auto simp: load_ok_def)
  have ok: "options_ok (set_value ?m)" using assms by simp
  define b where "b = (if 6 \<le> head AND 0xFF then block_apply (SETTINGS_WORD + 2) (head_count head) ?m
      else load_old (head AND 0xFF) (head_count head) ?m)"
  have "load_ok ?m b" unfolding b_def using block_apply_ok [OF ok] load_old_ok [OF ok] by simp
  then have b: "load_ok s b" by (rule tr)
  have g: "load_ok s (global_write (if P then table_migrate b else b))" for P
    using ram_only_load_ok [OF b] global_write_ram table_migrate_ram ram_only_trans
    by (cases P; simp) blast+
  have e: "adopt_blob s = (if bram s (of_nat SETTINGS_WORD) = SETTINGS_MAGIC \<and> 4 \<le> head AND 0xFF
        \<and> head AND 0xFF \<le> SETTINGS_VERSION
      then if head AND 0xFF < SETTINGS_VERSION
           then global_write (if head AND 0xFF = SETTINGS_VERSION - 1 then table_migrate b else b) else b
      else ?m)"
    by (simp add: adopt_blob_def bram_port_eqs Let_def b_def head_def)
  show ?thesis unfolding e using m b g by simp
qed

end
