(* ===== verification/Settings_Props.thy ===== *)
theory Settings_Props
  imports Table_Migration Scsi_Props
begin

text \<open>
  The properties of the settings store, each with a concrete state it applies to.
\<close>

section \<open>A store to apply them to\<close>

definition set_demo :: "bram \<Rightarrow> card set_st" where
  "set_demo m = scsi_st.extend (scsi_demo [] []\<lparr>bram := m\<rparr>)
     \<lparr>bind_code = (\<lambda>_. 0), bind_ext = 0,
      set_value = (\<lambda>i. if i < SET_COUNT then snd (settings_table ! i) else 0), settings_default = (\<lambda>_. 0),
      dirty = False, have_table = False, disk_hash = 0, disk_slot = -1, evict_i = 0,
      keybind_sel = (\<lambda>_. 0), keybind_key = (\<lambda>_. 0), keybind_key_ext = 0\<rparr>"

lemma set_demo_fields [simp]:
  "bram (set_demo m) = m" "set_value (set_demo m) = (\<lambda>i. if i < SET_COUNT then snd (settings_table ! i) else 0)"
  "dirty (set_demo m) = False" "have_table (set_demo m) = False" "disk_hash (set_demo m) = 0"
  "disk_slot (set_demo m) = -1" "evict_i (set_demo m) = 0"
  by (simp_all add: set_demo_def scsi_st.defs set_st.defs key_st.defs scsi_demo_def)

lemma compiled_options: "options_ok (\<lambda>i. if i < SET_COUNT then snd (settings_table ! i) else 0)"
proof -
  have "list_all (\<lambda>i. snd (settings_table ! i) < set_count i) [0..<21]"
    by (simp add: upt_rec set_count_def settings_table_def opt_defs DPAD_ARROWS_def)
  then have "\<forall>i<21. snd (settings_table ! i) < set_count i" by (simp add: list_all_iff)
  then show ?thesis by (simp add: options_ok_def SET_COUNT_def)
qed

lemma set_count_pos: "i < SET_COUNT \<Longrightarrow> 0 < set_count i"
proof -
  have "list_all (\<lambda>i. 0 < set_count i) [0..<21]"
    by (simp add: upt_rec set_count_def settings_table_def opt_defs)
  then show "i < SET_COUNT \<Longrightarrow> ?thesis" by (simp add: list_all_iff SET_COUNT_def)
qed

section \<open>Booting\<close>

text \<open>C16: Whatever the save window holds at boot (nothing, a current blob, an old version, or
  arbitrary bytes), loading it leaves every setting on an option its row has, the compiled
  defaults snapshotted, the table known exactly when its magic is there, and the machine's
  registers holding exactly the live settings, D-pad preset and button bindings.\<close>

theorem settings_boot_sound:
  fixes s :: "('h, 'z) set_st_scheme"
  assumes "options_ok (set_value s)" and "disk_slot s < 0" and "evict_i s < of_nat ENTRY_COUNT"
  shows "let t = settings_load (key_bind_init s) in
    store_inv t \<and> machine_agrees t
    \<and> have_table t = (bram t (of_nat TABLE_WORD) = TABLE_MAGIC)
    \<and> (\<forall>i<SET_COUNT. settings_default t i = set_value s i)"
proof -
  let ?k = "key_bind_init s"
  define d where "d = snapshot_defaults ?k"
  define b where "b = push_all (adopt_blob d)"
  have k: "keys_agree ?k" "book ?k = book s" "set_value ?k = set_value s"
    using key_bind_reset_obs(1) [of s] by (simp_all add: key_bind_init_def key_bind_reset_eq book_def)
  have d: "keys_agree d" "set_value d = set_value s" "options_ok (settings_default d)"
    "\<forall>i<SET_COUNT. settings_default d i = set_value s i" "disk_slot d = disk_slot s" "evict_i d = evict_i s"
    using k keys_agree_cong [of d ?k] assms(1) bookD [OF k(2)]
    by (simp_all add: d_def snapshot_defaults_eq options_ok_def)
  have "load_ok d (adopt_blob d)" by (rule adopt_blob_ok) (use d assms in simp_all)
  then have ok: "load_ok d b" and ag: "machine_agrees b"
    unfolding b_def by (rule push_all_ok) (rule push_all_agrees, use \<open>load_ok d (adopt_blob d)\<close> in \<open>simp add: load_ok_def\<close>)
  let ?m = "bram b (of_nat TABLE_WORD)"
  have t: "settings_load ?k = b\<lparr>bram_addr := of_nat TABLE_WORD + 1, have_table := (?m = TABLE_MAGIC)\<rparr>"
    unfolding settings_load_split d_def [symmetric] b_def [symmetric] by (simp add: bram_port_eqs)
  have bk: "disk_slot b = disk_slot s" "evict_i b = evict_i s" "settings_default b = settings_default d"
    using ok bookD [of b d] d by (simp_all add: load_ok_def)
  have mc: "machine_agrees (b\<lparr>bram_addr := x, have_table := y\<rparr>) = machine_agrees b" for x y
    using keys_agree_cong [of "b\<lparr>bram_addr := x, have_table := y\<rparr>" b] by (simp add: machine_agrees_def)
  show ?thesis
    unfolding t Let_def mc using ok ag bk d assms
    by (simp add: store_inv_def slot_inv_def load_ok_def)
qed

theorem settings_boot_sound_witness:
  "machine_agrees (settings_load (key_bind_init (set_demo (\<lambda>_. 0x50435853))))"
  using settings_boot_sound [of "set_demo (\<lambda>_. 0x50435853)"] compiled_options
  by (simp add: Let_def layout_simps)

section \<open>The invariant\<close>

text \<open>C15: Saving, following drive A and flagging a change keep the store's invariant: every
  value stays on an option of its row whatever bytes a profile holds, and the cached table
  slot is the one a search for the mounted image finds.\<close>

theorem settings_store_invariant:
  assumes "store_inv s"
  shows "store_inv (settings_service s) \<and> store_inv (settings_disk_mounted h s)
       \<and> store_inv (settings_mark_dirty s)"
proof -
  have i: "slot_inv s" "options_ok (set_value s)" "options_ok (settings_default s)"
    using assms by (simp_all add: store_inv_def)
  note f = settings_service_frame [OF i(1)]
  have "store_inv (settings_disk_mounted h s)"
  proof (cases "h = disk_hash s")
    case True
    then show ?thesis using assms by (simp add: settings_disk_mounted_def)
  next
    case False
    show ?thesis using mount_obs(5,7,9) [OF i(1) False] i by (simp add: store_inv_def)
  qed
  then show ?thesis
    using f i by (simp add: store_inv_def settings_mark_dirty_def slot_inv_def)
qed

lemma set_demo_inv: "store_inv (set_demo m\<lparr>settings_default := (\<lambda>_. 0), disk_hash := h, dirty := d\<rparr>)"
  using compiled_options set_count_pos
  by (simp add: store_inv_def slot_inv_def options_ok_def layout_simps)

theorem settings_store_invariant_witness:
  "store_inv (settings_disk_mounted 7 (set_demo (\<lambda>_. 0)\<lparr>settings_default := (\<lambda>_. 0), disk_hash := 3, dirty := True\<rparr>))"
  using settings_store_invariant [OF set_demo_inv] by blast

section \<open>Following drive A\<close>

text \<open>C18: After drive A's image changes, every option register, D-pad slot and button slot of
  the machine holds the live settings, and the change is saved: nothing is left unsaved and
  the rest of the machine is untouched.\<close>

theorem settings_mount_agrees:
  assumes "store_inv s" and "h \<noteq> disk_hash s"
  shows "let t = settings_disk_mounted h s in
    machine_agrees t \<and> \<not> dirty t \<and> disk_hash t = h \<and> bram t = bram (settings_service s) \<and> store_frame s t"
  using mount_obs(1,2,3,6,8) [of s h] assms by (simp add: store_inv_def Let_def)

theorem settings_mount_agrees_witness:
  "machine_agrees (settings_disk_mounted 7 (set_demo (\<lambda>_. 0)\<lparr>settings_default := (\<lambda>_. 0), disk_hash := 0, dirty := False\<rparr>))"
  using settings_mount_agrees [OF set_demo_inv [where m = "\<lambda>_. 0" and h = 0 and d = False], of 7]
  by (simp add: Let_def)


section \<open>Profiles\<close>

lemma mount_same: "settings_disk_mounted (disk_hash s) s = s"
  by (simp add: settings_disk_mounted_def)

lemma mount_hash: "slot_inv s \<Longrightarrow> disk_hash (settings_disk_mounted h s) = h"
  using mount_obs(3) [of s h] by (cases "h = disk_hash s") (simp_all add: mount_same)

text \<open>A settled state between edits, for the profile of disk \<open>d\<close> of state \<open>s0\<close>.\<close>

definition holds_profile :: "('h, 'z) set_st_scheme \<Rightarrow> ('h, 'z) set_st_scheme \<Rightarrow> bool" where
  "holds_profile s0 t \<longleftrightarrow> slot_inv t \<and> \<not> dirty t \<and> have_table t
     \<and> (\<exists>e. lookup_slot (bram t) (disk_hash s0) = Some e \<and> entry_block (bram t) e = block_words s0)
     \<and> (disk_hash t = disk_hash s0 \<longrightarrow> same_profile s0 t)"

lemma holds_profile_saved:
  assumes "store_inv s" "dirty s" "disk_hash s \<noteq> 0" "h \<noteq> disk_hash s"
  shows "holds_profile s (settings_disk_mounted h s)"
proof -
  have i: "slot_inv s" using assms by (simp add: store_inv_def)
  obtain e a ev where u: "settings_service s =
      s\<lparr>bram := put_entry e (disk_hash s) (block_words s) (save_base s), dirty := False,
        have_table := True, evict_i := ev, disk_slot := int e, bram_addr := a\<rparr>"
    "e < ENTRY_COUNT" "slot_choice (save_base s) (disk_hash s) e"
    using settings_service_disk [OF i assms(2,3)] by blast
  have l: "lookup_slot (bram (settings_service s)) (disk_hash s) = Some e"
    using u(3) by (simp add: u(1)) (intro disk_table.locate_put u(2), auto simp: slot_choice_def)
  have b: "entry_block (bram (settings_service s)) e = block_words s"
    by (simp add: u(1) disk_table.get_put u(2))
  show ?thesis
    using mount_obs(1-5) [OF i assms(4)] l b settings_service_frame(10) [OF i assms(2)] assms(4)
    by (auto simp: holds_profile_def)
qed

lemma holds_profile_mount:
  fixes s0 t :: "('h, 'z) set_st_scheme"
  assumes k: "holds_profile s0 t" and nz: "disk_hash s0 \<noteq> 0" and ok: "options_ok (set_value s0)"
  shows "holds_profile s0 (settings_disk_mounted h t)"
proof (cases "h = disk_hash t")
  case True
  then show ?thesis using k by (simp add: settings_disk_mounted_def)
next
  case False
  have i: "slot_inv t" and c: "settings_service t = t" and ht: "have_table t"
    using k by (simp_all add: holds_profile_def settings_service_clean)
  obtain e where e: "lookup_slot (bram t) (disk_hash s0) = Some e" "entry_block (bram t) e = block_words s0"
    using k by (auto simp: holds_profile_def)
  have "same_profile s0 (settings_disk_mounted h t)" if "h = disk_hash s0"
    by (rule mount_restores [OF False]) (use that nz ht e ok in \<open>simp_all add: c mount_hit_def\<close>)
  then show ?thesis
    using mount_obs(1-5) [OF i False] e ht unfolding c by (auto simp: holds_profile_def)
qed

text \<open>C12: A disk gets back what was set for it.  With unsaved changes on the image in drive A,
  swap through any sequence of images (none, the same, others, in any order) and mount the
  first one again: every setting value, every button binding and every extended-key bit is
  what it was before the first swap.\<close>

theorem settings_profile_restored:
  fixes s :: "('h, 'z) set_st_scheme"
  assumes "store_inv s" and "dirty s" and "disk_hash s \<noteq> 0"
  shows "same_profile s (settings_disk_mounted (disk_hash s) (fold settings_disk_mounted hs s))"
proof -
  let ?t = "fold settings_disk_mounted hs s"
  have ok: "options_ok (set_value s)" using assms by (simp add: store_inv_def)
  have step: "holds_profile s t \<Longrightarrow> holds_profile s (fold settings_disk_mounted hs t)" for t hs
    by (induction hs arbitrary: t) (simp_all add: holds_profile_mount [OF _ assms(3) ok])
  have "?t = s \<or> holds_profile s ?t"
  proof (induction hs)
    case (Cons h hs)
    then show ?case
      by (cases "h = disk_hash s") (simp_all add: mount_same step holds_profile_saved [OF assms])
  qed simp
  then show ?thesis
  proof
    assume "holds_profile s ?t"
    then have h: "holds_profile s (settings_disk_mounted (disk_hash s) ?t)" and i: "slot_inv ?t"
      using holds_profile_mount [OF _ assms(3) ok] by (auto simp: holds_profile_def)
    then show ?thesis using mount_hash [OF i] by (simp add: holds_profile_def)
  qed (simp add: mount_same)
qed


theorem settings_profile_restored_witness:
  "set_value (settings_disk_mounted 3 (fold settings_disk_mounted [7, 0, 9]
     (set_demo (\<lambda>_. 0)\<lparr>settings_default := (\<lambda>_. 0), disk_hash := 3, dirty := True\<rparr>))) SET_EXTMEM = 3"
  using settings_profile_restored [OF set_demo_inv [where m = "\<lambda>_. 0" and h = 3 and d = True], of "[7, 0, 9]"]
  by (simp add: same_profile_def SET_EXTMEM_def SET_COUNT_def settings_table_def)

text \<open>C14: A save for the mounted image writes the ten words of one table entry and nothing
  else of the window; the entry is the image's own, else a free one.  While the table has a
  free entry, or the image already has its own, no other disk's profile is lost or altered.\<close>

theorem settings_save_isolated:
  assumes "store_inv s" and "dirty s" and "disk_hash s \<noteq> 0"
  shows "\<exists>e<ENTRY_COUNT. let m = save_base s; m' = bram (settings_service s) in
    slot_choice m (disk_hash s) e \<and> lookup_slot m' (disk_hash s) = Some e \<and> entry_block m' e = block_words s
    \<and> (\<forall>i<1024. \<not> (entry_word e \<le> i \<and> i < entry_word e + ENTRY_WORDS) \<longrightarrow> m' (of_nat i) = m (of_nat i))
    \<and> ((\<exists>f<ENTRY_COUNT. free_at m f) \<or> lookup_slot m (disk_hash s) \<noteq> None \<longrightarrow>
        (\<forall>k e'. k \<noteq> disk_hash s \<and> k \<noteq> 0 \<and> lookup_slot m k = Some e' \<longrightarrow>
           lookup_slot m' k = Some e' \<and> entry_block m' e' = entry_block m e'))"
proof -
  have i: "slot_inv s" using assms by (simp add: store_inv_def)
  obtain e a ev where u: "settings_service s =
      s\<lparr>bram := put_entry e (disk_hash s) (block_words s) (save_base s), dirty := False,
        have_table := True, evict_i := ev, disk_slot := int e, bram_addr := a\<rparr>"
    "e < ENTRY_COUNT" and c: "slot_choice (save_base s) (disk_hash s) e"
    using settings_service_disk [OF i assms(2,3)] by blast
  let ?m = "save_base s"
  have m: "bram (settings_service s) = put_entry e (disk_hash s) (block_words s) ?m" by (simp add: u(1))
  have l: "lookup_slot (bram (settings_service s)) (disk_hash s) = Some e"
    unfolding m by (rule disk_table.locate_put [OF u(2)]) (use c in \<open>auto simp: slot_choice_def\<close>)
  have o: "\<forall>i<1024. \<not> (entry_word e \<le> i \<and> i < entry_word e + ENTRY_WORDS) \<longrightarrow>
      bram (settings_service s) (of_nat i) = ?m (of_nat i)"
    unfolding m by (simp add: put_entry_at [OF u(2)] layout_simps)
  have ne: "e' \<noteq> e" if "(\<exists>f<ENTRY_COUNT. free_at ?m f) \<or> lookup_slot ?m (disk_hash s) \<noteq> None"
    "k \<noteq> disk_hash s" "k \<noteq> 0" "lookup_slot ?m k = Some e'" for k e'
  proof
    assume "e' = e"
    then have t: "entry_tag ?m e k" using that(4) by (simp add: lookup_slot_def find_upt_Some)
    have "lookup_slot ?m (disk_hash s) = Some e \<or> free_at ?m e" using that(1) c by (auto simp: slot_choice_def)
    then show False
      using t that(2,3) by (auto simp: lookup_slot_def find_upt_Some entry_tag_def free_at_def)
  qed
  have keep: "lookup_slot (bram (settings_service s)) k = Some e'
      \<and> entry_block (bram (settings_service s)) e' = entry_block ?m e'"
    if "k \<noteq> disk_hash s" "lookup_slot ?m k = Some e'" "e' \<noteq> e" for k e'
    using disk_table.locate_put_other [OF u(2) _ that] disk_table.get_put_other [OF u(2) _ _ that(3)]
      lookup_slot_bound [OF that(2)] by (simp add: m)
  show ?thesis
  proof (rule exI [of _ e], unfold Let_def, intro conjI impI allI u(2) c l o [rule_format])
    show "entry_block (bram (settings_service s)) e = block_words s"
      by (simp add: m disk_table.get_put u(2))
  qed (use o ne keep in \<open>blast+\<close>)
qed

theorem settings_save_isolated_witness:
  "\<exists>e. lookup_slot (bram (settings_service (set_demo (\<lambda>_. 0)\<lparr>settings_default := (\<lambda>_. 0), disk_hash := 3, dirty := True\<rparr>))) 3
     = Some e"
  using settings_save_isolated [OF set_demo_inv [where m = "\<lambda>_. 0" and h = 3 and d = True]]
  by (auto simp: Let_def)

section \<open>Across a power cycle\<close>











section \<open>Older tables\<close>

text \<open>With no more live profiles than new entries, the holes take both tails.\<close>

lemma v9_room:
  assumes "length (filter (\<lambda>e. live_entry (v9_entry m e)) [0..<V9_ENTRY_COUNT]) \<le> ENTRY_COUNT"
  shows "length (v9_tails m) \<le> length (v9_holes m)"
proof -
  have "[0..<V9_ENTRY_COUNT] = [0..<ENTRY_COUNT] @ [11, 12]" by (simp add: layout_simps upt_rec)
  moreover have "length (filter (\<lambda>e. live_entry (v9_entry m e)) [0..<ENTRY_COUNT]) + length (v9_holes m) = ENTRY_COUNT"
    using sum_length_filter_compl [of "\<lambda>e. live_entry (v9_entry m e)" "[0..<ENTRY_COUNT]"] by (simp add: v9_holes_def)
  moreover have "length (v9_tails m) = length (filter (\<lambda>e. live_entry (v9_entry m e)) [11, 12])"
    by (simp add: v9_tails_def)
  ultimately show ?thesis using assms by simp
qed

text \<open>C17: Widening a version-9 table keeps its profiles.  Every live entry among the first eleven
  lands in its own new entry with its words unchanged and the compiled default for the value
  it lacked; the two that no longer fit in place are kept too while there is room; every other
  new entry is blank; and nothing below the old table or above the new one changes.\<close>

theorem settings_migrate_keeps:
  assumes "bram s (of_nat V9_TABLE_WORD) = TABLE_MAGIC"
  shows "let old = v9_entry (bram s); m = bram (table_migrate s) in
    m (of_nat TABLE_WORD) = TABLE_MAGIC
    \<and> (\<forall>e<ENTRY_COUNT. live_entry (old e) \<longrightarrow> new_entry m e = widened s (old e))
    \<and> (length (filter (\<lambda>e. live_entry (old e)) [0..<V9_ENTRY_COUNT]) \<le> ENTRY_COUNT \<longrightarrow>
        (\<forall>e\<in>{11, 12}. live_entry (old e) \<longrightarrow> (\<exists>e'<ENTRY_COUNT. new_entry m e' = widened s (old e))))
    \<and> (\<forall>e<ENTRY_COUNT. new_entry m e = replicate ENTRY_WORDS 0
        \<or> (\<exists>e'<V9_ENTRY_COUNT. live_entry (old e') \<and> new_entry m e = widened s (old e')))
    \<and> (\<forall>i<1024. i < 137 \<or> 249 \<le> i \<longrightarrow> m (of_nat i) = bram s (of_nat i))"
proof -
  let ?old = "v9_entry (bram s)" and ?m = "bram (table_migrate s)"
  let ?H = "v9_holes (bram s)" and ?T = "v9_tails (bram s)"
  have mg: "?m (of_nat TABLE_WORD) = TABLE_MAGIC"
    and o: "\<forall>i<1024. i < 137 \<or> 249 \<le> i \<longrightarrow> ?m (of_nat i) = bram s (of_nat i)"
    and ne: "\<And>e. e < ENTRY_COUNT \<Longrightarrow> new_entry ?m e =
        (if live_entry (?old e) then widened s (?old e)
         else case map_of (zip ?H ?T) e of Some b \<Rightarrow> widened s b | None \<Rightarrow> replicate ENTRY_WORDS 0)"
    using table_migrate_eq [OF assms] by auto
  have dist: "distinct ?H" by (simp add: v9_holes_def)
  have tails: "\<exists>e<ENTRY_COUNT. new_entry ?m e = widened s b" if "b \<in> set ?T" "length ?T \<le> length ?H" for b
  proof -
    obtain k where k: "k < length ?T" "b = ?T ! k" using \<open>b \<in> set ?T\<close> by (auto simp: in_set_conv_nth)
    let ?e = "?H ! k"
    have h: "?e \<in> set ?H" using k that by simp
    then have e: "?e < ENTRY_COUNT" "\<not> live_entry (?old ?e)" by (auto simp: v9_holes_def)
    have "map_of (zip ?H ?T) ?e = Some b"
    proof (rule map_of_is_SomeI)
      show "distinct (map fst (zip ?H ?T))" using dist by (simp add: map_fst_zip_take)
      show "(?e, b) \<in> set (zip ?H ?T)" using k that(2) by (auto simp: in_set_zip)
    qed
    then show ?thesis using ne [OF e(1)] e by auto
  qed
  have src: "b = ?old 11 \<and> live_entry b \<or> b = ?old 12 \<and> live_entry b" if "map_of (zip ?H ?T) e = Some b" for e b
    using map_of_SomeD [OF that] set_zip_rightD [of e b ?H ?T] by (auto simp: v9_tails_def split: if_splits)
  show ?thesis
    unfolding Let_def
  proof (intro conjI mg o allI impI)
    show "\<forall>e\<in>{11, 12}. live_entry (?old e) \<longrightarrow> (\<exists>e'<ENTRY_COUNT. new_entry ?m e' = widened s (?old e))"
      if "length (filter (\<lambda>e. live_entry (?old e)) [0..<V9_ENTRY_COUNT]) \<le> ENTRY_COUNT"
      using tails [OF _ v9_room [OF that]] by (auto simp: v9_tails_def)
  next
    fix e assume e: "e < ENTRY_COUNT"
    show "new_entry ?m e = widened s (?old e)" if "live_entry (?old e)" using ne [OF e] that by simp
    have "e < V9_ENTRY_COUNT" "11 < V9_ENTRY_COUNT" "12 < V9_ENTRY_COUNT" using e by (simp_all add: layout_simps)
    then show "new_entry ?m e = replicate ENTRY_WORDS 0
        \<or> (\<exists>e'<V9_ENTRY_COUNT. live_entry (?old e') \<and> new_entry ?m e = widened s (?old e'))"
      using ne [OF e] src [of e] by (cases "live_entry (?old e)"; cases "map_of (zip ?H ?T) e"; simp; blast)
  qed
qed

theorem settings_migrate_keeps_witness:
  "bram (table_migrate (set_demo ((\<lambda>_. 0)(137 := TABLE_MAGIC)))) 138 = TABLE_MAGIC"
  using settings_migrate_keeps [of "set_demo ((\<lambda>_. 0)(137 := TABLE_MAGIC))"]
  by (simp add: Let_def layout_simps)


section \<open>Button bindings\<close>

text \<open>C19: From the reset map on, after any sequence of rebindings the machine's slot of every
  button types exactly what its binding says (nothing for a function binding), extended-key
  bit included.\<close>

theorem key_bindings_agree:
  fixes s :: "('h, 'z) key_st_scheme"
  assumes "\<forall>(b, c, e) \<in> set bs. b < BIND_COUNT"
  shows "keys_agree (fold (\<lambda>(b, c, e). key_bind_set b c e) bs (key_bind_init s))"
proof -
  have "keys_agree t \<Longrightarrow> keys_agree (fold (\<lambda>(b, c, e). key_bind_set b c e) bs t)" for t :: "('h, 'z) key_st_scheme"
    using assms by (induction bs arbitrary: t) (auto simp: keys_agree_set)
  then show ?thesis by (simp add: key_bind_init_def key_bind_reset_obs(1))
qed

theorem key_bindings_agree_witness:
  "keys_agree (fold (\<lambda>(b, c, e). key_bind_set b c e) [(4, 0x75, True), (0, 0xF1, False)] (key_bind_init (set_demo (\<lambda>_. 0))))"
  by (rule key_bindings_agree) (simp add: BIND_COUNT_def)

end
