(* ===== verification/Fdd.thy ===== *)
theory Fdd
  imports Settings_Store
begin

text \<open>
  \<open>firmware/fdd_service.c\<close>: the floppy drives.  Mounting (the D88 and FDI probes, the geometry
  table, the identity hash), the OSD's eject and insert, and \<open>fdd_poll\<close>, which answers the
  controller's sector requests from the image dataslots with a one-sector read-ahead.
  Drives are numbers, 0 for A and 1 for B.  The \<open>spin\<close> between eject and insert only passes
  time, so the model has no step for it.
\<close>

section \<open>State\<close>

definition PREF_WORD :: u32 where "PREF_WORD = 512"
definition PREF_BYTE :: u32 where "PREF_BYTE = PREF_WORD * 4"
definition D88_TRACKS :: u32 where "D88_TRACKS = 164"
definition D88_HDRSIZE :: u32 where "D88_HDRSIZE = 0x20 + D88_TRACKS * 4"
definition D88_SECHDR :: u32 where "D88_SECHDR = 16"
definition D88_CACHE_SPT :: nat where "D88_CACHE_SPT = 32"
definition FDD_REQ_READ :: u32 where "FDD_REQ_READ = 1"
definition FDD_REQ_WRITE :: u32 where "FDD_REQ_WRITE = 2"
definition FDD_LBA_MASK :: u32 where "FDD_LBA_MASK = 0x7FFF"
definition FDD_LBA_DRIVE :: u32 where "FDD_LBA_DRIVE = 0x8000"

lemmas fdd_consts = PREF_WORD_def PREF_BYTE_def D88_TRACKS_def D88_HDRSIZE_def D88_SECHDR_def
  D88_CACHE_SPT_def FDD_REQ_READ_def FDD_REQ_WRITE_def FDD_LBA_MASK_def FDD_LBA_DRIVE_def

record 'h fdd_st = "'h set_st" +
  fdd_sector_words :: "nat \<Rightarrow> u32"
  fdd_base :: "nat \<Rightarrow> u32"
  fdd_img_geom :: "nat \<Rightarrow> nat \<Rightarrow> u32"   \<comment> \<open>{spt, cyls, heads, is_1024}\<close>
  fdd_d88 :: "nat \<Rightarrow> bool"
  fdd_d88_wp :: "nat \<Rightarrow> bool"
  pref_lba :: "nat \<Rightarrow> u32"
  d88_cache_trk :: "nat \<Rightarrow> u32"
  d88_cache_off :: "nat \<Rightarrow> nat \<Rightarrow> u32"
  fdd_sectors :: "nat \<Rightarrow> u32"
  fdd_inserted :: "nat \<Rightarrow> bool"
  fdd_dbg_seen :: u32
  fdd_dbg_pushed :: u32
  fdd_dbg_err :: u32
  fdd_dbg_lba :: u32
  fdd_dbg_aft :: u32
  fdd_dbg_gap :: u32
  gap_polls :: u32

definition fdd_mgmt_write :: "nat \<Rightarrow> u32 \<Rightarrow> u32 \<Rightarrow> ('h, 'z) bus_scheme \<Rightarrow> ('h, 'z) bus_scheme" where
  "fdd_mgmt_write drive reg data s = mgmt_wr (push_bit 4 (of_nat drive) OR (reg AND 0xF)) data s"

definition fdd_mgmt_read :: "nat \<Rightarrow> u32 \<Rightarrow> ('h, 'z) bus_scheme \<Rightarrow> u32 \<times> ('h, 'z) bus_scheme" where
  "fdd_mgmt_read drive reg s =
     (let (v, s) = mgmt_rd (push_bit 4 (of_nat drive) OR (reg AND 0xF)) s in (v AND 0xFFFF, s))"

definition fdd_slot :: "nat \<Rightarrow> u16" where
  "fdd_slot drive = (if drive \<noteq> 0 then FDD1_SLOT_ID else FDD0_SLOT_ID)"

text \<open>Where a sector is staged: words 0 to 127, or 256 to 511 for the longer sector.\<close>

definition stage_word :: "nat \<Rightarrow> ('h, 'z) fdd_st_scheme \<Rightarrow> u32" where
  "stage_word drive s = (if of_nat SECTOR_WORDS < fdd_sector_words s drive then 256 else 0)"

section \<open>The FDI probe\<close>

definition fdi_believed :: "u32 list \<Rightarrow> u32 \<Rightarrow> bool" where
  "fdi_believed w file \<longleftrightarrow>
     (let hsize = w ! 2; ssize = w ! 4; spt = w ! 5; surf = w ! 6; cyl = w ! 7;
          raw = ssize * spt * surf * cyl
      in 0x20 \<le> hsize \<and> hsize \<le> 0x1000 \<and> 128 \<le> ssize \<and> ssize \<le> 4096 \<and> 1 \<le> spt \<and> spt \<le> 255
         \<and> surf = 2 \<and> 1 \<le> cyl \<and> cyl \<le> 127 \<and> file - 1024 < raw + hsize \<and> raw + hsize < file + 1024)"

definition fdd_probe_fdi ::
  "'h apf \<Rightarrow> nat \<Rightarrow> u32 \<Rightarrow> ('h, 'z) fdd_st_scheme \<Rightarrow> ('h, 'z) fdd_st_scheme" where
  "fdd_probe_fdi apf drive sectors s =
     (let s = s\<lparr>fdd_base := (fdd_base s)(drive := 0)\<rparr>
      in if sectors < 4 then s
         else
           let (ok, s) = tds_transfer apf (fdd_slot drive) 0 FDD_TDS_READ 32 s
           in if \<not> ok then s
              else
                let (w, s) = collect 8 bram_read (bram_seek 0 s);
                    s = s\<lparr>fdd_img_geom := (fdd_img_geom s)(drive := (fdd_img_geom s drive)(0 := 0))\<rparr>
                in if fdi_believed w (sectors * 512)
                   then s\<lparr>fdd_base := (fdd_base s)(drive := w ! 2),
                          fdd_img_geom := (fdd_img_geom s)(drive := (fdd_img_geom s drive)
                            (0 := w ! 5, 1 := w ! 7, 2 := w ! 6, 3 := if w ! 4 = 1024 then 1 else 0))\<rparr>
                   else s)"

section \<open>The D88 probe\<close>

definition fdd_read_at ::
  "'h apf \<Rightarrow> nat \<Rightarrow> u32 \<Rightarrow> u32 \<Rightarrow> ('h, 'z) hw_scheme \<Rightarrow> bool \<times> ('h, 'z) hw_scheme" where
  "fdd_read_at apf drive off bytes s = tds_transfer apf (fdd_slot drive) off FDD_TDS_READ bytes s"

text \<open>The probe's locals while it streams the header.\<close>

record d88_acc =
  a_fd_size :: u32
  a_first :: u32
  a_protect :: u32
  a_populated :: nat
  a_last :: nat
  a_odd :: bool

definition d88_acc0 :: d88_acc where
  "d88_acc0 = \<lparr>a_fd_size = 0, a_first = 0, a_protect = 0, a_populated = 0, a_last = 0, a_odd = False\<rparr>"

text \<open>One track-table entry: outside the image ends the probe.\<close>

definition d88_entry :: "u32 \<Rightarrow> nat \<Rightarrow> u32 \<Rightarrow> d88_acc \<Rightarrow> d88_acc option" where
  "d88_entry file idx t a =
     (if t < D88_HDRSIZE \<or> file + 512 \<le> t then None
      else Some (a\<lparr>a_populated := a_populated a + 1, a_last := idx, a_odd := a_odd a \<or> odd idx\<rparr>))"

definition d88_tail_word :: "u32 \<Rightarrow> nat \<Rightarrow> u32 \<Rightarrow> d88_acc \<Rightarrow> d88_acc option" where
  "d88_tail_word file i t a = (if t \<noteq> 0 then d88_entry file (120 + i) t a else Some a)"

definition d88_head_word :: "u32 \<Rightarrow> nat \<Rightarrow> u32 \<Rightarrow> d88_acc \<Rightarrow> d88_acc option" where
  "d88_head_word file i t a =
     (if i = 6 then Some (a\<lparr>a_protect := t\<rparr>)
      else if i = 7 then Some (a\<lparr>a_fd_size := t\<rparr>)
      else if 8 \<le> i \<and> t \<noteq> 0
      then d88_entry file (i - 8) t (if i = 8 then a\<lparr>a_first := t\<rparr> else a)
      else Some a)"

fun d88_walk :: "(nat \<Rightarrow> u32 \<Rightarrow> d88_acc \<Rightarrow> d88_acc option) \<Rightarrow> nat list \<Rightarrow> d88_acc \<Rightarrow>
    ('h, 'z) hw_scheme \<Rightarrow> d88_acc option \<times> ('h, 'z) hw_scheme" where
  "d88_walk f [] a s = (Some a, s)"
| "d88_walk f (i # is) a s =
     (let (t, s) = bram_read s
      in case f i t a of None \<Rightarrow> (None, s) | Some a \<Rightarrow> d88_walk f is a s)"

definition d88_adopt :: "nat \<Rightarrow> d88_acc \<Rightarrow> u32 list \<Rightarrow> ('h, 'z) fdd_st_scheme \<Rightarrow> ('h, 'z) fdd_st_scheme" where
  "d88_adopt drive a h s =
     (let n = drop_bit 24 (h ! 0) AND 0xFF;
          trk_spt = h ! 1 AND 0xFFFF
      in if trk_spt = 0 \<or> 32 < trk_spt then s
         else s\<lparr>fdd_d88 := (fdd_d88 s)(drive := True),
                fdd_d88_wp := (fdd_d88_wp s)(drive := a_protect a AND 0x00100000 \<noteq> 0),
                fdd_img_geom := (fdd_img_geom s)(drive := (fdd_img_geom s drive)
                  (0 := trk_spt, 1 := of_nat (a_last a div 2 + 1), 2 := if a_odd a then 2 else 1,
                   3 := if n = 3 then 1 else 0))\<rparr>)"

definition fdd_probe_d88 ::
  "'h apf \<Rightarrow> nat \<Rightarrow> u32 \<Rightarrow> ('h, 'z) fdd_st_scheme \<Rightarrow> ('h, 'z) fdd_st_scheme" where
  "fdd_probe_d88 apf drive sectors s =
     (let file = sectors * 512;
          s = s\<lparr>fdd_d88 := (fdd_d88 s)(drive := False), fdd_d88_wp := (fdd_d88_wp s)(drive := False),
                fdd_base := (fdd_base s)(drive := 0),
                fdd_img_geom := (fdd_img_geom s)(drive := (fdd_img_geom s drive)(0 := 0))\<rparr>;
          (ok, s) = fdd_read_at apf drive 0x200 176 s
      in if \<not> ok then s
         else case d88_walk (d88_tail_word file) [0..<44] d88_acc0 (bram_seek 0 s) of
           (None, s) \<Rightarrow> s
         | (Some a, s) \<Rightarrow>
             let (ok, s) = fdd_read_at apf drive 0 512 s
             in if \<not> ok then s
                else case d88_walk (d88_head_word file) [0..<128] a (bram_seek 0 s) of
                  (None, s) \<Rightarrow> s
                | (Some a, s) \<Rightarrow>
                    if a_populated a = 0 \<or> a_first a \<noteq> D88_HDRSIZE
                       \<or> a_fd_size a + 512 < file \<or> file + 512 < a_fd_size a then s
                    else
                      let (ok, s) = fdd_read_at apf drive (a_first a) D88_SECHDR s
                      in if \<not> ok then s
                         else let (h, s) = collect 4 bram_read (bram_seek 0 s) in d88_adopt drive a h s)"


section \<open>The D88 walk\<close>

text \<open>\<open>while (l >= spt) { l -= spt; trk++; }\<close> for a nonzero \<open>spt\<close>.\<close>

function lba_split :: "u32 \<Rightarrow> u32 \<Rightarrow> u32 \<Rightarrow> u32 \<times> u32" where
  "lba_split spt l trk = (if spt \<noteq> 0 \<and> spt \<le> l then lba_split spt (l - spt) (trk + 1) else (trk, l))"
  by pat_completeness auto
termination
proof (relation "measure (\<lambda>(spt, l, trk). unat l)")
  fix spt l trk :: u32
  assume "spt \<noteq> 0 \<and> spt \<le> l"
  then have "0 < unat spt" "unat (l - spt) = unat l - unat spt" "unat spt \<le> unat l"
    by (simp_all add: unat_gt_0 unat_sub word_le_nat_alt)
  then show "((spt, l - spt, trk + 1), spt, l, trk) \<in> measure (\<lambda>(spt, l, trk). unat l)" by simp
qed simp

declare lba_split.simps [simp del]

text \<open>A header for sector \<open>r\<close> at \<open>pos\<close>: its data starts right after.\<close>

definition d88_note :: "nat \<Rightarrow> u32 \<Rightarrow> u32 \<Rightarrow> u32 \<Rightarrow> ('h, 'z) fdd_st_scheme \<Rightarrow> ('h, 'z) fdd_st_scheme" where
  "d88_note drive spt pos r s =
     (if 1 \<le> r \<and> r \<le> spt
      then s\<lparr>d88_cache_off := (d88_cache_off s)(drive :=
             (d88_cache_off s drive)(unat (r - 1) := pos + D88_SECHDR))\<rparr>
      else s)"

text \<open>The sector headers of a cold track, \<open>n\<close> of them left, from file position \<open>pos\<close>.\<close>

fun d88_headers :: "'h apf \<Rightarrow> nat \<Rightarrow> u32 \<Rightarrow> nat \<Rightarrow> u32 \<Rightarrow> ('h, 'z) fdd_st_scheme \<Rightarrow> ('h, 'z) fdd_st_scheme" where
  "d88_headers apf drive spt 0 pos s = s"
| "d88_headers apf drive spt (Suc n) pos s =
     (let (ok, s) = fdd_read_at apf drive pos D88_SECHDR s
      in if \<not> ok then s
         else
           let s = bram_seek 0 s;
               (h0, s) = bram_read s;
               (h1, s) = bram_read s;
               (h2, s) = bram_read s;
               (h3, s) = bram_read s;
               dsize = drop_bit 16 h3 AND 0xFFFF;
               s = d88_note drive spt pos (drop_bit 16 h0 AND 0xFF) s
           in if dsize = 0 \<or> 4096 < dsize then s
              else d88_headers apf drive spt n (pos + (D88_SECHDR + dsize)) s)"

text \<open>A cold track: \<open>False\<close> where the C code returns 0 before reaching the cache.\<close>

definition d88_fill :: "'h apf \<Rightarrow> nat \<Rightarrow> u32 \<Rightarrow> u32 \<Rightarrow> ('h, 'z) fdd_st_scheme \<Rightarrow> bool \<times> ('h, 'z) fdd_st_scheme" where
  "d88_fill apf drive spt trk s =
     (let s = s\<lparr>d88_cache_trk := (d88_cache_trk s)(drive := -1),
                d88_cache_off := (d88_cache_off s)(drive :=
                  (\<lambda>i. if i < D88_CACHE_SPT then 0 else d88_cache_off s drive i))\<rparr>;
          (ok, s) = fdd_read_at apf drive (0x20 + trk * 4) 4 s
      in if \<not> ok then (False, s)
         else
           let (pos, s) = bram_read (bram_seek 0 s)
           in if pos = 0 then (False, s\<lparr>d88_cache_trk := (d88_cache_trk s)(drive := trk)\<rparr>)
              else
                let s = d88_headers apf drive spt (unat spt) pos s
                in (True, s\<lparr>d88_cache_trk := (d88_cache_trk s)(drive := trk)\<rparr>))"

definition d88_offset :: "'h apf \<Rightarrow> nat \<Rightarrow> u32 \<Rightarrow> ('h, 'z) fdd_st_scheme \<Rightarrow> u32 \<times> ('h, 'z) fdd_st_scheme" where
  "d88_offset apf drive lba s =
     (let spt = fdd_img_geom s drive 0
      in if spt = 0 \<or> of_nat D88_CACHE_SPT < spt then (0, s)
         else
           let (trk, l) = lba_split spt lba 0;
               (ok, s) = (if d88_cache_trk s drive \<noteq> trk then d88_fill apf drive spt trk s else (True, s))
           in if \<not> ok then (0, s) else (d88_cache_off s drive (unat l), s))"

section \<open>Moving a sector\<close>

definition push_bytes :: "u32 \<Rightarrow> ('h, 'z) bus_scheme \<Rightarrow> ('h, 'z) bus_scheme" where
  "push_bytes w s = for_to 4 (\<lambda>b s. mgmt_push (drop_bit (b * 8) w AND 0xFF) s) s"

definition fifo_word :: "('h, 'z) bus_scheme \<Rightarrow> ('h, 'z) bus_scheme" where
  "fifo_word s = (let (w, s) = bram_read s in push_bytes w s)"

definition push_sector :: "nat \<Rightarrow> u32 \<Rightarrow> ('h, 'z) fdd_st_scheme \<Rightarrow> ('h, 'z) fdd_st_scheme" where
  "push_sector drive woff s =
     (let s = bram_seek woff s;
          s = s\<lparr>mgmt_addr := push_bit 4 (of_nat drive) OR FMGMT_FIFO\<rparr>
      in for_to (unat (fdd_sector_words s drive)) (\<lambda>_. fifo_word) s)"

definition pop_byte :: "nat \<Rightarrow> u32 \<times> ('h, 'z) bus_scheme \<Rightarrow> u32 \<times> ('h, 'z) bus_scheme" where
  "pop_byte b ws = (let (w, s) = ws; (v, s) = mgmt_pop s in (w OR push_bit (b * 8) (v AND 0xFF), s))"

definition pop_word :: "('h, 'z) bus_scheme \<Rightarrow> ('h, 'z) bus_scheme" where
  "pop_word s = (let (w, s) = for_to 4 pop_byte (0, s) in bram_write w s)"

definition pull_fifo :: "nat \<Rightarrow> ('h, 'z) fdd_st_scheme \<Rightarrow> ('h, 'z) fdd_st_scheme" where
  "pull_fifo drive s =
     (let s = bram_seek (stage_word drive s) s;
          s = s\<lparr>mgmt_addr := push_bit 4 (of_nat drive) OR FMGMT_FIFO\<rparr>
      in for_to (unat (fdd_sector_words s drive)) (\<lambda>_. pop_word) s)"

section \<open>Geometry and identity\<close>

record fdd_geom =
  min_sectors :: u32
  g_cyls :: u32
  g_spt :: u32
  g_heads :: u32
  g_1024 :: u32

definition geom :: "u32 \<Rightarrow> u32 \<Rightarrow> u32 \<Rightarrow> u32 \<Rightarrow> u32 \<Rightarrow> fdd_geom" where
  "geom m c sp h k = \<lparr>min_sectors = m, g_cyls = c, g_spt = sp, g_heads = h, g_1024 = k\<rparr>"

definition fdd_geoms :: "fdd_geom list" where
  "fdd_geoms =
     [geom 2880 80 18 2 0, geom 2464 77 8 2 1, geom 1440 80 9 2 0, geom 1280 80 8 2 0, geom 0 80 8 2 0]"

text \<open>The first row whose sector count the image meets, the first row when none does.\<close>

definition table_geom :: "u32 \<Rightarrow> fdd_geom" where
  "table_geom sectors = (case find (\<lambda>g. min_sectors g \<le> sectors) fdd_geoms of
     Some g \<Rightarrow> g | None \<Rightarrow> hd fdd_geoms)"

definition mount_geom :: "nat \<Rightarrow> u32 \<Rightarrow> ('h, 'z) fdd_st_scheme \<Rightarrow> fdd_geom" where
  "mount_geom drive sectors s =
     (let i = fdd_img_geom s drive in
      if i 0 \<noteq> 0 then geom 0 (i 1) (i 0) (i 2) (i 3) else table_geom sectors)"

definition fnv_byte :: "u32 \<Rightarrow> u32 \<Rightarrow> u32" where
  "fnv_byte h b = (h XOR b) * 16777619"

definition hash_word :: "u32 \<times> ('h, 'z) hw_scheme \<Rightarrow> u32 \<times> ('h, 'z) hw_scheme" where
  "hash_word hs =
     (let (h, s) = hs; (w, s) = bram_read s;
          h = fnv_byte h (w AND 0xFF);
          h = fnv_byte h (drop_bit 8 w AND 0xFF);
          h = fnv_byte h (drop_bit 16 w AND 0xFF)
      in (fnv_byte h (drop_bit 24 w), s))"

definition hash_block :: "'h apf \<Rightarrow> nat \<Rightarrow> u32 \<Rightarrow> u32 \<times> ('h, 'z) hw_scheme \<Rightarrow> u32 \<times> ('h, 'z) hw_scheme" where
  "hash_block apf drive off hs =
     (let (h, s) = hs; (ok, s) = tds_transfer apf (fdd_slot drive) off FDD_TDS_READ SECTOR_BYTES s
      in if \<not> ok then (h, s) else for_to SECTOR_WORDS (\<lambda>_. hash_word) (h, bram_seek 0 s))"

definition fdd_image_hash :: "'h apf \<Rightarrow> nat \<Rightarrow> u32 \<Rightarrow> ('h, 'z) fdd_st_scheme \<Rightarrow> u32 \<times> ('h, 'z) fdd_st_scheme" where
  "fdd_image_hash apf drive sectors s =
     (let h = fnv_byte 2166136261 sectors;
          bytes = sectors * SECTOR_BYTES;
          hs = hash_block apf drive (fdd_base s drive) (h, s);
          (h, s) = (if bytes < 2 * SECTOR_BYTES then hs
                    else hash_block apf drive
                           (fdd_base (snd hs) drive + (drop_bit 1 bytes AND NOT (SECTOR_BYTES - 1))) hs)
      in (if h \<noteq> 0 then h else 1, s))"

section \<open>Mount, eject, insert, unbind\<close>

definition fdd_declare :: "nat \<Rightarrow> fdd_geom \<Rightarrow> ('h, 'z) fdd_st_scheme \<Rightarrow> ('h, 'z) fdd_st_scheme" where
  "fdd_declare drive g s =
     (let s = fdd_mgmt_write drive FMGMT_PRESENT 0 s;
          s = fdd_mgmt_write drive FMGMT_CYLS (g_cyls g) s;
          s = fdd_mgmt_write drive FMGMT_SPT (g_spt g) s;
          s = fdd_mgmt_write drive FMGMT_TOTAL (g_cyls g * g_spt g * g_heads g) s;
          s = fdd_mgmt_write drive FMGMT_HEADS (g_heads g) s;
          s = fdd_mgmt_write drive FMGMT_SECSIZE (g_1024 g) s;
          s = s\<lparr>fdd_sector_words := (fdd_sector_words s)(drive := if g_1024 g \<noteq> 0 then 256 else 128)\<rparr>;
          s = fdd_mgmt_write drive FMGMT_WRPROT (if fdd_d88_wp s drive then 1 else 0) s
      in fdd_mgmt_write drive FMGMT_PRESENT 1 s)"

definition fdd_mount :: "'h apf \<Rightarrow> nat \<Rightarrow> u32 \<Rightarrow> ('h, 'z) fdd_st_scheme \<Rightarrow> ('h, 'z) fdd_st_scheme" where
  "fdd_mount apf drive sectors s =
     (let s = s\<lparr>d88_cache_trk := (d88_cache_trk s)(drive := -1), pref_lba := (pref_lba s)(drive := -1)\<rparr>;
          s = fdd_probe_d88 apf drive sectors s;
          s = (if \<not> fdd_d88 s drive then fdd_probe_fdi apf drive sectors s else s);
          s = fdd_declare drive (mount_geom drive sectors s) s;
          s = s\<lparr>fdd_sectors := (fdd_sectors s)(drive := sectors),
                fdd_inserted := (fdd_inserted s)(drive := True)\<rparr>
      in if drive = 0 then let (h, s) = fdd_image_hash apf drive sectors s in settings_disk_mounted h s
         else s)"

definition fdd_eject :: "nat \<Rightarrow> ('h, 'z) fdd_st_scheme \<Rightarrow> ('h, 'z) fdd_st_scheme" where
  "fdd_eject drive s =
     (if 1 < drive \<or> \<not> fdd_inserted s drive then s
      else
        let s = fdd_mgmt_write drive FMGMT_PRESENT 0 s
        in s\<lparr>fdd_inserted := (fdd_inserted s)(drive := False), pref_lba := (pref_lba s)(drive := -1)\<rparr>)"

definition fdd_insert :: "'h apf \<Rightarrow> nat \<Rightarrow> ('h, 'z) fdd_st_scheme \<Rightarrow> ('h, 'z) fdd_st_scheme" where
  "fdd_insert apf drive s =
     (if 1 < drive \<or> fdd_inserted s drive \<or> fdd_sectors s drive = 0 then s
      else fdd_mount apf drive (fdd_sectors s drive) s)"

definition fdd_unbind :: "nat \<Rightarrow> ('h, 'z) fdd_st_scheme \<Rightarrow> ('h, 'z) fdd_st_scheme" where
  "fdd_unbind drive s =
     (if 1 < drive then s
      else
        let s = fdd_eject drive s;
            s = s\<lparr>fdd_sectors := (fdd_sectors s)(drive := 0)\<rparr>
        in if drive = 0 then settings_disk_mounted 0 s else s)"

definition fdd_is_inserted :: "nat \<Rightarrow> ('h, 'z) fdd_st_scheme \<Rightarrow> bool" where
  "fdd_is_inserted drive s \<longleftrightarrow> drive < 2 \<and> fdd_inserted s drive"

definition fdd_mounted_sectors :: "nat \<Rightarrow> ('h, 'z) fdd_st_scheme \<Rightarrow> u32" where
  "fdd_mounted_sectors drive s = (if drive < 2 then fdd_sectors s drive else 0)"

section \<open>Serving a request\<close>

definition fdd_bytes :: "nat \<Rightarrow> ('h, 'z) fdd_st_scheme \<Rightarrow> u32" where
  "fdd_bytes drv s = fdd_sector_words s drv * 4"

text \<open>Where a sector lies in the image file; the flag is false where a D88 has no such sector.\<close>

definition sector_offset :: "'h apf \<Rightarrow> nat \<Rightarrow> u32 \<Rightarrow> ('h, 'z) fdd_st_scheme \<Rightarrow> (u32 \<times> bool) \<times> ('h, 'z) fdd_st_scheme" where
  "sector_offset apf drv lba s =
     (if fdd_d88 s drv then let (off, s) = d88_offset apf drv lba s in ((off, off \<noteq> 0), s)
      else ((fdd_base s drv + lba * fdd_bytes drv s, True), s))"

text \<open>Pushed: count it and sample the request bits.\<close>

definition fdd_pushed :: "('h, 'z) fdd_st_scheme \<Rightarrow> ('h, 'z) fdd_st_scheme" where
  "fdd_pushed s =
     (let s = s\<lparr>fdd_dbg_pushed := fdd_dbg_pushed s + 1\<rparr>;
          (req, s) = read_request s
      in s\<lparr>fdd_dbg_aft := req\<rparr>)"

definition fdd_serve :: "'h apf \<Rightarrow> nat \<Rightarrow> u32 \<Rightarrow> u32 \<Rightarrow> bool \<Rightarrow> ('h, 'z) fdd_st_scheme \<Rightarrow> ('h, 'z) fdd_st_scheme" where
  "fdd_serve apf drv lba off found s =
     (if pref_lba s drv = lba then fdd_pushed (push_sector drv PREF_WORD s)
      else if \<not> found then s\<lparr>fdd_dbg_err := fdd_dbg_err s + 1\<rparr>
      else
        let (ok, s) = tds_transfer_to apf (fdd_slot drv) off FDD_TDS_READ (fdd_bytes drv s)
                        (FDD_BRIDGE_BASE + stage_word drv s * 4) s
        in if ok then fdd_pushed (push_sector drv (stage_word drv s) s)
           else s\<lparr>fdd_dbg_err := fdd_dbg_err s + 1\<rparr>)"

definition fdd_prefetch :: "'h apf \<Rightarrow> nat \<Rightarrow> u32 \<Rightarrow> ('h, 'z) fdd_st_scheme \<Rightarrow> ('h, 'z) fdd_st_scheme" where
  "fdd_prefetch apf drv lba s =
     (let s = s\<lparr>pref_lba := (pref_lba s)(drv := -1)\<rparr>;
          nl = lba + 1;
          bytes = fdd_bytes drv s
      in if nl * bytes < fdd_sectors s drv * 512
         then
           let (noff, s) = (if fdd_d88 s drv then d88_offset apf drv nl s
                            else (fdd_base s drv + nl * bytes, s))
           in if noff = 0 then s
              else
                let (ok, s) = tds_transfer_to apf (fdd_slot drv) noff FDD_TDS_READ bytes
                                (FDD_BRIDGE_BASE + PREF_BYTE) s
                in if ok then s\<lparr>pref_lba := (pref_lba s)(drv := nl)\<rparr> else s
         else s)"

definition fdd_poll_read :: "'h apf \<Rightarrow> ('h, 'z) fdd_st_scheme \<Rightarrow> ('h, 'z) fdd_st_scheme" where
  "fdd_poll_read apf s =
     (let (reg0, s) = fdd_mgmt_read 0 FMGMT_PRESENT s;
          drv = (if reg0 AND FDD_LBA_DRIVE \<noteq> 0 then 1 else 0);
          lba = reg0 AND FDD_LBA_MASK;
          ((off, found), s) = sector_offset apf drv lba s;
          s = s\<lparr>fdd_dbg_seen := fdd_dbg_seen s + 1, fdd_dbg_lba := reg0\<rparr>
      in fdd_prefetch apf drv lba (fdd_serve apf drv lba off found s))"

definition fdd_poll_write :: "'h apf \<Rightarrow> ('h, 'z) fdd_st_scheme \<Rightarrow> ('h, 'z) fdd_st_scheme" where
  "fdd_poll_write apf s =
     (let (reg0, s) = fdd_mgmt_read 0 FMGMT_PRESENT s;
          drv = (if reg0 AND FDD_LBA_DRIVE \<noteq> 0 then 1 else 0);
          lba = reg0 AND FDD_LBA_MASK;
          (off, s) = (if fdd_d88 s drv then d88_offset apf drv lba s
                      else (fdd_base s drv + lba * fdd_bytes drv s, s));
          s = pull_fifo drv s;
          s = (if \<not> fdd_d88 s drv \<or> off \<noteq> 0
               then snd (tds_transfer_to apf (fdd_slot drv) off FDD_TDS_WRITE (fdd_bytes drv s)
                           (FDD_BRIDGE_BASE + stage_word drv s * 4) s)
               else s)
      in s\<lparr>pref_lba := (pref_lba s)(drv := -1)\<rparr>)"

definition fdd_poll :: "'h apf \<Rightarrow> ('h, 'z) fdd_st_scheme \<Rightarrow> ('h, 'z) fdd_st_scheme" where
  "fdd_poll apf s =
     (let (req, s) = read_request s
      in if req = 0 then s\<lparr>gap_polls := gap_polls s + 1\<rparr>
         else
           let s = s\<lparr>fdd_dbg_gap := gap_polls s, gap_polls := 0\<rparr>
           in if req AND FDD_REQ_READ \<noteq> 0 then fdd_poll_read apf s
              else if req AND FDD_REQ_WRITE \<noteq> 0 then fdd_poll_write apf s
              else s)"

end
