(* ===== verification/Fdd_Correct.thy ===== *)
theory Fdd_Correct
  imports Fdd Settings_Profiles
begin

text \<open>
  What the floppy service does: closed forms of the sector movers, the frame every request
  keeps (the settings window, the settings themselves, the other windows), and a served read
  and write against the dataslot interface.
\<close>

section \<open>The FIFO movers\<close>

abbreviation fifo_addr :: "nat \<Rightarrow> u32" where
  "fifo_addr drive \<equiv> push_bit 4 (of_nat drive) OR FMGMT_FIFO"

lemma fifo_addr_bits:
  assumes "drive < 2"
  shows "\<not> bit (fifo_addr drive) 10" "\<not> bit (fifo_addr drive) 9" "fifo_addr drive AND 0xF = 15"
proof -
  have "drive = 0 \<or> drive = 1" using assms by auto
  then show "\<not> bit (fifo_addr drive) 10" "\<not> bit (fifo_addr drive) 9" "fifo_addr drive AND 0xF = 15"
    by (auto simp: FMGMT_FIFO_def)
qed

lemma ucast_byte_low: "(ucast (ucast (drop_bit (8 * b) w AND 0xFF :: u32) :: u16) :: u8) = byte_of w b"
proof -
  have m: "(0xFF :: u32) = mask 8" by (simp add: mask_eq_exp_minus_1)
  show ?thesis
    unfolding m byte_of_def by (rule bit_word_eqI) (auto simp: bit_simps mult.commute)
qed

lemma fifo_push_eq:
  assumes "drive < 2" "mgmt_addr s = fifo_addr drive"
  shows "mgmt_push (drop_bit (8 * b) w AND 0xFF) s =
    s\<lparr>mgmt_wdata := ucast (drop_bit (8 * b) w AND 0xFF),
      fdd := (fdd s)\<lparr>fdc_pushed := fdc_pushed (fdd s) @ [byte_of w b]\<rparr>\<rparr>"
  using fifo_addr_bits [OF assms(1)] ucast_byte_low [of b w]
  by (simp add: mgmt_push_def mgmt_strobe_wr_def Let_def assms(2) fdc_write_def)

lemma push_bytes_eq:
  assumes "drive < 2" "mgmt_addr s = fifo_addr drive"
  shows "\<exists>x. push_bytes w s = s\<lparr>mgmt_wdata := x,
    fdd := (fdd s)\<lparr>fdc_pushed := fdc_pushed (fdd s) @ map (byte_of w) [0..<4]\<rparr>\<rparr>"
proof -
  have "\<exists>x. for_to n (\<lambda>b s. mgmt_push (drop_bit (b * 8) w AND 0xFF) s) s = s\<lparr>mgmt_wdata := x,
      fdd := (fdd s)\<lparr>fdc_pushed := fdc_pushed (fdd s) @ map (byte_of w) [0..<n]\<rparr>\<rparr>" for n
  proof (induction n)
    case 0
    show ?case by (simp add: exI [of _ "mgmt_wdata s"])
  next
    case (Suc n)
    define u where "u = (\<lambda>x. s\<lparr>mgmt_wdata := x,
      fdd := (fdd s)\<lparr>fdc_pushed := fdc_pushed (fdd s) @ map (byte_of w) [0..<n]\<rparr>\<rparr>)"
    from Suc obtain x where x: "for_to n (\<lambda>b s. mgmt_push (drop_bit (b * 8) w AND 0xFF) s) s = u x"
      by (auto simp: u_def)
    have "mgmt_addr (u x) = fifo_addr drive" using assms(2) by (simp add: u_def)
    from fifo_push_eq [OF assms(1) this, of n w]
    have "for_to (Suc n) (\<lambda>b s. mgmt_push (drop_bit (b * 8) w AND 0xFF) s) s
        = s\<lparr>mgmt_wdata := ucast (drop_bit (8 * n) w AND 0xFF),
            fdd := (fdd s)\<lparr>fdc_pushed := fdc_pushed (fdd s) @ map (byte_of w) [0..<Suc n]\<rparr>\<rparr>"
      by (simp add: for_to_Suc x mult.commute) (simp add: u_def)
    then show ?case by blast
  qed
  then show ?thesis by (simp add: push_bytes_def del: for_to_numeral)
qed

lemma fifo_words:
  assumes "drive < 2" "mgmt_addr s = fifo_addr drive"
  shows "\<exists>x. for_to n (\<lambda>_. fifo_word) s = s\<lparr>bram_addr := bram_addr s + of_nat n, mgmt_wdata := x,
    fdd := (fdd s)\<lparr>fdc_pushed := fdc_pushed (fdd s) @ ram_bytes (bram s) (bram_addr s) (4 * n)\<rparr>\<rparr>"
proof (induction n)
  case 0
  have "s = s\<lparr>bram_addr := bram_addr s, mgmt_wdata := mgmt_wdata s, fdd := fdd s\<rparr>" by simp
  then show ?case by (simp add: ram_bytes_def exI [of _ "mgmt_wdata s"])
next
  case (Suc n)
  then obtain x where IH: "for_to n (\<lambda>_. fifo_word) s = s\<lparr>bram_addr := bram_addr s + of_nat n, mgmt_wdata := x,
    fdd := (fdd s)\<lparr>fdc_pushed := fdc_pushed (fdd s) @ ram_bytes (bram s) (bram_addr s) (4 * n)\<rparr>\<rparr>" (is "_ = ?t")
    by blast
  let ?w = "bram s (bram_addr s + of_nat n)" and ?u = "?t\<lparr>bram_addr := bram_addr ?t + 1\<rparr>"
  have "mgmt_addr ?u = fifo_addr drive" using assms(2) by simp
  from push_bytes_eq [OF assms(1) this, of ?w] obtain y where
    "push_bytes ?w ?u = ?u\<lparr>mgmt_wdata := y,
      fdd := (fdd ?u)\<lparr>fdc_pushed := fdc_pushed (fdd ?u) @ map (byte_of ?w) [0..<4]\<rparr>\<rparr>" by blast
  then have "for_to (Suc n) (\<lambda>_. fifo_word) s = s\<lparr>bram_addr := bram_addr s + of_nat (Suc n), mgmt_wdata := y,
    fdd := (fdd s)\<lparr>fdc_pushed := fdc_pushed (fdd s) @ ram_bytes (bram s) (bram_addr s) (4 * Suc n)\<rparr>\<rparr>"
    unfolding ram_bytes_Suc4 for_to_Suc IH by (simp add: fifo_word_def bram_port_eqs algebra_simps)
  then show ?case by blast
qed

text \<open>A sector streamed into the controller.\<close>

lemma push_sector_eq:
  assumes "drive < 2"
  shows "\<exists>a x. push_sector drive woff s = s\<lparr>bram_addr := a, mgmt_addr := fifo_addr drive, mgmt_wdata := x,
    fdd := (fdd s)\<lparr>fdc_pushed := fdc_pushed (fdd s)
      @ ram_bytes (bram s) (ucast woff) (4 * unat (fdd_sector_words s drive))\<rparr>\<rparr>"
proof -
  let ?m = "s\<lparr>bram_addr := ucast woff, mgmt_addr := fifo_addr drive\<rparr>"
  have "mgmt_addr ?m = fifo_addr drive" by simp
  from fifo_words [OF assms this, of "unat (fdd_sector_words s drive)"] obtain x where
    e: "for_to (unat (fdd_sector_words s drive)) (\<lambda>_. fifo_word) ?m = ?m\<lparr>bram_addr := bram_addr ?m
        + of_nat (unat (fdd_sector_words s drive)),
      mgmt_wdata := x, fdd := (fdd ?m)\<lparr>fdc_pushed := fdc_pushed (fdd ?m)
        @ ram_bytes (bram ?m) (bram_addr ?m) (4 * unat (fdd_sector_words s drive))\<rparr>\<rparr>" by blast
  have "push_sector drive woff s = for_to (unat (fdd_sector_words s drive)) (\<lambda>_. fifo_word) ?m"
    by (simp add: push_sector_def bram_seek_def)
  also have "\<dots> = s\<lparr>bram_addr := ucast woff + of_nat (unat (fdd_sector_words s drive)), mgmt_addr := fifo_addr drive, mgmt_wdata := x,
    fdd := (fdd s)\<lparr>fdc_pushed := fdc_pushed (fdd s)
      @ ram_bytes (bram s) (ucast woff) (4 * unat (fdd_sector_words s drive))\<rparr>\<rparr>"
    unfolding e by simp
  finally show ?thesis by blast
qed

text \<open>A sector drained from it: the bytes the controller queued, packed four to a word.\<close>

definition popped_words :: "nat \<Rightarrow> (nat \<Rightarrow> u8) \<Rightarrow> u32 list" where
  "popped_words n p = map (\<lambda>i. pack4 (p (4 * i)) (p (4 * i + 1)) (p (4 * i + 2)) (p (4 * i + 3))) [0..<n]"

lemma ucast_u8_u16: "(ucast (ucast (x :: u8) :: u16) :: u32) = ucast x"
  by (rule bit_word_eqI) (auto simp: bit_simps dest: bit_imp_le_length)

lemma mgmt_pop_eq:
  assumes "drive < 2" "mgmt_addr s = fifo_addr drive"
  shows "mgmt_pop s = (ucast (fdc_popped (fdd s) 0),
    s\<lparr>mgmt_rdata := ucast (fdc_popped (fdd s) 0),
      fdd := (fdd s)\<lparr>fdc_popped := (\<lambda>n. fdc_popped (fdd s) (Suc n))\<rparr>\<rparr>)"
  using fifo_addr_bits [OF assms(1)]
  by (simp add: mgmt_pop_def mgmt_strobe_rd_def Let_def assms(2) fdc_read_def ucast_u8_u16)

lemma ucast_u8_low: "(ucast (x :: u8) :: u32) AND 0xFF = ucast x"
proof -
  have m: "(0xFF :: u32) = mask 8" by (simp add: mask_eq_exp_minus_1)
  show ?thesis unfolding m by (rule bit_word_eqI) (auto simp: bit_simps dest: bit_imp_le_length)
qed

lemma pop_word_eq:
  assumes "drive < 2" "mgmt_addr s = fifo_addr drive"
  defines "p \<equiv> fdc_popped (fdd s)"
  shows "\<exists>x. pop_word s = s\<lparr>bram := mem_put (bram s) (bram_addr s) [pack4 (p 0) (p 1) (p 2) (p 3)],
    bram_addr := bram_addr s + 1, mgmt_rdata := x, fdd := (fdd s)\<lparr>fdc_popped := (\<lambda>n. p (n + 4))\<rparr>\<rparr>"
proof -
  define st where "st = (\<lambda>n x. s\<lparr>mgmt_rdata := x, fdd := (fdd s)\<lparr>fdc_popped := (\<lambda>k. p (k + n))\<rparr>\<rparr>)"
  have step: "pop_byte b (w, st n x) = (w OR push_bit (b * 8) (ucast (p n)), st (Suc n) (ucast (p n)))" for b w n x
  proof -
    have "mgmt_pop (st n x) = (ucast (p n), st (Suc n) (ucast (p n)))"
      using mgmt_pop_eq [OF assms(1), of "st n x"] assms(2) by (simp add: st_def)
    then show ?thesis unfolding pop_byte_def prod.case Let_def by (simp only: prod.case ucast_u8_low)
  qed
  have s0: "s = st 0 (mgmt_rdata s)" by (simp add: st_def p_def)
  have "for_to 4 pop_byte (0, s) = (pack4 (p 0) (p 1) (p 2) (p 3), st 4 (ucast (p 3)))"
    by (subst s0, simp add: step, simp add: pack4_def numeral_eq_Suc or.assoc)
  then have "pop_word s = bram_write (pack4 (p 0) (p 1) (p 2) (p 3)) (st 4 (ucast (p 3)))"
    by (simp add: pop_word_def del: for_to_numeral)
  then show ?thesis by (intro exI [of _ "ucast (p 3)"]) (simp add: bram_port_eqs st_def)
qed

lemma pop_words:
  assumes "drive < 2" "mgmt_addr s = fifo_addr drive" "n \<le> 1024"
  defines "p \<equiv> fdc_popped (fdd s)"
  shows "\<exists>x. for_to n (\<lambda>_. pop_word) s = s\<lparr>bram := mem_put (bram s) (bram_addr s) (popped_words n p),
    bram_addr := bram_addr s + of_nat n, mgmt_rdata := x, fdd := (fdd s)\<lparr>fdc_popped := (\<lambda>k. p (k + 4 * n))\<rparr>\<rparr>"
  using assms(3)
proof (induction n)
  case 0
  have "s = s\<lparr>mgmt_rdata := mgmt_rdata s\<rparr>" by simp
  then show ?case by (simp add: popped_words_def p_def exI [of _ "mgmt_rdata s"])
next
  case (Suc n)
  define t where "t = (\<lambda>x. s\<lparr>bram := mem_put (bram s) (bram_addr s) (popped_words n p),
    bram_addr := bram_addr s + of_nat n, mgmt_rdata := x, fdd := (fdd s)\<lparr>fdc_popped := (\<lambda>k. p (k + 4 * n))\<rparr>\<rparr>)"
  from Suc obtain x where IH: "for_to n (\<lambda>_. pop_word) s = t x" by (auto simp: t_def)
  have "mgmt_addr (t x) = fifo_addr drive" using assms(2) by (simp add: t_def)
  from pop_word_eq [OF assms(1) this] obtain y where
    w: "pop_word (t x) = (t x)\<lparr>bram := mem_put (bram (t x)) (bram_addr (t x))
         [pack4 (p (4 * n)) (p (4 * n + 1)) (p (4 * n + 2)) (p (4 * n + 3))],
       bram_addr := bram_addr (t x) + 1, mgmt_rdata := y, fdd := (fdd (t x))\<lparr>fdc_popped := (\<lambda>k. p (k + 4 * Suc n))\<rparr>\<rparr>"
    by (auto simp: t_def algebra_simps)
  have app: "mem_put (mem_put (bram s) (bram_addr s) (popped_words n p)) (bram_addr s + of_nat n)
      [pack4 (p (4 * n)) (p (4 * n + 1)) (p (4 * n + 2)) (p (4 * n + 3))]
      = mem_put (bram s) (bram_addr s) (popped_words (Suc n) p)"
    using mem_put_append [of "popped_words n p" "[pack4 (p (4 * n)) (p (4 * n + 1)) (p (4 * n + 2)) (p (4 * n + 3))]"
        "bram s" "bram_addr s"] Suc.prems
    by (simp add: popped_words_def)
  have "for_to (Suc n) (\<lambda>_. pop_word) s = s\<lparr>bram := mem_put (bram s) (bram_addr s) (popped_words (Suc n) p),
    bram_addr := bram_addr s + of_nat (Suc n), mgmt_rdata := y, fdd := (fdd s)\<lparr>fdc_popped := (\<lambda>k. p (k + 4 * Suc n))\<rparr>\<rparr>"
    unfolding for_to_Suc IH w by (simp add: t_def app [simplified])
  then show ?case by blast
qed


lemma pull_fifo_eq:
  assumes "drive < 2" "fdd_sector_words s drive \<le> 256"
  shows "\<exists>a x. pull_fifo drive s = s\<lparr>bram := mem_put (bram s) (ucast (stage_word drive s))
      (popped_words (unat (fdd_sector_words s drive)) (fdc_popped (fdd s))),
    bram_addr := a, mgmt_addr := fifo_addr drive, mgmt_rdata := x,
    fdd := (fdd s)\<lparr>fdc_popped := (\<lambda>k. fdc_popped (fdd s) (k + 4 * unat (fdd_sector_words s drive)))\<rparr>\<rparr>"
proof -
  let ?m = "s\<lparr>bram_addr := ucast (stage_word drive s), mgmt_addr := fifo_addr drive\<rparr>"
  let ?n = "unat (fdd_sector_words s drive)"
  have "mgmt_addr ?m = fifo_addr drive" "?n \<le> 1024" using assms(2) by (simp_all add: word_le_nat_alt)
  from pop_words [OF assms(1) this] obtain x where
    e: "for_to ?n (\<lambda>_. pop_word) ?m = ?m\<lparr>bram := mem_put (bram ?m) (bram_addr ?m) (popped_words ?n (fdc_popped (fdd ?m))),
      bram_addr := bram_addr ?m + of_nat ?n, mgmt_rdata := x,
      fdd := (fdd ?m)\<lparr>fdc_popped := (\<lambda>k. fdc_popped (fdd ?m) (k + 4 * ?n))\<rparr>\<rparr>" by blast
  have "pull_fifo drive s = for_to ?n (\<lambda>_. pop_word) ?m"
    by (simp add: pull_fifo_def bram_seek_def)
  also have "\<dots> = s\<lparr>bram := mem_put (bram s) (ucast (stage_word drive s)) (popped_words ?n (fdc_popped (fdd s))),
    bram_addr := ucast (stage_word drive s) + of_nat ?n, mgmt_addr := fifo_addr drive, mgmt_rdata := x,
    fdd := (fdd s)\<lparr>fdc_popped := (\<lambda>k. fdc_popped (fdd s) (k + 4 * ?n))\<rparr>\<rparr>"
    unfolding e by simp
  finally show ?thesis by blast
qed

lemma ram_bytes_popped:
  fixes w :: "10 word"
  shows "n \<le> 1024 \<Longrightarrow> ram_bytes (mem_put m w (popped_words n p)) w (4 * n) = map p [0..<4 * n]"
proof (rule nth_equalityI)
  assume n: "n \<le> 1024"
  fix i assume "i < length (ram_bytes (mem_put m w (popped_words n p)) w (4 * n))"
  then have i: "i < 4 * n" by simp
  then have j: "i div 4 < n" by auto
  have "mem_put m w (popped_words n p) (w + of_nat (i div 4)) = popped_words n p ! (i div 4)"
    by (rule mem_put_nth) (use j n in \<open>simp_all add: popped_words_def\<close>)
  moreover have "4 * (i div 4) + i mod 4 = i" by simp
  moreover have "i mod 4 = 0 \<or> i mod 4 = 1 \<or> i mod 4 = 2 \<or> i mod 4 = 3" by linarith
  ultimately show "ram_bytes (mem_put m w (popped_words n p)) w (4 * n) ! i = map p [0..<4 * n] ! i"
    using i j by (elim disjE) (simp_all add: popped_words_def byte_of_pack4)
qed simp

section \<open>What a request leaves alone\<close>

text \<open>The settings window of the bridge RAM.\<close>

definition in_window :: "10 word \<Rightarrow> bool" where
  "in_window a \<longleftrightarrow> 128 \<le> unat a \<and> unat a < 256"

definition media :: "fdc \<Rightarrow> (bool \<Rightarrow> bool) \<times> (bool \<Rightarrow> bool) \<times> (bool \<Rightarrow> u8) \<times> (bool \<Rightarrow> u8) \<times> (bool \<Rightarrow> u16)
    \<times> (bool \<Rightarrow> 2 word) \<times> (bool \<Rightarrow> bool)" where
  "media d = (media_present d, wp_sys d, media_cylinders d, media_sectors_per_track d,
     media_sector_count d, media_heads d, media_is_1024 d)"

definition floppy_rq :: "tds_req \<Rightarrow> bool" where
  "floppy_rq rq \<longleftrightarrow> rq_slot rq = FDD0_SLOT_ID \<or> rq_slot rq = FDD1_SLOT_ID"

definition fdd_frame :: "('h, 'z) fdd_st_scheme \<Rightarrow> ('h, 'z) fdd_st_scheme \<Rightarrow> bool" where
  "fdd_frame s t \<longleftrightarrow> bram_keeps in_window s t \<and> log_ext floppy_rq s t
     \<and> set_value t = set_value s \<and> book t = book s \<and> bind_code t = bind_code s \<and> bind_ext t = bind_ext s
     \<and> scsi t = scsi s \<and> opna t = opna s \<and> dtbl t = dtbl s \<and> outs t = outs s"

text \<open>The drives' own bookkeeping, apart from the D88 track cache and the read-ahead tag.\<close>

definition drives :: "('h, 'z) fdd_st_scheme \<Rightarrow> (nat \<Rightarrow> u32) \<times> (nat \<Rightarrow> u32) \<times> (nat \<Rightarrow> nat \<Rightarrow> u32)
    \<times> (nat \<Rightarrow> bool) \<times> (nat \<Rightarrow> bool) \<times> (nat \<Rightarrow> u32) \<times> (nat \<Rightarrow> bool)" where
  "drives s = (fdd_sector_words s, fdd_base s, fdd_img_geom s, fdd_d88 s, fdd_d88_wp s, fdd_sectors s, fdd_inserted s)"

definition fdd_keeps :: "('h, 'z) fdd_st_scheme \<Rightarrow> ('h, 'z) fdd_st_scheme \<Rightarrow> bool" where
  "fdd_keeps s t \<longleftrightarrow> fdd_frame s t \<and> drives t = drives s \<and> media (fdd t) = media (fdd s)"

lemma fdd_frame_refl [simp]: "fdd_frame s s"
  by (simp add: fdd_frame_def bram_keeps_refl log_ext_refl)

lemma fdd_frame_trans: "fdd_frame s t \<Longrightarrow> fdd_frame t u \<Longrightarrow> fdd_frame s u"
  unfolding fdd_frame_def using log_ext_trans bram_keeps_trans by auto

lemma fdd_keeps_refl [simp]: "fdd_keeps s s"
  by (simp add: fdd_keeps_def)

lemma fdd_keeps_trans: "fdd_keeps s t \<Longrightarrow> fdd_keeps t u \<Longrightarrow> fdd_keeps s u"
  unfolding fdd_keeps_def using fdd_frame_trans by auto

lemma drivesD:
  "drives t = drives s \<Longrightarrow> fdd_sector_words t = fdd_sector_words s \<and> fdd_base t = fdd_base s
     \<and> fdd_img_geom t = fdd_img_geom s \<and> fdd_d88 t = fdd_d88 s \<and> fdd_d88_wp t = fdd_d88_wp s
     \<and> fdd_sectors t = fdd_sectors s \<and> fdd_inserted t = fdd_inserted s"
  by (simp add: drives_def)

lemma fdd_keepsI:
  assumes "bram t = bram s" "tds_log t = tds_log s" "set_value t = set_value s" "book t = book s"
    "bind_code t = bind_code s" "bind_ext t = bind_ext s" "scsi t = scsi s" "opna t = opna s"
    "dtbl t = dtbl s" "outs t = outs s" "drives t = drives s" "media (fdd t) = media (fdd s)"
  shows "fdd_keeps s t"
  using assms by (simp add: fdd_keeps_def fdd_frame_def bram_keeps_refl log_ext_refl)

lemma fdd_slot_floppy [simp]: "fdd_slot d = FDD0_SLOT_ID \<or> fdd_slot d = FDD1_SLOT_ID"
  by (simp add: fdd_slot_def)

text \<open>The three staging places miss the settings window.\<close>

lemma window_clear:
  assumes "in_window a"
  shows "unat len \<le> 512 \<Longrightarrow> \<not> in_span (tds_rq slot off dir len FDD_BRIDGE_BASE) a"
    and "unat len \<le> 1024 \<Longrightarrow> \<not> in_span (tds_rq slot off dir len (FDD_BRIDGE_BASE + 256 * 4)) a"
    and "unat len \<le> 1024 \<Longrightarrow> \<not> in_span (tds_rq slot off dir len (FDD_BRIDGE_BASE + PREF_BYTE)) a"
proof -
  obtain i where i: "a = of_nat i" "128 \<le> i" "i < 256"
    using assms that [of "unat a"] by (simp add: in_window_def)
  have u: "unat (a - of_nat j) = (if j \<le> i then i - j else 1024 + i - j)" if "j < 1024" for j
    unfolding i(1) using unat_of_nat_sub [of i j] i that by simp
  have w: "rq_word (tds_rq slot off dir len FDD_BRIDGE_BASE) = of_nat 0"
    "rq_word (tds_rq slot off dir len (FDD_BRIDGE_BASE + 256 * 4)) = of_nat 256"
    "rq_word (tds_rq slot off dir len (FDD_BRIDGE_BASE + PREF_BYTE)) = of_nat 512"
    by (simp_all add: rq_word_def FDD_BRIDGE_BASE_def PREF_BYTE_def PREF_WORD_def)
  show "unat len \<le> 512 \<Longrightarrow> \<not> in_span (tds_rq slot off dir len FDD_BRIDGE_BASE) a"
    and "unat len \<le> 1024 \<Longrightarrow> \<not> in_span (tds_rq slot off dir len (FDD_BRIDGE_BASE + 256 * 4)) a"
    and "unat len \<le> 1024 \<Longrightarrow> \<not> in_span (tds_rq slot off dir len (FDD_BRIDGE_BASE + PREF_BYTE)) a"
    unfolding in_span_def w using u [of 0] u [of 256] u [of 512] i by simp_all
qed


lemma floppy_transfer_shape:
  assumes "tds_transfer_to apf slot off dir len ba s = (ok, t)"
  shows "\<exists>h b. t = s\<lparr>tds_id := slot, tds_offset := off, tds_bridge := ba, tds_length := len,
      host := h, bram := b, tds_log := tds_log s @ [tds_rq slot off dir len ba]\<rparr>"
  using assms by (auto simp: tds_transfer_to_eq split: prod.splits)

text \<open>The read-ahead tag and buffer, which only a poll's own read and a mount touch.\<close>

definition same_tags :: "('h, 'z) fdd_st_scheme \<Rightarrow> ('h, 'z) fdd_st_scheme \<Rightarrow> bool" where
  "same_tags s t \<longleftrightarrow> pref_lba t = pref_lba s \<and> fdd t = fdd s
     \<and> fdd_request t = fdd_request s"

lemma same_tags_refl [simp]: "same_tags s s"
  by (simp add: same_tags_def)

lemma same_tags_trans: "same_tags s t \<Longrightarrow> same_tags t u \<Longrightarrow> same_tags s u"
  by (simp add: same_tags_def)

text \<open>A read of at most 512 bytes staged at the start of the bridge RAM, the only kind the
  probes, the hash and the D88 walk issue.\<close>

definition low_reads :: "('h, 'z) fdd_st_scheme \<Rightarrow> ('h, 'z) fdd_st_scheme \<Rightarrow> bool" where
  "low_reads s t \<longleftrightarrow> (\<forall>a. 128 \<le> unat a \<longrightarrow> bram t a = bram s a)
     \<and> log_ext floppy_rq s t \<and> log_ext (\<lambda>rq. rq_dir rq = FDD_TDS_READ) s t"

lemma low_reads_refl [simp]: "low_reads s s"
  by (simp add: low_reads_def log_ext_refl)

lemma low_reads_trans: "low_reads s t \<Longrightarrow> low_reads t u \<Longrightarrow> low_reads s u"
  unfolding low_reads_def using log_ext_trans by fastforce

lemma low_readsI: "bram t = bram s \<Longrightarrow> tds_log t = tds_log s \<Longrightarrow> low_reads s t"
  by (simp add: low_reads_def log_ext_refl)

context dataslot
begin

lemma transfer_keeps:
  assumes t: "tds_transfer_to apf (fdd_slot d) off dir len ba s = (ok, t)"
    and clear: "\<And>a. in_window a \<Longrightarrow> \<not> in_span (tds_rq (fdd_slot d) off dir len ba) a"
  shows "fdd_keeps s t" "same_tags s t"
proof -
  obtain h b where e: "t = s\<lparr>tds_id := fdd_slot d, tds_offset := off, tds_bridge := ba, tds_length := len,
      host := h, bram := b, tds_log := tds_log s @ [tds_rq (fdd_slot d) off dir len ba]\<rparr>"
    using floppy_transfer_shape [OF t] by blast
  have "bram_keeps in_window s t"
    unfolding bram_keeps_def using transfer_ram_frame [OF t] clear by blast
  moreover have "log_ext floppy_rq s t"
    by (rule log_ext_one [of _ _ "tds_rq (fdd_slot d) off dir len ba"]) (simp_all add: e floppy_rq_def)
  ultimately show "fdd_keeps s t" "same_tags s t"
    by (simp_all add: fdd_keeps_def fdd_frame_def same_tags_def e book_def drives_def)
qed

lemma read_at_keeps:
  fixes s :: "('h, 'z) fdd_st_scheme"
  assumes t: "fdd_read_at apf d off len s = (ok, t)" and len: "unat len \<le> 512"
  shows "fdd_keeps s t" "same_tags s t" "low_reads s t" "slot_file (host t) = slot_file (host s)"
    "d88_cache_trk t = d88_cache_trk s" "d88_cache_off t = d88_cache_off s"
proof -
  have r: "tds_transfer_to apf (fdd_slot d) off FDD_TDS_READ len FDD_BRIDGE_BASE s = (ok, t)"
    using t by (simp add: fdd_read_at_def tds_transfer_def)
  show "fdd_keeps s t" "same_tags s t"
    by (rule transfer_keeps [OF r], rule window_clear(1) [OF _ len], assumption)+
  obtain h b where e: "t = s\<lparr>tds_id := fdd_slot d, tds_offset := off, tds_bridge := FDD_BRIDGE_BASE, tds_length := len,
      host := h, bram := b, tds_log := tds_log s @ [tds_rq (fdd_slot d) off FDD_TDS_READ len FDD_BRIDGE_BASE]\<rparr>"
    using floppy_transfer_shape [OF r] by blast
  have "bram t a = bram s a" if "128 \<le> unat a" for a
  proof (rule transfer_ram_frame [OF r])
    have "rq_word (tds_rq (fdd_slot d) off FDD_TDS_READ len FDD_BRIDGE_BASE) = 0"
      by (simp add: rq_word_def FDD_BRIDGE_BASE_def)
    then show "\<not> in_span (tds_rq (fdd_slot d) off FDD_TDS_READ len FDD_BRIDGE_BASE) a"
      using that len by (simp add: in_span_def)
  qed
  moreover have l: "tds_log t = tds_log s @ [tds_rq (fdd_slot d) off FDD_TDS_READ len FDD_BRIDGE_BASE]"
    by (simp add: e)
  have "log_ext floppy_rq s t" "log_ext (\<lambda>rq. rq_dir rq = FDD_TDS_READ) s t"
    by (rule log_ext_one [OF l], simp add: floppy_rq_def)+
  ultimately show "low_reads s t" by (simp add: low_reads_def)
  show "slot_file (host t) = slot_file (host s)" by (rule read_keeps_files [OF r])
  show "d88_cache_trk t = d88_cache_trk s" "d88_cache_off t = d88_cache_off s" by (simp_all add: e)
qed

end

text \<open>Moving the port's address, or the D88 cache, is no one's business.\<close>

lemma port_keeps:
  fixes s :: "('h, 'z) fdd_st_scheme"
  shows "fdd_keeps s (s\<lparr>bram_addr := a\<rparr>)" "same_tags s (s\<lparr>bram_addr := a\<rparr>)" "low_reads s (s\<lparr>bram_addr := a\<rparr>)"
    "fdd_keeps s (s\<lparr>d88_cache_trk := c\<rparr>)" "same_tags s (s\<lparr>d88_cache_trk := c\<rparr>)" "low_reads s (s\<lparr>d88_cache_trk := c\<rparr>)"
    "fdd_keeps s (s\<lparr>d88_cache_off := o'\<rparr>)" "same_tags s (s\<lparr>d88_cache_off := o'\<rparr>)" "low_reads s (s\<lparr>d88_cache_off := o'\<rparr>)"
  by (auto intro!: fdd_keepsI low_readsI simp: same_tags_def book_def drives_def)

text \<open>What reads of at most 512 bytes at the start of the RAM keep, as one relation.\<close>

definition quiet :: "('h \<Rightarrow> u16 \<Rightarrow> u8 list) \<Rightarrow> ('h, 'z) fdd_st_scheme \<Rightarrow> ('h, 'z) fdd_st_scheme \<Rightarrow> bool" where
  "quiet file s t \<longleftrightarrow> fdd_keeps s t \<and> same_tags s t \<and> low_reads s t \<and> file (host t) = file (host s)"

lemma quiet_refl [simp]: "quiet file s s"
  by (simp add: quiet_def)

lemma quiet_trans: "quiet file s t \<Longrightarrow> quiet file t u \<Longrightarrow> quiet file s u"
  unfolding quiet_def using fdd_keeps_trans same_tags_trans low_reads_trans by metis

lemma port_quiet:
  "quiet file s (s\<lparr>bram_addr := a\<rparr>)" "quiet file s (s\<lparr>d88_cache_trk := c\<rparr>)"
  "quiet file s (s\<lparr>d88_cache_off := o'\<rparr>)"
  by (simp_all add: quiet_def port_keeps)

context dataslot
begin

lemma read_at_quiet:
  "fdd_read_at apf d off len s = (ok, t) \<Longrightarrow> unat len \<le> 512 \<Longrightarrow> quiet slot_file s t"
  unfolding quiet_def by (intro conjI; rule read_at_keeps; assumption)

lemma d88_headers_quiet: "quiet slot_file s (d88_headers apf d spt n pos s)"
proof (induction n arbitrary: pos s)
  case 0
  show ?case by simp
next
  case (Suc n)
  obtain ok u where u: "fdd_read_at apf d pos D88_SECHDR s = (ok, u)" by fastforce
  have q: "quiet slot_file s u" by (rule read_at_quiet [OF u]) (simp add: D88_SECHDR_def)
  let ?v = "u\<lparr>bram_addr := 4\<rparr>"
  have v: "quiet slot_file s ?v" by (rule quiet_trans [OF q port_quiet(1)])
  show ?case
  proof (cases ok)
    case False
    then show ?thesis using q by (simp add: u)
  next
    case True
    define w where "w = d88_note d spt pos (drop_bit 16 (bram u 0) AND 0xFF) (u\<lparr>bram_addr := 4\<rparr>)"
    have w: "quiet slot_file s w"
      unfolding w_def d88_note_def using quiet_trans [OF v port_quiet(3)] v by auto
    let ?ds = "drop_bit 16 (bram u 3) AND 0xFFFF"
    have "d88_headers apf d spt (Suc n) pos s = (if ?ds = 0 \<or> 4096 < ?ds then w
        else d88_headers apf d spt n (pos + (D88_SECHDR + ?ds)) w)"
      using True by (simp add: u bram_seek_def bram_read_def w_def)
    then show ?thesis using w quiet_trans [OF w Suc.IH] by simp
  qed
qed

lemma d88_fill_quiet:
  assumes "d88_fill apf d spt trk s = (ok, t)"
  shows "quiet slot_file s t"
proof -
  let ?a = "s\<lparr>d88_cache_trk := (d88_cache_trk s)(d := -1), d88_cache_off := (d88_cache_off s)(d :=
                  (\<lambda>i. if i < D88_CACHE_SPT then 0 else d88_cache_off s d i))\<rparr>"
  have a: "quiet slot_file s ?a" by (rule quiet_trans [OF port_quiet(2) port_quiet(3)])
  obtain r u where u: "fdd_read_at apf d (0x20 + trk * 4) 4 ?a = (r, u)" by fastforce
  have q: "quiet slot_file s u" by (rule quiet_trans [OF a read_at_quiet [OF u]]) simp
  let ?v = "u\<lparr>bram_addr := 1\<rparr>"
  have v: "quiet slot_file s ?v" by (rule quiet_trans [OF q port_quiet(1)])
  have h: "quiet slot_file s ((d88_headers apf d spt (unat spt) (bram u 0) ?v)\<lparr>d88_cache_trk := c\<rparr>)" for c
    by (rule quiet_trans [OF quiet_trans [OF v d88_headers_quiet] port_quiet(2)])
  show ?thesis
    using assms q quiet_trans [OF v port_quiet(2)] h
    by (auto simp: d88_fill_def u bram_seek_def bram_read_def Let_def split: if_splits)
qed

lemma d88_offset_quiet: "d88_offset apf d lba s = (off, t) \<Longrightarrow> quiet slot_file s t"
  using d88_fill_quiet
  by (auto simp: d88_offset_def Let_def split: if_splits prod.splits)

lemma sector_offset_quiet: "sector_offset apf d lba s = (r, t) \<Longrightarrow> quiet slot_file s t"
  using d88_offset_quiet by (auto simp: sector_offset_def split: if_splits prod.splits)

end


section \<open>One poll\<close>

definition words_ok :: "('h, 'z) fdd_st_scheme \<Rightarrow> bool" where
  "words_ok s \<longleftrightarrow> (\<forall>d<2. fdd_sector_words s d = 128 \<or> fdd_sector_words s d = 256)"

lemma words_okD: "words_ok s \<Longrightarrow> d < 2 \<Longrightarrow> fdd_sector_words s d = 128 \<or> fdd_sector_words s d = 256"
  by (simp add: words_ok_def)

lemma fdd_keeps_words: "fdd_keeps s t \<Longrightarrow> words_ok t = words_ok s"
  using drivesD [of t s] by (simp add: fdd_keeps_def words_ok_def)

text \<open>Bookkeeping and FIFO updates.\<close>

lemma push_sector_keeps: "d < 2 \<Longrightarrow> fdd_keeps s (push_sector d w s)"
  using push_sector_eq [of d w s] by (auto intro!: fdd_keepsI simp: book_def drives_def media_def)

lemma fdd_pushed_keeps: "fdd_keeps s (fdd_pushed s)"
  by (rule fdd_keepsI) (simp_all add: fdd_pushed_def read_request_def Let_def book_def drives_def)

lemma note_keeps:
  fixes s :: "('h, 'z) fdd_st_scheme"
  shows "fdd_keeps s (s\<lparr>pref_lba := p\<rparr>)" "fdd_keeps s (s\<lparr>fdd_dbg_err := e\<rparr>)"
    "fdd_keeps s (s\<lparr>fdd_dbg_seen := e, fdd_dbg_lba := l\<rparr>)" "fdd_keeps s (s\<lparr>fdd_dbg_gap := e, gap_polls := l\<rparr>)"
    "fdd_keeps s (s\<lparr>gap_polls := e\<rparr>)" "fdd_keeps s (s\<lparr>fdd_request := q\<rparr>)"
    "fdd_keeps s (s\<lparr>mgmt_addr := a, mgmt_rdata := r\<rparr>)"
  by (auto intro!: fdd_keepsI simp: book_def drives_def)

lemma stage_word_cases: "stage_word d s = 0 \<and> fdd_sector_words s d \<le> 128 \<or> stage_word d s = 256"
  by (auto simp: stage_word_def SECTOR_WORDS_def)

lemma stage_word_keeps: "fdd_keeps s t \<Longrightarrow> stage_word d t = stage_word d s \<and> fdd_bytes d t = fdd_bytes d s"
  using drivesD [of t s] by (simp add: fdd_keeps_def stage_word_def fdd_bytes_def)

lemma fdd_bytes_unat:
  "words_ok s \<Longrightarrow> d < 2 \<Longrightarrow> unat (fdd_bytes d s) = 4 * unat (fdd_sector_words s d) \<and> unat (fdd_bytes d s) \<le> 1024"
  using words_okD [of s d] by (auto simp: fdd_bytes_def)

text \<open>Register 0 of the controller: drive and sector of the pending request.\<close>

definition req_drive :: "('h, 'z) bus_scheme \<Rightarrow> nat" where
  "req_drive s = (if bit (fdc_reg0 (fdd s)) 15 then 1 else 0)"

definition req_lba :: "('h, 'z) bus_scheme \<Rightarrow> u32" where
  "req_lba s = ucast (fdc_reg0 (fdd s)) AND 0x7FFF"

lemma read_reg0:
  "fdd_mgmt_read 0 FMGMT_PRESENT s = (ucast (fdc_reg0 (fdd s)), s\<lparr>mgmt_addr := 0, mgmt_rdata := fdc_reg0 (fdd s)\<rparr>)"
proof -
  have m: "(0xFFFF :: u32) = mask 16" by (simp add: mask_eq_exp_minus_1)
  have "(ucast (r :: u16) :: u32) AND 0xFFFF = ucast r" for r
    unfolding m by (rule bit_word_eqI) (auto simp: bit_simps dest: bit_imp_le_length)
  then show ?thesis
    by (simp add: fdd_mgmt_read_def mgmt_rd_def mgmt_strobe_rd_def fdc_read_def FMGMT_PRESENT_def Let_def)
qed

lemma reg0_drive: "((ucast r :: u32) AND FDD_LBA_DRIVE \<noteq> 0) \<longleftrightarrow> bit (r :: u16) 15"
proof -
  have m: "FDD_LBA_DRIVE = push_bit 15 (1 :: u32)" by (simp add: FDD_LBA_DRIVE_def)
  show ?thesis unfolding m bit_iff_and_push_bit_not_eq_0 [symmetric] by (simp add: bit_simps)
qed

lemma req_lba_bound: "unat (req_lba s) < 0x8000"
proof -
  have m: "(0x7FFF :: u32) = mask 15" by (simp add: mask_eq_exp_minus_1)
  have "req_lba s = take_bit 15 (ucast (fdc_reg0 (fdd s)))" unfolding req_lba_def m by (simp add: take_bit_eq_mask)
  then show ?thesis by (simp add: take_bit_eq_mod unat_mod)
qed

context dataslot
begin

lemma serve_keeps:
  assumes "words_ok s" "d < 2"
  shows "fdd_keeps s (fdd_serve apf d lba off found s)"
proof (cases "pref_lba s d = lba")
  case True
  then show ?thesis
    using fdd_keeps_trans [OF push_sector_keeps [OF assms(2)] fdd_pushed_keeps] by (simp add: fdd_serve_def)
next
  case False
  show ?thesis
  proof (cases found)
    case False
    then show ?thesis using \<open>pref_lba s d \<noteq> lba\<close> by (simp add: fdd_serve_def note_keeps)
  next
    case True
    obtain ok u where u: "tds_transfer_to apf (fdd_slot d) off FDD_TDS_READ (fdd_bytes d s)
        (FDD_BRIDGE_BASE + stage_word d s * 4) s = (ok, u)" by fastforce
    have "fdd_keeps s u"
      by (rule transfer_keeps(1) [OF u])
        (use stage_word_cases [of d s] fdd_bytes_unat [OF assms] window_clear in \<open>auto simp: word_le_nat_alt\<close>)
    then have "fdd_keeps s (fdd_pushed (push_sector d w u))" "fdd_keeps s (u\<lparr>fdd_dbg_err := e\<rparr>)" for w e
      by (rule fdd_keeps_trans [OF _ fdd_keeps_trans [OF push_sector_keeps [OF assms(2)] fdd_pushed_keeps]],
          rule fdd_keeps_trans [OF _ note_keeps(2)])
    then show ?thesis using True False u by (simp add: fdd_serve_def)
  qed
qed

lemma prefetch_keeps:
  assumes "words_ok s" "d < 2"
  shows "fdd_keeps s (fdd_prefetch apf d lba s)"
proof -
  let ?p = "s\<lparr>pref_lba := (pref_lba s)(d := -1)\<rparr>"
  have p: "fdd_keeps s ?p" by (rule note_keeps)
  obtain off u where u: "(if fdd_d88 ?p d then d88_offset apf d (lba + 1) ?p
      else (fdd_base ?p d + (lba + 1) * fdd_bytes d ?p, ?p)) = (off, u)" by fastforce
  have "fdd_keeps ?p u"
  proof (cases "fdd_d88 ?p d")
    case True
    then have "d88_offset apf d (lba + 1) ?p = (off, u)" using u by simp
    from d88_offset_quiet [OF this] show ?thesis by (simp add: quiet_def)
  qed (use u in simp)
  then have k: "fdd_keeps s u" using p fdd_keeps_trans by blast
  obtain ok v where v: "tds_transfer_to apf (fdd_slot d) off FDD_TDS_READ (fdd_bytes d ?p)
      (FDD_BRIDGE_BASE + PREF_BYTE) u = (ok, v)" by fastforce
  have b: "fdd_bytes d ?p = fdd_bytes d s" by (simp add: fdd_bytes_def)
  have "fdd_keeps u v"
    by (rule transfer_keeps(1) [OF v]) (use fdd_bytes_unat [OF assms] window_clear(3) b in auto)
  then have kv: "fdd_keeps s v" using k fdd_keeps_trans by blast
  show ?thesis
    unfolding fdd_prefetch_def Let_def u prod.case v
    using p k kv by (auto intro: fdd_keeps_trans [OF kv note_keeps(1)])
qed

lemma pull_fifo_keeps:
  assumes "words_ok s" "d < 2"
  shows "fdd_keeps s (pull_fifo d s)"
proof -
  have w: "fdd_sector_words s d \<le> 256" using words_okD [OF assms] by auto
  obtain a x where e: "pull_fifo d s = s\<lparr>bram := mem_put (bram s) (ucast (stage_word d s))
      (popped_words (unat (fdd_sector_words s d)) (fdc_popped (fdd s))),
    bram_addr := a, mgmt_addr := fifo_addr d, mgmt_rdata := x,
    fdd := (fdd s)\<lparr>fdc_popped := (\<lambda>k. fdc_popped (fdd s) (k + 4 * unat (fdd_sector_words s d)))\<rparr>\<rparr>"
    using pull_fifo_eq [OF assms(2) w] by blast
  have "bram_keeps in_window s (pull_fifo d s)"
    unfolding bram_keeps_def
  proof (intro allI impI)
    fix a' assume a': "in_window a'"
    obtain i where i: "a' = of_nat i" "128 \<le> i" "i < 256"
      using a' that [of "unat a'"] by (simp add: in_window_def)
    have "\<not> unat (a' - ucast (stage_word d s)) < unat (fdd_sector_words s d)"
      using stage_word_cases [of d s] w unat_of_nat_sub [of i 0] unat_of_nat_sub [of i 256] i
      by (auto simp: word_le_nat_alt)
    then show "bram (pull_fifo d s) a' = bram s a'"
      by (simp add: e mem_put_def popped_words_def)
  qed
  then show ?thesis
    by (simp add: fdd_keeps_def fdd_frame_def log_ext_refl e book_def drives_def media_def)
qed

end


text \<open>The state a request is served from: register 0 has been read.\<close>

definition at_reg0 :: "('h, 'z) fdd_st_scheme \<Rightarrow> ('h, 'z) fdd_st_scheme" where
  "at_reg0 s = s\<lparr>mgmt_addr := 0, mgmt_rdata := fdc_reg0 (fdd s)\<rparr>"

lemma at_reg0_keeps: "fdd_keeps s (at_reg0 s)"
  unfolding at_reg0_def by (rule note_keeps)

lemma poll_drive_lba:
  "(if (ucast (fdc_reg0 (fdd s)) :: u32) AND FDD_LBA_DRIVE \<noteq> 0 then 1 else 0) = req_drive s"
  "ucast (fdc_reg0 (fdd s)) AND FDD_LBA_MASK = req_lba s"
  by (simp_all add: reg0_drive req_drive_def req_lba_def FDD_LBA_MASK_def)

lemma req_drive_less: "req_drive s < 2"
  by (simp add: req_drive_def)

lemma poll_read_eq:
  "fdd_poll_read apf s =
     (let ((off, found), u) = sector_offset apf (req_drive s) (req_lba s) (at_reg0 s);
          u = u\<lparr>fdd_dbg_seen := fdd_dbg_seen u + 1, fdd_dbg_lba := ucast (fdc_reg0 (fdd s))\<rparr>
      in fdd_prefetch apf (req_drive s) (req_lba s) (fdd_serve apf (req_drive s) (req_lba s) off found u))"
  unfolding fdd_poll_read_def read_reg0 Let_def prod.case poll_drive_lba at_reg0_def
  by (simp split: prod.split)

lemma poll_write_eq:
  "fdd_poll_write apf s =
     (let drv = req_drive s;
          (off, u) = (if fdd_d88 s drv then d88_offset apf drv (req_lba s) (at_reg0 s)
                      else (fdd_base s drv + req_lba s * fdd_bytes drv s, at_reg0 s));
          v = pull_fifo drv u;
          w = (if \<not> fdd_d88 v drv \<or> off \<noteq> 0
               then snd (tds_transfer_to apf (fdd_slot drv) off FDD_TDS_WRITE (fdd_bytes drv v)
                           (FDD_BRIDGE_BASE + stage_word drv v * 4) v)
               else v)
      in w\<lparr>pref_lba := (pref_lba w)(drv := -1)\<rparr>)"
  unfolding fdd_poll_write_def read_reg0 Let_def prod.case poll_drive_lba at_reg0_def
  by (simp add: fdd_bytes_def split: prod.split)

context dataslot
begin

lemma stage_transfer_keeps:
  assumes "tds_transfer_to apf (fdd_slot d) off dir (fdd_bytes d s) (FDD_BRIDGE_BASE + stage_word d s * 4) s = (ok, t)"
    and "words_ok s" "d < 2"
  shows "fdd_keeps s t" "same_tags s t"
  by (rule transfer_keeps [OF assms(1)];
      use stage_word_cases [of d s] fdd_bytes_unat [OF assms(2,3)] window_clear in \<open>auto simp: word_le_nat_alt\<close>)+

lemma poll_read_keeps:
  assumes "words_ok s"
  shows "fdd_keeps s (fdd_poll_read apf s)"
proof -
  obtain off found u where u: "sector_offset apf (req_drive s) (req_lba s) (at_reg0 s) = ((off, found), u)"
    by (metis prod.exhaust)
  let ?v = "u\<lparr>fdd_dbg_seen := fdd_dbg_seen u + 1, fdd_dbg_lba := ucast (fdc_reg0 (fdd s))\<rparr>"
  let ?w = "fdd_serve apf (req_drive s) (req_lba s) off found ?v"
  have "fdd_keeps (at_reg0 s) u" using sector_offset_quiet [OF u] by (simp add: quiet_def)
  then have kv: "fdd_keeps s ?v"
    by (rule fdd_keeps_trans [OF fdd_keeps_trans [OF at_reg0_keeps] note_keeps(3)])
  then have wv: "words_ok ?v" using assms fdd_keeps_words by blast
  have kw: "fdd_keeps s ?w" by (rule fdd_keeps_trans [OF kv serve_keeps [OF wv req_drive_less]])
  then have ww: "words_ok ?w" using assms fdd_keeps_words by blast
  have "fdd_keeps s (fdd_prefetch apf (req_drive s) (req_lba s) ?w)"
    by (rule fdd_keeps_trans [OF kw prefetch_keeps [OF ww req_drive_less]])
  then show ?thesis by (simp add: poll_read_eq u)
qed

lemma poll_write_keeps:
  assumes "words_ok s"
  shows "fdd_keeps s (fdd_poll_write apf s)"
proof -
  let ?d = "req_drive s"
  obtain off u where u: "(if fdd_d88 s ?d then d88_offset apf ?d (req_lba s) (at_reg0 s)
      else (fdd_base s ?d + req_lba s * fdd_bytes ?d s, at_reg0 s)) = (off, u)" by fastforce
  have "fdd_keeps (at_reg0 s) u"
  proof (cases "fdd_d88 s ?d")
    case True
    then have "d88_offset apf ?d (req_lba s) (at_reg0 s) = (off, u)" using u by simp
    from d88_offset_quiet [OF this] show ?thesis by (simp add: quiet_def)
  qed (use u in simp)
  then have ku: "fdd_keeps s u" using at_reg0_keeps fdd_keeps_trans by blast
  then have wu: "words_ok u" using assms fdd_keeps_words by blast
  define v where "v = pull_fifo ?d u"
  have kv: "fdd_keeps s v" unfolding v_def by (rule fdd_keeps_trans [OF ku pull_fifo_keeps [OF wu req_drive_less]])
  then have wv: "words_ok v" using assms fdd_keeps_words by blast
  obtain ok w where w: "tds_transfer_to apf (fdd_slot ?d) off FDD_TDS_WRITE (fdd_bytes ?d v)
      (FDD_BRIDGE_BASE + stage_word ?d v * 4) v = (ok, w)" by fastforce
  have kw: "fdd_keeps s w"
    by (rule fdd_keeps_trans [OF kv stage_transfer_keeps(1) [OF w wv req_drive_less]])
  show ?thesis
    unfolding poll_write_eq Let_def u prod.case v_def [symmetric] w
    by (auto intro: fdd_keeps_trans [OF kv note_keeps(1)] fdd_keeps_trans [OF kw note_keeps(1)])
qed

lemma poll_keeps:
  fixes s :: "('h, 'z) fdd_st_scheme"
  assumes "words_ok s"
  shows "fdd_keeps s (fdd_poll apf s)"
proof -
  define r where "r = s\<lparr>fdd_request := (\<lambda>n. fdd_request s (Suc n))\<rparr>"
  define g where "g = r\<lparr>fdd_dbg_gap := gap_polls r, gap_polls := 0\<rparr>"
  have kr: "fdd_keeps s r" unfolding r_def by (rule note_keeps)
  have kg: "fdd_keeps s g" unfolding g_def by (rule fdd_keeps_trans [OF kr note_keeps(4)])
  then have wg: "words_ok g" using assms fdd_keeps_words by blast
  have "fdd_poll apf s = (if fdd_request s 0 = 0 then r\<lparr>gap_polls := gap_polls r + 1\<rparr>
      else if fdd_request s 0 AND FDD_REQ_READ \<noteq> 0 then fdd_poll_read apf g
      else if fdd_request s 0 AND FDD_REQ_WRITE \<noteq> 0 then fdd_poll_write apf g else g)"
    by (simp add: fdd_poll_def read_request_def Let_def r_def g_def)
  then show ?thesis
    by (auto intro: fdd_keeps_trans [OF kr note_keeps(5)] kg fdd_keeps_trans [OF kg poll_read_keeps [OF wg]]
        fdd_keeps_trans [OF kg poll_write_keeps [OF wg]])
qed

end

end
