(* ===== verification/Fdd_Serve.thy ===== *)
theory Fdd_Serve
  imports Fdd_Correct
begin

text \<open>
  A sector request against the image file: what a served read pushes into the controller, that
  the read-ahead buffer holds the sector its tag names, and what a served write stores.  Also a
  second D88 lookup of a track: the cache answers it without a transfer.
\<close>

section \<open>Sectors of a raw image\<close>

definition image_sector :: "(u16 \<Rightarrow> u8 list) \<Rightarrow> nat \<Rightarrow> u32 \<Rightarrow> ('h, 'z) fdd_st_scheme \<Rightarrow> u8 list" where
  "image_sector F d lba s =
     take (unat (fdd_bytes d s)) (drop (unat (fdd_base s d) + unat lba * unat (fdd_bytes d s)) (F (fdd_slot d)))"

definition sector_in :: "(u16 \<Rightarrow> u8 list) \<Rightarrow> nat \<Rightarrow> u32 \<Rightarrow> ('h, 'z) fdd_st_scheme \<Rightarrow> bool" where
  "sector_in F d lba s \<longleftrightarrow>
     unat (fdd_base s d) + (unat lba + 1) * unat (fdd_bytes d s) \<le> length (F (fdd_slot d))
     \<and> length (F (fdd_slot d)) < 2 ^ 32"

text \<open>The read-ahead buffer, when it is tagged with a sector of the image, holds that sector.\<close>

definition pref_ok :: "('h \<Rightarrow> u16 \<Rightarrow> u8 list) \<Rightarrow> nat \<Rightarrow> ('h, 'z) fdd_st_scheme \<Rightarrow> bool" where
  "pref_ok file d s \<longleftrightarrow>
     (pref_lba s d \<noteq> -1 \<longrightarrow> sector_in (file (host s)) d (pref_lba s d) s \<longrightarrow>
       ram_bytes (bram s) (512 :: 10 word) (unat (fdd_bytes d s)) = image_sector (file (host s)) d (pref_lba s d) s)"

lemma sector_cong:
  "drives t = drives s \<Longrightarrow> image_sector F d lba t = image_sector F d lba s \<and> sector_in F d lba t = sector_in F d lba s
     \<and> fdd_bytes d t = fdd_bytes d s"
  using drivesD [of t s] by (simp add: image_sector_def sector_in_def fdd_bytes_def)

lemma pref_ok_cong:
  "drives t = drives s \<Longrightarrow> file (host t) = file (host s) \<Longrightarrow> pref_lba t d = pref_lba s d \<Longrightarrow>
   (\<And>a. 512 \<le> unat a \<Longrightarrow> bram t a = bram s a) \<Longrightarrow> words_ok s \<Longrightarrow> d < 2 \<Longrightarrow> pref_ok file d s \<Longrightarrow> pref_ok file d t"
proof -
  assume a: "drives t = drives s" "file (host t) = file (host s)" "pref_lba t d = pref_lba s d"
    "\<And>a. 512 \<le> unat a \<Longrightarrow> bram t a = bram s a" "words_ok s" "d < 2" "pref_ok file d s"
  have "ram_bytes (bram t) (512 :: 10 word) (unat (fdd_bytes d s)) = ram_bytes (bram s) 512 (unat (fdd_bytes d s))"
  proof (rule ram_bytes_cong)
    fix j assume "j < (unat (fdd_bytes d s) + 3) div 4"
    then have j: "j < 257" using fdd_bytes_unat [OF a(5,6)] by linarith
    have "unat (512 + of_nat j :: 10 word) = 512 + j" using j by (simp add: unat_word_ariths unat_of_nat)
    then show "bram t (512 + of_nat j) = bram s (512 + of_nat j)" using a(4) by simp
  qed
  then show "pref_ok file d t" using a sector_cong [OF a(1), of _ d] by (simp add: pref_ok_def)
qed

lemma sector_addr:
  assumes "sector_in F d lba s" "words_ok s" "d < 2"
  shows "unat (fdd_base s d + lba * fdd_bytes d s) = unat (fdd_base s d) + unat lba * unat (fdd_bytes d s)"
    "unat (fdd_base s d + lba * fdd_bytes d s) + unat (fdd_bytes d s) \<le> length (F (fdd_slot d))"
proof -
  let ?x = "unat (fdd_base s d) + unat lba * unat (fdd_bytes d s)"
  have "?x + unat (fdd_bytes d s) \<le> length (F (fdd_slot d))" "length (F (fdd_slot d)) < 2 ^ 32"
    using assms(1) by (simp_all add: sector_in_def algebra_simps)
  moreover from this have "?x < 2 ^ 32" by linarith
  ultimately show e: "unat (fdd_base s d + lba * fdd_bytes d s) = ?x"
    and "unat (fdd_base s d + lba * fdd_bytes d s) + unat (fdd_bytes d s) \<le> length (F (fdd_slot d))"
    by (simp_all add: unat_word_ariths)
qed

lemma fdd_pushed_obs:
  "bram (fdd_pushed s) = bram s" "host (fdd_pushed s) = host s" "pref_lba (fdd_pushed s) = pref_lba s"
  "fdd (fdd_pushed s) = fdd s" "drives (fdd_pushed s) = drives s"
  by (simp_all add: fdd_pushed_def read_request_def Let_def drives_def)

lemma fifo_sector_obs:
  assumes "d < 2"
  shows "bram (push_sector d w s) = bram s" "host (push_sector d w s) = host s"
    "pref_lba (push_sector d w s) = pref_lba s" "drives (push_sector d w s) = drives s"
    "fdc_pushed (fdd (push_sector d w s)) = fdc_pushed (fdd s)
       @ ram_bytes (bram s) (ucast w) (4 * unat (fdd_sector_words s d))"
  using push_sector_eq [OF assms, of w s] by (auto simp: drives_def)

lemma stage_addr: "ucast (drop_bit 2 (FDD_BRIDGE_BASE + stage_word d s * 4)) = (ucast (stage_word d s) :: 10 word)"
  using stage_word_cases [of d s] by (auto simp: stage_word_def FDD_BRIDGE_BASE_def)

text \<open>Staging misses the read-ahead buffer.\<close>

lemma stage_low:
  assumes "words_ok s" "d < 2" "512 \<le> unat a"
  shows "\<not> in_span (tds_rq slot off dir (fdd_bytes d s) (FDD_BRIDGE_BASE + stage_word d s * 4)) a"
proof -
  obtain i where i: "a = of_nat i" "512 \<le> i" "i < 1024"
    using assms(3) unsigned_less [of a] that [of "unat a"] by simp
  have u: "unat (a - of_nat j) = i - j" if "j \<le> 256" for j
    unfolding i(1) using unat_of_nat_sub [of i j] i that by simp
  have w: "rq_word (tds_rq slot off dir (fdd_bytes d s) (FDD_BRIDGE_BASE + stage_word d s * 4)) = ucast (stage_word d s)"
    by (simp add: rq_word_def stage_addr)
  show ?thesis
    using stage_word_cases [of d s] fdd_bytes_unat [OF assms(1,2)] words_okD [OF assms(1,2)] u [of 0] u [of 256] i
    by (auto simp: in_span_def w word_le_nat_alt)
qed

context prompt_dataslot
begin

lemma serve_pushes:
  assumes ok: "words_ok s" "d < 2" and tag: "pref_ok slot_file d s" "lba \<noteq> -1"
    and inside: "sector_in (slot_file (host s)) d lba s"
  defines "t \<equiv> fdd_serve apf d lba (fdd_base s d + lba * fdd_bytes d s) True s"
  shows "fdc_pushed (fdd t) = fdc_pushed (fdd s) @ image_sector (slot_file (host s)) d lba s"
    "slot_file (host t) = slot_file (host s)" "drives t = drives s"
proof -
  have B: "4 * unat (fdd_sector_words s d) = unat (fdd_bytes d s)" using fdd_bytes_unat [OF ok] by simp
  have "fdc_pushed (fdd t) = fdc_pushed (fdd s) @ image_sector (slot_file (host s)) d lba s
    \<and> slot_file (host t) = slot_file (host s) \<and> drives t = drives s"
  proof (cases "pref_lba s d = lba")
    case True
    then have "t = fdd_pushed (push_sector d PREF_WORD s)" by (simp add: t_def fdd_serve_def)
    moreover have "ram_bytes (bram s) (512 :: 10 word) (unat (fdd_bytes d s)) = image_sector (slot_file (host s)) d lba s"
      using tag inside True by (simp add: pref_ok_def)
    ultimately show ?thesis
      using fifo_sector_obs [OF ok(2), of PREF_WORD s] B by (simp add: fdd_pushed_obs PREF_WORD_def)
  next
    case False
    obtain r u where u: "tds_transfer_to apf (fdd_slot d) (fdd_base s d + lba * fdd_bytes d s) FDD_TDS_READ
        (fdd_bytes d s) (FDD_BRIDGE_BASE + stage_word d s * 4) s = (r, u)" by fastforce
    note addr = sector_addr [OF inside ok]
    have r: "r = True"
      using transfer_serves [OF u] addr(2) fdd_bytes_unat [OF ok] by simp
    have data: "ram_bytes (bram u) (ucast (stage_word d s)) (unat (fdd_bytes d s)) = image_sector (slot_file (host s)) d lba s"
      using read_lands_file [OF u [unfolded r]] addr by (simp add: image_sector_def stage_addr)
    have k: "drives u = drives s" "same_tags s u"
      using stage_transfer_keeps [OF u ok] by (simp_all add: fdd_keeps_def)
    have "stage_word d u = stage_word d s" using drivesD [OF k(1)] by (simp add: stage_word_def)
    then have "t = fdd_pushed (push_sector d (stage_word d s) u)" using False u r by (simp add: t_def fdd_serve_def)
    then show ?thesis
      using fifo_sector_obs [OF ok(2), of "stage_word d s" u] B data k drivesD [OF k(1)] read_keeps_files [OF u]
      by (simp add: fdd_pushed_obs same_tags_def)
  qed
  then show "fdc_pushed (fdd t) = fdc_pushed (fdd s) @ image_sector (slot_file (host s)) d lba s"
    "slot_file (host t) = slot_file (host s)" "drives t = drives s" by simp_all
qed

end

context dataslot
begin

text \<open>Reading ahead: the tag is set only for a sector the buffer then holds.\<close>

lemma prefetch_tag:
  assumes ok: "words_ok s" "d < 2" and raw: "\<not> fdd_d88 s d"
  shows "pref_ok slot_file d (fdd_prefetch apf d lba s)"
    "slot_file (host (fdd_prefetch apf d lba s)) = slot_file (host s)"
    "fdc_pushed (fdd (fdd_prefetch apf d lba s)) = fdc_pushed (fdd s)"
    "e \<noteq> d \<Longrightarrow> pref_lba (fdd_prefetch apf d lba s) e = pref_lba s e"
    "pref_lba (fdd_prefetch apf d lba s) d \<in> {-1, lba + 1}"
proof -
  define p where "p = s\<lparr>pref_lba := (pref_lba s)(d := -1)\<rparr>"
  define off where "off = fdd_base s d + (lba + 1) * fdd_bytes d s"
  obtain r u where u: "tds_transfer_to apf (fdd_slot d) off FDD_TDS_READ (fdd_bytes d s)
      (FDD_BRIDGE_BASE + PREF_BYTE) p = (r, u)" by fastforce
  have bp: "fdd_bytes d p = fdd_bytes d s" by (simp add: p_def fdd_bytes_def)
  have okp: "words_ok p" using ok(1) by (simp add: words_ok_def p_def)
  have eq: "fdd_prefetch apf d lba s =
      (if (lba + 1) * fdd_bytes d s < fdd_sectors s d * 512 \<and> off \<noteq> 0
       then (if r then u\<lparr>pref_lba := (pref_lba u)(d := lba + 1)\<rparr> else u) else p)"
    using raw u by (auto simp: fdd_prefetch_def Let_def p_def [symmetric] bp off_def, simp_all add: p_def)
  have ku: "drives u = drives p" "same_tags p u"
    using transfer_keeps [OF u] fdd_bytes_unat [OF ok] window_clear(3) by (auto simp: fdd_keeps_def)
  have hu: "slot_file (host u) = slot_file (host p)" by (rule read_keeps_files [OF u])
  have w: "ucast (drop_bit 2 (FDD_BRIDGE_BASE + PREF_BYTE)) = (512 :: 10 word)"
    by (simp add: FDD_BRIDGE_BASE_def PREF_BYTE_def PREF_WORD_def)
  have "pref_ok slot_file d (u\<lparr>pref_lba := (pref_lba u)(d := lba + 1)\<rparr>)" if r
  proof -
    have "ram_bytes (bram u) (512 :: 10 word) (unat (fdd_bytes d s)) = image_sector (slot_file (host p)) d (lba + 1) s"
      if "sector_in (slot_file (host p)) d (lba + 1) s"
      using read_lands_file [of "fdd_slot d" off "fdd_bytes d s" "FDD_BRIDGE_BASE + PREF_BYTE" p u]
        u \<open>r\<close> sector_addr [OF that ok] by (simp add: image_sector_def off_def w)
    moreover have "drives (u\<lparr>pref_lba := (pref_lba u)(d := lba + 1)\<rparr>) = drives s"
      using ku(1) by (simp add: drives_def p_def)
    ultimately show ?thesis
      using sector_cong [of "u\<lparr>pref_lba := (pref_lba u)(d := lba + 1)\<rparr>" s _ d] hu by (simp add: pref_ok_def)
  qed
  moreover have "pref_ok slot_file d p" "pref_ok slot_file d u"
    using ku(2) by (simp_all add: pref_ok_def p_def same_tags_def)
  ultimately show "pref_ok slot_file d (fdd_prefetch apf d lba s)" by (simp add: eq)
  show "slot_file (host (fdd_prefetch apf d lba s)) = slot_file (host s)" using hu by (simp add: eq p_def)
  show "fdc_pushed (fdd (fdd_prefetch apf d lba s)) = fdc_pushed (fdd s)"
    using ku(2) by (simp add: eq p_def same_tags_def)
  show "e \<noteq> d \<Longrightarrow> pref_lba (fdd_prefetch apf d lba s) e = pref_lba s e"
    using ku(2) by (simp add: eq p_def same_tags_def)
  show "pref_lba (fdd_prefetch apf d lba s) d \<in> {-1, lba + 1}"
    using ku(2) by (simp add: eq p_def same_tags_def)
qed

end

section \<open>A read request\<close>

text \<open>The state a read is served from, whatever else the poll noted down.\<close>

definition served_from :: "('h, 'z) fdd_st_scheme \<Rightarrow> ('h, 'z) fdd_st_scheme" where
  "served_from s =
     (let g = s\<lparr>fdd_request := (\<lambda>n. fdd_request s (Suc n)), fdd_dbg_gap := gap_polls s, gap_polls := 0\<rparr>;
          u = at_reg0 g
      in u\<lparr>fdd_dbg_seen := fdd_dbg_seen u + 1, fdd_dbg_lba := ucast (fdc_reg0 (fdd s))\<rparr>)"

lemma served_from_obs:
  "drives (served_from s) = drives s" "host (served_from s) = host s" "bram (served_from s) = bram s"
  "pref_lba (served_from s) = pref_lba s" "fdd (served_from s) = fdd s" "words_ok (served_from s) = words_ok s"
  "fdd_d88 (served_from s) = fdd_d88 s" "fdd_base (served_from s) = fdd_base s" "fdd_bytes d (served_from s) = fdd_bytes d s"
  by (simp_all add: served_from_def at_reg0_def drives_def words_ok_def fdd_bytes_def Let_def)

lemma poll_raw_read:
  assumes "fdd_request s 0 AND FDD_REQ_READ \<noteq> 0" and "\<not> fdd_d88 s (req_drive s)"
  shows "fdd_poll apf s = fdd_prefetch apf (req_drive s) (req_lba s)
    (fdd_serve apf (req_drive s) (req_lba s)
      (fdd_base s (req_drive s) + req_lba s * fdd_bytes (req_drive s) s) True (served_from s))"
proof -
  define g where "g = s\<lparr>fdd_request := (\<lambda>n. fdd_request s (Suc n)), fdd_dbg_gap := gap_polls s, gap_polls := 0\<rparr>"
  have n0: "fdd_request s 0 \<noteq> 0" using assms(1) by auto
  have "fdd_poll apf s = fdd_poll_read apf g"
    using assms(1) n0 by (simp add: fdd_poll_def read_request_def Let_def g_def)
  moreover have "req_drive g = req_drive s" "req_lba g = req_lba s" "fdd g = fdd s" "fdd_d88 g = fdd_d88 s"
    "fdd_base g = fdd_base s" "fdd_bytes d g = fdd_bytes d s" for d
    by (simp_all add: g_def req_drive_def req_lba_def fdd_bytes_def)
  moreover have "fdd_d88 (at_reg0 g) = fdd_d88 g" "fdd_base (at_reg0 g) = fdd_base g" "fdd_bytes d (at_reg0 g) = fdd_bytes d g" for d
    by (simp_all add: at_reg0_def fdd_bytes_def)
  ultimately show ?thesis
    using assms(2) by (simp add: poll_read_eq sector_offset_def served_from_def g_def [symmetric] Let_def)
qed

lemma req_lba_real: "req_lba s \<noteq> -1"
proof
  assume "req_lba s = -1"
  moreover have "unat (-1 :: u32) = 4294967295" by (simp add: unsigned_minus_1_eq_mask mask_eq_exp_minus_1)
  ultimately show False using req_lba_bound [of s] by simp
qed

context prompt_dataslot
begin

lemma poll_reads:
  assumes req: "fdd_request s 0 AND FDD_REQ_READ \<noteq> 0" and raw: "\<not> fdd_d88 s (req_drive s)"
    and ok: "words_ok s" and tag: "pref_ok slot_file (req_drive s) s"
    and inside: "sector_in (slot_file (host s)) (req_drive s) (req_lba s) s"
  defines "t \<equiv> fdd_poll apf s"
  shows "fdc_pushed (fdd t) = fdc_pushed (fdd s) @ image_sector (slot_file (host s)) (req_drive s) (req_lba s) s"
    "slot_file (host t) = slot_file (host s)" "drives t = drives s" "pref_ok slot_file (req_drive s) t"
proof -
  let ?d = "req_drive s" and ?v = "served_from s"
  let ?w = "fdd_serve apf ?d (req_lba s) (fdd_base ?v ?d + req_lba s * fdd_bytes ?d ?v) True ?v"
  have t: "t = fdd_prefetch apf ?d (req_lba s) ?w"
    unfolding t_def by (simp add: poll_raw_read [OF req raw] served_from_obs)
  have cong: "image_sector F ?d l ?v = image_sector F ?d l s" "sector_in F ?d l ?v = sector_in F ?d l s" for F l
    using sector_cong [OF served_from_obs(1)] by auto
  have tv: "pref_ok slot_file ?d ?v"
    using tag by (simp add: pref_ok_def cong served_from_obs)
  have okv: "words_ok ?v" using ok by (simp add: served_from_obs)
  have insv: "sector_in (slot_file (host ?v)) ?d (req_lba s) ?v" using inside by (simp add: served_from_obs cong)
  note w = serve_pushes [OF okv req_drive_less tv req_lba_real insv]
  have rw: "\<not> fdd_d88 ?w ?d" "words_ok ?w"
    using drivesD [OF w(3)] raw okv by (simp_all add: served_from_obs words_ok_def)
  note q = prefetch_tag [OF rw(2) req_drive_less rw(1), where lba = "req_lba s"]
  show "fdc_pushed (fdd t) = fdc_pushed (fdd s) @ image_sector (slot_file (host s)) ?d (req_lba s) s"
    using q(3) w(1) by (simp add: t served_from_obs cong)
  show "slot_file (host t) = slot_file (host s)" using q(2) w(2) by (simp add: t served_from_obs)
  show "pref_ok slot_file ?d t" using q(1) by (simp add: t)
  show "drives t = drives s" unfolding t_def using poll_keeps [OF ok] by (simp add: fdd_keeps_def)
qed

end

text \<open>The read-ahead itself: after a read whose successor lies inside the image, the buffer is
  tagged with the successor.  A read of the tagged sector is answered from the buffer, whatever
  was staged there last.\<close>

context prompt_dataslot
begin

lemma poll_stages:
  assumes req: "fdd_request s 0 AND FDD_REQ_READ \<noteq> 0" and raw: "\<not> fdd_d88 s (req_drive s)"
    and ok: "words_ok s" and tag: "pref_ok slot_file (req_drive s) s"
    and inside: "sector_in (slot_file (host s)) (req_drive s) (req_lba s) s"
    and succ: "sector_in (slot_file (host s)) (req_drive s) (req_lba s + 1) s"
    and size: "(req_lba s + 1) * fdd_bytes (req_drive s) s < fdd_sectors s (req_drive s) * 512"
    and base: "fdd_base s (req_drive s) + (req_lba s + 1) * fdd_bytes (req_drive s) s \<noteq> 0"
  defines "t \<equiv> fdd_poll apf s"
  shows "pref_lba t (req_drive s) = req_lba s + 1" "e \<noteq> req_drive s \<Longrightarrow> pref_lba t e = pref_lba s e"
    "ram_bytes (bram t) (512 :: 10 word) (unat (fdd_bytes (req_drive s) s))
       = image_sector (slot_file (host s)) (req_drive s) (req_lba s + 1) s"
proof -
  let ?d = "req_drive s" and ?v = "served_from s"
  let ?w = "fdd_serve apf ?d (req_lba s) (fdd_base ?v ?d + req_lba s * fdd_bytes ?d ?v) True ?v"
  have t: "t = fdd_prefetch apf ?d (req_lba s) ?w"
    unfolding t_def by (simp add: poll_raw_read [OF req raw] served_from_obs)
  have cong: "image_sector F ?d l ?v = image_sector F ?d l s" "sector_in F ?d l ?v = sector_in F ?d l s" for F l
    using sector_cong [OF served_from_obs(1)] by auto
  have tv: "pref_ok slot_file ?d ?v" using tag by (simp add: pref_ok_def cong served_from_obs)
  have okv: "words_ok ?v" using ok by (simp add: served_from_obs)
  have insv: "sector_in (slot_file (host ?v)) ?d (req_lba s) ?v" using inside by (simp add: served_from_obs cong)
  note w = serve_pushes [OF okv req_drive_less tv req_lba_real insv]
  have dw: "drives ?w = drives s" using w(3) by (simp add: served_from_obs)
  have rw: "\<not> fdd_d88 ?w ?d" "words_ok ?w"
    using drivesD [OF dw] raw ok by (simp_all add: words_ok_def)
  have cw: "image_sector F ?d l ?w = image_sector F ?d l s" "sector_in F ?d l ?w = sector_in F ?d l s" for F l
    using sector_cong [OF dw] by auto
  note q = prefetch_tag [OF rw(2) req_drive_less rw(1), where lba = "req_lba s"]
  have sw: "pref_lba ?w = pref_lba s"
  proof (cases "pref_lba ?v ?d = req_lba s")
    case True
    then show ?thesis
      by (simp add: fdd_serve_def fdd_pushed_obs served_from_obs fifo_sector_obs [OF req_drive_less])
  next
    case False
    then show ?thesis
      by (auto simp: fdd_serve_def fdd_pushed_obs served_from_obs tds_transfer_to_eq fifo_sector_obs [OF req_drive_less]
          split: prod.splits)
  qed
  show "pref_lba t e = pref_lba s e" if "e \<noteq> ?d" using q(4) that sw by (simp add: t)
  have tagged: "pref_lba (fdd_prefetch apf ?d (req_lba s) ?w) ?d = req_lba s + 1"
  proof -
    have b: "fdd_bytes ?d ?w = fdd_bytes ?d s" "fdd_base ?w = fdd_base s" "fdd_sectors ?w = fdd_sectors s"
      using drivesD [OF dw] by (simp_all add: fdd_bytes_def)
    define p where "p = ?w\<lparr>pref_lba := (pref_lba ?w)(?d := -1)\<rparr>"
    have bp: "fdd_bytes ?d p = fdd_bytes ?d s" "fdd_base p = fdd_base s" "fdd_sectors p = fdd_sectors s"
      "fdd_d88 p = fdd_d88 ?w" "host p = host ?w"
      using b by (simp_all add: p_def fdd_bytes_def)
    let ?off = "fdd_base s ?d + (req_lba s + 1) * fdd_bytes ?d s"
    obtain r u where u: "tds_transfer_to apf (fdd_slot ?d) ?off FDD_TDS_READ (fdd_bytes ?d s)
      (FDD_BRIDGE_BASE + PREF_BYTE) p = (r, u)" by fastforce
    have "slot_file (host ?w) = slot_file (host s)" using w(2) by (simp add: served_from_obs)
    then have r: r
      using transfer_serves [OF u] sector_addr(2) [OF succ ok req_drive_less] fdd_bytes_unat [OF ok req_drive_less [of s]] bp
      by simp
    show ?thesis
      unfolding fdd_prefetch_def Let_def p_def [symmetric] bp using rw size base r
      by (simp add: u)
  qed
  then show "pref_lba t ?d = req_lba s + 1" by (simp add: t)
  have "req_lba s + 1 \<noteq> -1"
  proof
    assume "req_lba s + 1 = -1"
    then have "unat (req_lba s + 1) = unat (-1 :: u32)" by (rule arg_cong)
    moreover have "unat (req_lba s + 1) = unat (req_lba s) + 1" using req_lba_bound [of s] by (simp add: unat_word_ariths)
    moreover have "unat (-1 :: u32) = 4294967295" by (simp add: unsigned_minus_1_eq_mask mask_eq_exp_minus_1)
    ultimately show False using req_lba_bound [of s] by simp
  qed
  then show "ram_bytes (bram t) (512 :: 10 word) (unat (fdd_bytes ?d s)) = image_sector (slot_file (host s)) ?d (req_lba s + 1) s"
    using poll_reads(2-4) [OF req raw ok tag inside] succ tagged sector_cong [OF poll_reads(3) [OF req raw ok tag inside]]
    by (simp add: t [symmetric] pref_ok_def) (simp add: t_def)
qed

end

lemma poll_hit:
  assumes req: "fdd_request s 0 AND FDD_REQ_READ \<noteq> 0" and raw: "\<not> fdd_d88 s (req_drive s)"
    and ok: "words_ok s" and hit: "pref_lba s (req_drive s) = req_lba s" and apf: "dataslot apf slot_file"
  shows "fdc_pushed (fdd (fdd_poll apf s)) = fdc_pushed (fdd s) @ ram_bytes (bram s) 512 (unat (fdd_bytes (req_drive s) s))"
proof -
  let ?d = "req_drive s" and ?v = "served_from s"
  have s: "fdd_serve apf ?d (req_lba s) off True ?v = fdd_pushed (push_sector ?d PREF_WORD ?v)" for off
    using hit by (simp add: fdd_serve_def served_from_obs)
  let ?w = "fdd_pushed (push_sector ?d PREF_WORD ?v)"
  have dw: "drives ?w = drives s"
    by (simp add: fdd_pushed_obs served_from_obs fifo_sector_obs [OF req_drive_less])
  have "\<not> fdd_d88 ?w ?d" "words_ok ?w" using drivesD [OF dw] raw ok by (simp_all add: words_ok_def)
  from dataslot.prefetch_tag(3) [OF apf this(2) req_drive_less this(1)]
  have "fdc_pushed (fdd (fdd_poll apf s)) = fdc_pushed (fdd ?w)"
    by (simp add: poll_raw_read [OF req raw] s)
  moreover have "4 * unat (fdd_sector_words ?v ?d) = unat (fdd_bytes ?d s)"
    using fdd_bytes_unat [OF ok req_drive_less [of s]] drivesD [OF served_from_obs(1), of s] by simp
  ultimately show ?thesis
    by (simp add: fdd_pushed_obs served_from_obs PREF_WORD_def fifo_sector_obs [OF req_drive_less])
qed

section \<open>A write request\<close>

text \<open>The state a write is drained from.\<close>

definition drained_from :: "('h, 'z) fdd_st_scheme \<Rightarrow> ('h, 'z) fdd_st_scheme" where
  "drained_from s = at_reg0 (s\<lparr>fdd_request := (\<lambda>n. fdd_request s (Suc n)), fdd_dbg_gap := gap_polls s, gap_polls := 0\<rparr>)"

lemma drained_from_obs:
  "drives (drained_from s) = drives s" "host (drained_from s) = host s" "bram (drained_from s) = bram s"
  "fdd (drained_from s) = fdd s" "words_ok (drained_from s) = words_ok s"
  "stage_word d (drained_from s) = stage_word d s" "fdd_sector_words (drained_from s) = fdd_sector_words s"
  by (simp_all add: drained_from_def at_reg0_def drives_def words_ok_def stage_word_def)

lemma poll_raw_write:
  fixes apf :: "'h apf" and s :: "('h, 'z) fdd_st_scheme"
  assumes "fdd_request s 0 AND FDD_REQ_READ = 0" "fdd_request s 0 AND FDD_REQ_WRITE \<noteq> 0" "\<not> fdd_d88 s (req_drive s)"
    and "words_ok s"
  defines "d \<equiv> req_drive s" and "v \<equiv> pull_fifo (req_drive s) (drained_from s)"
  defines "w \<equiv> snd (tds_transfer_to apf (fdd_slot d) (fdd_base s d + req_lba s * fdd_bytes d s) FDD_TDS_WRITE
                 (fdd_bytes d v) (FDD_BRIDGE_BASE + stage_word d v * 4) v)"
  shows "fdd_poll apf s = w\<lparr>pref_lba := (pref_lba w)(d := -1)\<rparr>"
proof -
  define g where "g = s\<lparr>fdd_request := (\<lambda>n. fdd_request s (Suc n)), fdd_dbg_gap := gap_polls s, gap_polls := 0\<rparr>"
  have n0: "fdd_request s 0 \<noteq> 0" using assms(2) by auto
  have "fdd_poll apf s = fdd_poll_write apf g"
    using assms(1,2) n0 by (simp add: fdd_poll_def read_request_def Let_def g_def)
  moreover have g: "req_drive g = d" "req_lba g = req_lba s" "fdd_d88 g = fdd_d88 s"
    "fdd_base g = fdd_base s" "fdd_bytes e g = fdd_bytes e s" "at_reg0 g = drained_from s" for e
    by (simp_all add: g_def d_def req_drive_def req_lba_def fdd_bytes_def drained_from_def)
  moreover have "fdd_d88 v d = fdd_d88 s d"
  proof -
    have "fdd_sector_words (drained_from s) d \<le> 256"
      using words_okD [OF assms(4), of d] by (auto simp: d_def req_drive_less drained_from_obs)
    then show ?thesis
      using pull_fifo_eq [of d "drained_from s"] drivesD [OF drained_from_obs(1), of s]
      by (auto simp: v_def d_def req_drive_less)
  qed
  ultimately show ?thesis
    using assms(3) by (simp add: poll_write_eq Let_def v_def d_def w_def)
qed

lemma pull_fifo_obs:
  assumes "words_ok s" "d < 2"
  defines "v \<equiv> pull_fifo d s" and "B \<equiv> unat (fdd_bytes d s)"
  shows "ram_bytes (bram v) (ucast (stage_word d s) :: 10 word) B = map (fdc_popped (fdd s)) [0..<B]"
    "host v = host s" "drives v = drives s" "words_ok v" "pref_lba v = pref_lba s"
    "fdd v = (fdd s)\<lparr>fdc_popped := (\<lambda>k. fdc_popped (fdd s) (k + B))\<rparr>"
proof -
  have n: "fdd_sector_words s d \<le> 256" "unat (fdd_sector_words s d) \<le> 1024"
    using words_okD [OF assms(1,2)] by auto
  have B: "B = 4 * unat (fdd_sector_words s d)" using fdd_bytes_unat [OF assms(1,2)] by (simp add: B_def)
  from pull_fifo_eq [OF assms(2) n(1)] obtain a x where e: "v = s\<lparr>bram := mem_put (bram s) (ucast (stage_word d s))
      (popped_words (unat (fdd_sector_words s d)) (fdc_popped (fdd s))),
    bram_addr := a, mgmt_addr := fifo_addr d, mgmt_rdata := x,
    fdd := (fdd s)\<lparr>fdc_popped := (\<lambda>k. fdc_popped (fdd s) (k + 4 * unat (fdd_sector_words s d)))\<rparr>\<rparr>"
    unfolding v_def by blast
  show "ram_bytes (bram v) (ucast (stage_word d s) :: 10 word) B = map (fdc_popped (fdd s)) [0..<B]"
    unfolding B using ram_bytes_popped [OF n(2)] by (simp add: e)
  show "host v = host s" "drives v = drives s" "words_ok v" "pref_lba v = pref_lba s"
    "fdd v = (fdd s)\<lparr>fdc_popped := (\<lambda>k. fdc_popped (fdd s) (k + B))\<rparr>"
    using assms(1) by (simp_all add: e B drives_def words_ok_def)
qed

context prompt_dataslot
begin

lemma poll_writes:
  assumes req: "fdd_request s 0 AND FDD_REQ_READ = 0" "fdd_request s 0 AND FDD_REQ_WRITE \<noteq> 0"
    and raw: "\<not> fdd_d88 s (req_drive s)" and ok: "words_ok s"
    and inside: "sector_in (slot_file (host s)) (req_drive s) (req_lba s) s"
  defines "t \<equiv> fdd_poll apf s" and "d \<equiv> req_drive s"
  defines "B \<equiv> unat (fdd_bytes d s)"
  shows "slot_file (host t) = (slot_file (host s))(fdd_slot d :=
      overwrite (slot_file (host s) (fdd_slot d)) (unat (fdd_base s d) + unat (req_lba s) * B)
        (map (fdc_popped (fdd s)) [0..<B]))"
    "fdd t = (fdd s)\<lparr>fdc_popped := (\<lambda>k. fdc_popped (fdd s) (k + B))\<rparr>"
    "drives t = drives s" "pref_lba t = (pref_lba s)(d := -1)"
proof -
  define u where "u = drained_from s"
  define v where "v = pull_fifo d u"
  have okd: "words_ok u" "d < 2" using ok by (simp_all add: u_def drained_from_obs d_def req_drive_less)
  have bu: "unat (fdd_bytes d u) = B" "fdd_bytes d u = fdd_bytes d s" by (simp_all add: B_def fdd_bytes_def u_def drained_from_obs)
  note v = pull_fifo_obs [OF okd, folded v_def, unfolded bu]
  have bv: "fdd_bytes d v = fdd_bytes d s" "stage_word d v = stage_word d u"
    using drivesD [OF v(3)] bu by (simp_all add: fdd_bytes_def stage_word_def)
  obtain r w where w: "tds_transfer_to apf (fdd_slot d) (fdd_base s d + req_lba s * fdd_bytes d s) FDD_TDS_WRITE
      (fdd_bytes d v) (FDD_BRIDGE_BASE + stage_word d v * 4) v = (r, w)" by fastforce
  have t: "t = w\<lparr>pref_lba := (pref_lba w)(d := -1)\<rparr>"
    using poll_raw_write [OF req raw ok, of apf] w by (simp add: t_def d_def v_def u_def)
  have hv: "host v = host s" using v(2) by (simp add: u_def drained_from_obs)
  note addr = sector_addr [OF inside ok req_drive_less, folded d_def B_def]
  have r: "r = True"
    using transfer_serves [OF w] addr(2) fdd_bytes_unat [OF ok okd(2)] by (simp add: bv hv)
  note wd = write_updates_file [OF w [unfolded r]]
  have shape: "fdd w = fdd v" "drives w = drives v" "pref_lba w = pref_lba v"
    using floppy_transfer_shape [OF w] by (auto simp: drives_def)
  have "ram_bytes (bram v) (ucast (drop_bit 2 (FDD_BRIDGE_BASE + stage_word d v * 4)) :: 10 word) (unat (fdd_bytes d v))
      = map (fdc_popped (fdd s)) [0..<B]"
    using v(1) bv by (simp add: stage_addr B_def u_def drained_from_obs)
  then show "slot_file (host t) = (slot_file (host s))(fdd_slot d :=
      overwrite (slot_file (host s) (fdd_slot d)) (unat (fdd_base s d) + unat (req_lba s) * B)
        (map (fdc_popped (fdd s)) [0..<B]))"
    using wd(1) addr bv hv by (simp add: t B_def)
  show "fdd t = (fdd s)\<lparr>fdc_popped := (\<lambda>k. fdc_popped (fdd s) (k + B))\<rparr>"
    using v(6) shape by (simp add: t u_def drained_from_obs B_def)
  show "drives t = drives s" 
    using v(3) shape drained_from_obs(1) [of s] by (simp add: t u_def) (simp add: drives_def)
  show "pref_lba t = (pref_lba s)(d := -1)"
    using v(5) shape by (simp add: t u_def drained_from_def at_reg0_def)
qed

end

end
