(* ===== verification/Fdd_Mount.thy ===== *)
theory Fdd_Mount
  imports Fdd_Serve
begin

text \<open>
  Mounting and the drive slots: what the probes and the identity hash leave alone, the media
  registers after a mount, the invariant the mount, eject, insert, unbind and poll operations
  keep, and the D88 track cache.
\<close>

section \<open>Media registers\<close>

text \<open>The controller knows of a medium exactly when the drive slot holds one, and is told the
  sector length the sector movers use.\<close>

definition drive_ok :: "nat \<Rightarrow> ('h, 'z) fdd_st_scheme \<Rightarrow> bool" where
  "drive_ok d s \<longleftrightarrow> (fdd_sector_words s d = 128 \<or> fdd_sector_words s d = 256)
     \<and> media_present (fdd s) (d = 1) = fdd_inserted s d
     \<and> media_is_1024 (fdd s) (d = 1) = (fdd_sector_words s d = 256)"

definition fdd_inv :: "('h, 'z) fdd_st_scheme \<Rightarrow> bool" where
  "fdd_inv s \<longleftrightarrow> (\<forall>d<2. drive_ok d s)"

lemma drive_ok_cong:
  assumes "drives t = drives s" "media (fdd t) = media (fdd s)"
  shows "drive_ok d t = drive_ok d s"
  using drivesD [OF assms(1)] assms(2) by (simp add: drive_ok_def media_def)

lemma fdd_inv_words: "fdd_inv s \<Longrightarrow> words_ok s"
  by (simp add: fdd_inv_def words_ok_def drive_ok_def)

text \<open>One media register, by the drive it addresses.\<close>

lemma fmgmt_addr:
  fixes r :: u32
  assumes "d < 2" "r < 0x10"
  shows "\<not> bit (push_bit 4 (of_nat d) OR (r AND 0xF)) 10" "\<not> bit (push_bit 4 (of_nat d) OR (r AND 0xF)) 9"
    "bit (push_bit 4 (of_nat d) OR (r AND 0xF)) 4 = (d = 1)"
    "(push_bit 4 (of_nat d) OR (r AND 0xF)) AND 0xF = r"
proof -
  have d: "d = 0 \<or> d = 1" using assms(1) by auto
  have m: "(0xF :: u32) = mask 4" by (simp add: mask_eq_exp_minus_1)
  have "unat (take_bit 4 r) = unat r"
    using assms(2) by (simp add: unsigned_take_bit_eq take_bit_nat_eq_self word_less_nat_alt)
  then have e: "take_bit 4 r = r" by (rule word_unat_eq_iff [THEN iffD2])
  have nb: "\<not> bit r n" if "4 \<le> n" for n using that e bit_take_bit_iff [of 4 r n] by simp
  show "\<not> bit (push_bit 4 (of_nat d) OR (r AND 0xF)) 10" "\<not> bit (push_bit 4 (of_nat d) OR (r AND 0xF)) 9"
    "bit (push_bit 4 (of_nat d) OR (r AND 0xF)) 4 = (d = 1)"
    using d nb [of 4] nb [of 9] nb [of 10] by (auto simp: bit_or_iff bit_and_iff bit_push_bit_iff)
  show "(push_bit 4 (of_nat d) OR (r AND 0xF)) AND 0xF = r"
    unfolding m
  proof (rule bit_word_eqI)
    fix n assume "n < LENGTH(32)"
    then show "bit ((push_bit 4 (of_nat d) OR (r AND mask 4)) AND mask 4) n = bit r n"
      using d nb [of n] by (cases "n < 4") (auto simp: bit_simps)
  qed
qed

lemma fdd_mgmt_write_eq:
  assumes "d < 2" "r < 0x10"
  shows "\<exists>a x. fdd_mgmt_write d r v s = s\<lparr>mgmt_addr := a, mgmt_wdata := x,
    fdd := fdc_write (d = 1) r (ucast v) (fdd s)\<rparr>"
proof -
  have m: "(0xFFFF :: u32) = mask 16" by (simp add: mask_eq_exp_minus_1)
  have "ucast (v AND 0xFFFF) = (ucast v :: u16)"
    unfolding m by (rule bit_word_eqI) (auto simp: bit_simps)
  then have "fdd_mgmt_write d r v s = s\<lparr>mgmt_addr := push_bit 4 (of_nat d) OR (r AND 0xF), mgmt_wdata := ucast v,
    fdd := fdc_write (d = 1) r (ucast v) (fdd s)\<rparr>"
    using fmgmt_addr [OF assms] by (simp add: fdd_mgmt_write_def mgmt_wr_def mgmt_strobe_wr_def Let_def)
  then show ?thesis by blast
qed

lemmas fmgmt_regs = FMGMT_PRESENT_def FMGMT_CYLS_def FMGMT_SPT_def FMGMT_TOTAL_def FMGMT_HEADS_def
  FMGMT_SECSIZE_def FMGMT_WRPROT_def

text \<open>The registers a declaration leaves behind.\<close>

definition declared :: "bool \<Rightarrow> fdd_geom \<Rightarrow> bool \<Rightarrow> fdc \<Rightarrow> fdc" where
  "declared b g wp d = d\<lparr>media_present := (media_present d)(b := True), wp_sys := (wp_sys d)(b := wp),
     media_cylinders := (media_cylinders d)(b := ucast (g_cyls g)),
     media_sectors_per_track := (media_sectors_per_track d)(b := ucast (g_spt g)),
     media_sector_count := (media_sector_count d)(b := ucast (g_cyls g * g_spt g * g_heads g)),
     media_heads := (media_heads d)(b := ucast (g_heads g)),
     media_is_1024 := (media_is_1024 d)(b := bit (g_1024 g) 0)\<rparr>"

lemma ucast_2: "(ucast (ucast (x :: u32) :: u16) :: 2 word) = ucast x"
  "(ucast (ucast x :: u16) :: u8) = ucast x"
  by (rule bit_word_eqI, auto simp: bit_simps)+

text \<open>Writes issued one after another touch nothing but the bus latches and the controller.\<close>

lemma fdd_mgmt_write_chain:
  assumes "d < 2" "r < 0x10"
  shows "\<exists>a x. fdd_mgmt_write d r v (s\<lparr>mgmt_addr := a0, mgmt_wdata := x0, fdd := f\<rparr>)
    = s\<lparr>mgmt_addr := a, mgmt_wdata := x, fdd := fdc_write (d = 1) r (ucast v) f\<rparr>"
  using fdd_mgmt_write_eq [OF assms, of v "s\<lparr>mgmt_addr := a0, mgmt_wdata := x0, fdd := f\<rparr>"] by auto

lemma fdd_declare_eq:
  assumes "d < 2"
  shows "\<exists>a x. fdd_declare d g s = s\<lparr>fdd_sector_words := (fdd_sector_words s)(d := if g_1024 g \<noteq> 0 then 256 else 128),
    mgmt_addr := a, mgmt_wdata := x, fdd := declared (d = 1) g (fdd_d88_wp s d) (fdd s)\<rparr>"
proof -
  define st where "st = (\<lambda>a x f. s\<lparr>mgmt_addr := a, mgmt_wdata := x, fdd := f\<rparr>)"
  define sw where "sw = (fdd_sector_words s)(d := if g_1024 g \<noteq> 0 then 256 else 128)"
  define tt where "tt = (\<lambda>a x f. s\<lparr>fdd_sector_words := sw, mgmt_addr := a, mgmt_wdata := x, fdd := f\<rparr>)"
  define b where "b = (d = 1)"
  have w: "\<exists>a' x'. fdd_mgmt_write d r v (st a x f) = st a' x' (fdc_write b r (ucast v) f)"
    "\<exists>a' x'. fdd_mgmt_write d r v (tt a x f) = tt a' x' (fdc_write b r (ucast v) f)" if "r < 0x10" for r v a x f
    unfolding st_def tt_def b_def
    by (rule fdd_mgmt_write_chain [OF assms that], rule fdd_mgmt_write_chain [OF assms that])
  have s0: "s = st (mgmt_addr s) (mgmt_wdata s) (fdd s)" by (simp add: st_def)
  define f1 where "f1 = fdc_write b 0 0 (fdd s)"
  define f2 where "f2 = fdc_write b 2 (ucast (g_cyls g)) f1"
  define f3 where "f3 = fdc_write b 3 (ucast (g_spt g)) f2"
  define f4 where "f4 = fdc_write b 4 (ucast (g_cyls g * g_spt g * g_heads g)) f3"
  define f5 where "f5 = fdc_write b 5 (ucast (g_heads g)) f4"
  define f6 where "f6 = fdc_write b 6 (ucast (g_1024 g)) f5"
  define f7 where "f7 = fdc_write b 1 (if fdd_d88_wp s d then 1 else 0) f6"
  define f8 where "f8 = fdc_write b 0 1 f7"
  obtain a1 x1 where 1: "fdd_mgmt_write d FMGMT_PRESENT 0 s = st a1 x1 f1"
    using w(1) [of 0 0 "mgmt_addr s" "mgmt_wdata s" "fdd s"] unfolding s0 [symmetric] f1_def by (auto simp: fmgmt_regs)
  obtain a2 x2 where 2: "fdd_mgmt_write d FMGMT_CYLS (g_cyls g) (st a1 x1 f1) = st a2 x2 f2"
    using w(1) [of 2] unfolding f2_def by (force simp: fmgmt_regs)
  obtain a3 x3 where 3: "fdd_mgmt_write d FMGMT_SPT (g_spt g) (st a2 x2 f2) = st a3 x3 f3"
    using w(1) [of 3] unfolding f3_def by (force simp: fmgmt_regs)
  obtain a4 x4 where 4: "fdd_mgmt_write d FMGMT_TOTAL (g_cyls g * g_spt g * g_heads g) (st a3 x3 f3) = st a4 x4 f4"
    using w(1) [of 4] unfolding f4_def by (force simp: fmgmt_regs)
  obtain a5 x5 where 5: "fdd_mgmt_write d FMGMT_HEADS (g_heads g) (st a4 x4 f4) = st a5 x5 f5"
    using w(1) [of 5] unfolding f5_def by (force simp: fmgmt_regs)
  obtain a6 x6 where 6: "fdd_mgmt_write d FMGMT_SECSIZE (g_1024 g) (st a5 x5 f5) = st a6 x6 f6"
    using w(1) [of 6] unfolding f6_def by (force simp: fmgmt_regs)
  have t: "(st a6 x6 f6)\<lparr>fdd_sector_words := (fdd_sector_words (st a6 x6 f6))(d := if g_1024 g \<noteq> 0 then 256 else 128)\<rparr> = tt a6 x6 f6"
    by (simp add: st_def tt_def sw_def)
  have wp: "fdd_d88_wp (tt a x f) = fdd_d88_wp s" for a x f by (simp add: tt_def)
  have u: "ucast (if P then 1 else 0 :: u32) = (if P then 1 else 0 :: u16)" for P by simp
  obtain a7 x7 where 7: "fdd_mgmt_write d FMGMT_WRPROT (if fdd_d88_wp s d then 1 else 0) (tt a6 x6 f6) = tt a7 x7 f7"
    using w(2) [of 1 "if fdd_d88_wp s d then 1 else 0" a6 x6 f6] unfolding f7_def u fmgmt_regs by auto
  obtain a8 x8 where 8: "fdd_mgmt_write d FMGMT_PRESENT 1 (tt a7 x7 f7) = tt a8 x8 f8"
    using w(2) [of 0 1] unfolding f8_def by (force simp: fmgmt_regs)
  have "fdd_declare d g s = tt a8 x8 f8"
    unfolding fdd_declare_def Let_def 1 2 3 4 5 6 t wp 7 8 ..
  moreover have "f8 = declared b g (fdd_d88_wp s d) (fdd s)"
    unfolding f8_def f7_def f6_def f5_def f4_def f3_def f2_def f1_def
    by (rule fdc.equality) (simp_all add: fdc_write_def declared_def ucast_2 bit_ucast_iff)
  ultimately show ?thesis unfolding tt_def sw_def b_def by blast
qed

section \<open>Probing and hashing\<close>

text \<open>What the probes of drive \<open>d\<close> may change: its own image description, nothing else.\<close>

definition probe_keeps :: "('h \<Rightarrow> u16 \<Rightarrow> u8 list) \<Rightarrow> nat \<Rightarrow> ('h, 'z) fdd_st_scheme \<Rightarrow> ('h, 'z) fdd_st_scheme \<Rightarrow> bool" where
  "probe_keeps file d s t \<longleftrightarrow> fdd_frame s t \<and> fdd t = fdd s \<and> file (host t) = file (host s)
     \<and> fdd_sector_words t = fdd_sector_words s \<and> fdd_sectors t = fdd_sectors s \<and> fdd_inserted t = fdd_inserted s
     \<and> pref_lba t = pref_lba s
     \<and> (\<forall>e. e \<noteq> d \<longrightarrow> fdd_base t e = fdd_base s e \<and> fdd_img_geom t e = fdd_img_geom s e
          \<and> fdd_d88 t e = fdd_d88 s e \<and> fdd_d88_wp t e = fdd_d88_wp s e)"

lemma probe_keeps_refl [simp]: "probe_keeps file d s s"
  by (simp add: probe_keeps_def)

lemma probe_keeps_trans: "probe_keeps file d s t \<Longrightarrow> probe_keeps file d t u \<Longrightarrow> probe_keeps file d s u"
  unfolding probe_keeps_def using fdd_frame_trans [of s t u] by auto

lemma quiet_probe: "quiet file s t \<Longrightarrow> probe_keeps file d s t"
  using drivesD [of t s] by (simp add: quiet_def fdd_keeps_def probe_keeps_def same_tags_def)

lemma probe_note:
  fixes s :: "('h, 'z) fdd_st_scheme"
  shows "probe_keeps file d s (s\<lparr>fdd_base := (fdd_base s)(d := x)\<rparr>)"
    "probe_keeps file d s (s\<lparr>fdd_img_geom := (fdd_img_geom s)(d := y)\<rparr>)"
    "probe_keeps file d s (s\<lparr>fdd_base := (fdd_base s)(d := x), fdd_img_geom := (fdd_img_geom s)(d := y)\<rparr>)"
    "probe_keeps file d s (s\<lparr>fdd_d88 := (fdd_d88 s)(d := p), fdd_d88_wp := (fdd_d88_wp s)(d := q),
       fdd_img_geom := (fdd_img_geom s)(d := y)\<rparr>)"
    "probe_keeps file d s (s\<lparr>fdd_d88 := (fdd_d88 s)(d := p), fdd_d88_wp := (fdd_d88_wp s)(d := q),
       fdd_base := (fdd_base s)(d := x), fdd_img_geom := (fdd_img_geom s)(d := y)\<rparr>)"
  by (simp_all add: probe_keeps_def fdd_frame_def bram_keeps_refl log_ext_refl book_def)

lemma d88_walk_shape: "\<exists>x. snd (d88_walk f is a s) = s\<lparr>bram_addr := x\<rparr>"
proof (induction f "is" a s rule: d88_walk.induct)
  case (1 f a s)
  have "s = s\<lparr>bram_addr := bram_addr s\<rparr>" by simp
  then show ?case by (metis d88_walk.simps(1) snd_conv)
next
  case (2 f i "is" a s)
  have r: "bram_read s = (bram s (bram_addr s), s\<lparr>bram_addr := bram_addr s + 1\<rparr>)" by (simp add: bram_read_def)
  show ?case
  proof (cases "f i (bram s (bram_addr s)) a")
    case None
    then show ?thesis by (simp add: r) blast
  next
    case (Some b)
    from 2 [OF r [symmetric] refl Some] show ?thesis by (simp add: r Some)
  qed
qed

lemma collect_shape: "\<exists>x. snd (collect n bram_read s) = s\<lparr>bram_addr := x\<rparr>"
proof (induction n arbitrary: s)
  case 0
  have "s = s\<lparr>bram_addr := bram_addr s\<rparr>" by simp
  then show ?case by (metis collect.simps(1) snd_conv)
next
  case (Suc n)
  from Suc [of "s\<lparr>bram_addr := bram_addr s + 1\<rparr>"] show ?case
    by (auto simp: bram_read_def split: prod.splits)
qed

lemma d88_walk_quiet: "d88_walk f is a (bram_seek w s) = (r, t) \<Longrightarrow> quiet file s t"
  using d88_walk_shape [of f "is" a "bram_seek w s"] port_quiet(1) by (auto simp: bram_seek_def)

lemma collect_quiet: "collect n bram_read (bram_seek w s) = (r, t) \<Longrightarrow> quiet file s t"
  using collect_shape [of n "bram_seek w s"] port_quiet(1) by (auto simp: bram_seek_def)

lemma d88_adopt_probe: "probe_keeps file d s (d88_adopt d a h s)"
  by (simp add: d88_adopt_def Let_def probe_note)

context dataslot
begin

lemma probe_d88_keeps: "probe_keeps slot_file d s (fdd_probe_d88 apf d n s)"
proof -
  define s0 where "s0 = s\<lparr>fdd_d88 := (fdd_d88 s)(d := False), fdd_d88_wp := (fdd_d88_wp s)(d := False),
                fdd_base := (fdd_base s)(d := 0),
                fdd_img_geom := (fdd_img_geom s)(d := (fdd_img_geom s d)(0 := 0))\<rparr>"
  have k0: "probe_keeps slot_file d s s0" unfolding s0_def by (rule probe_note)
  note tr = probe_keeps_trans and qp = quiet_probe
  obtain o1 s1 where 1: "fdd_read_at apf d 0x200 176 s0 = (o1, s1)" by fastforce
  have k1: "probe_keeps slot_file d s s1" by (rule tr [OF k0 qp [OF read_at_quiet [OF 1]]]) simp
  obtain r2 s2 where 2: "d88_walk (d88_tail_word (n * 512)) [0..<44] d88_acc0 (bram_seek 0 s1) = (r2, s2)" by fastforce
  have k2: "probe_keeps slot_file d s s2" by (rule tr [OF k1 qp [OF d88_walk_quiet [OF 2]]])
  obtain o3 s3 where 3: "fdd_read_at apf d 0 512 s2 = (o3, s3)" by fastforce
  have k3: "probe_keeps slot_file d s s3" by (rule tr [OF k2 qp [OF read_at_quiet [OF 3]]]) simp
  obtain r4 s4 where 4: "d88_walk (d88_head_word (n * 512)) [0..<128] (the r2) (bram_seek 0 s3) = (r4, s4)" by fastforce
  have k4: "probe_keeps slot_file d s s4" by (rule tr [OF k3 qp [OF d88_walk_quiet [OF 4]]])
  obtain o5 s5 where 5: "fdd_read_at apf d (a_first (the r4)) D88_SECHDR s4 = (o5, s5)" by fastforce
  have k5: "probe_keeps slot_file d s s5" by (rule tr [OF k4 qp [OF read_at_quiet [OF 5]]]) (simp add: D88_SECHDR_def)
  obtain h s6 where 6: "collect 4 bram_read (bram_seek 0 s5) = (h, s6)" by fastforce
  have k6: "probe_keeps slot_file d s (d88_adopt d a h s6)" for a
    by (rule tr [OF tr [OF k5 qp [OF collect_quiet [OF 6]]] d88_adopt_probe])
  have 7: "a_first (the r4) = D88_HDRSIZE \<Longrightarrow> fdd_read_at apf d D88_HDRSIZE D88_SECHDR s4 = (o5, s5)"
    using 5 by simp
  show ?thesis
    unfolding fdd_probe_d88_def Let_def s0_def [symmetric] 1 prod.case 2
    using k1 k2 k3 k4 k5 k6 3 4 5 6 7
    by (cases r2; cases r4) (simp_all del: collect.simps)
qed

lemma probe_fdi_keeps: "probe_keeps slot_file d s (fdd_probe_fdi apf d n s)"
proof -
  define s0 where "s0 = s\<lparr>fdd_base := (fdd_base s)(d := 0)\<rparr>"
  have k0: "probe_keeps slot_file d s s0" unfolding s0_def by (rule probe_note)
  obtain o1 s1 where 1: "tds_transfer apf (fdd_slot d) 0 FDD_TDS_READ 32 s0 = (o1, s1)" by fastforce
  have k1: "probe_keeps slot_file d s s1"
    by (rule probe_keeps_trans [OF k0 quiet_probe [OF read_at_quiet [OF 1 [folded fdd_read_at_def]]]]) simp
  obtain w s2 where 2: "collect 8 bram_read (bram_seek 0 s1) = (w, s2)" by fastforce
  have k2: "probe_keeps slot_file d s s2" by (rule probe_keeps_trans [OF k1 quiet_probe [OF collect_quiet [OF 2]]])
  define s3 where "s3 = s2\<lparr>fdd_img_geom := (fdd_img_geom s2)(d := (fdd_img_geom s2 d)(0 := 0))\<rparr>"
  have k3: "probe_keeps slot_file d s s3" unfolding s3_def by (rule probe_keeps_trans [OF k2 probe_note(2)])
  show ?thesis
    unfolding fdd_probe_fdi_def Let_def s0_def [symmetric] 1 prod.case 2 s3_def [symmetric]
    using k0 k1 k3 probe_keeps_trans [OF k3 probe_note(3)] by simp
qed

lemma hash_word_shape: "\<exists>h x. for_to n (\<lambda>_. hash_word) (h0, s) = (h, s\<lparr>bram_addr := x\<rparr>)"
proof (induction n)
  case 0
  have "s = s\<lparr>bram_addr := bram_addr s\<rparr>" by simp
  then show ?case by (metis for_to_0)
next
  case (Suc n)
  then obtain h x where "for_to n (\<lambda>_. hash_word) (h0, s) = (h, s\<lparr>bram_addr := x\<rparr>)" by blast
  then have "\<exists>h'. for_to (Suc n) (\<lambda>_. hash_word) (h0, s) = (h', s\<lparr>bram_addr := x + 1\<rparr>)"
    by (simp add: for_to_Suc hash_word_def bram_read_def Let_def)
  then show ?case by blast
qed

lemma hash_block_quiet: "hash_block apf d off (h, s) = (h', t) \<Longrightarrow> quiet slot_file s t"
proof -
  assume e: "hash_block apf d off (h, s) = (h', t)"
  obtain r u where u: "tds_transfer apf (fdd_slot d) off FDD_TDS_READ SECTOR_BYTES s = (r, u)" by fastforce
  have q: "quiet slot_file s u"
    by (rule read_at_quiet [OF u [folded fdd_read_at_def]]) (simp add: SECTOR_BYTES_def)
  obtain k x where "for_to SECTOR_WORDS (\<lambda>_. hash_word) (h, bram_seek 0 u) = (k, (bram_seek 0 u)\<lparr>bram_addr := x\<rparr>)"
    using hash_word_shape by blast
  then have "t = u \<or> t = u\<lparr>bram_addr := x\<rparr>"
    using e by (cases r) (simp_all add: hash_block_def u bram_seek_def)
  then show ?thesis using q quiet_trans [OF q port_quiet(1)] by auto
qed

lemma image_hash_quiet: "fdd_image_hash apf d n s = (h, t) \<Longrightarrow> quiet slot_file s t \<and> h \<noteq> 0"
proof -
  assume e: "fdd_image_hash apf d n s = (h, t)"
  obtain h1 s1 where 1: "hash_block apf d (fdd_base s d) (fnv_byte 2166136261 n, s) = (h1, s1)" by fastforce
  obtain h2 s2 where 2: "hash_block apf d
      (fdd_base s1 d + (drop_bit 1 (n * SECTOR_BYTES) AND NOT (SECTOR_BYTES - 1))) (h1, s1) = (h2, s2)" by fastforce
  have "(h = (if h1 \<noteq> 0 then h1 else 1) \<and> t = s1) \<or> (h = (if h2 \<noteq> 0 then h2 else 1) \<and> t = s2)"
    using e unfolding fdd_image_hash_def Let_def 1 snd_conv 2
    by (cases "n * SECTOR_BYTES < 2 * SECTOR_BYTES") auto
  then show ?thesis
    using hash_block_quiet [OF 1] quiet_trans [OF hash_block_quiet [OF 1] hash_block_quiet [OF 2]] by (auto split: if_splits)
qed

end

section \<open>What a probe finds\<close>

text \<open>An image description the probe filled in: what the registers can hold.\<close>

definition probed :: "(nat \<Rightarrow> u32) \<Rightarrow> bool" where
  "probed i \<longleftrightarrow> 1 \<le> unat (i 0) \<and> unat (i 0) \<le> 255 \<and> 1 \<le> unat (i 1) \<and> unat (i 1) \<le> 127
     \<and> (i 2 = 1 \<or> i 2 = 2) \<and> (i 3 = 0 \<or> i 3 = 1)"

lemma d88_walk_inv:
  assumes "d88_walk f is a s = (Some b, t)" and "P a"
    and "\<And>i w a b. i \<in> set is \<Longrightarrow> f i w a = Some b \<Longrightarrow> P a \<Longrightarrow> P b"
  shows "P b"
  using assms
proof (induction f "is" a s rule: d88_walk.induct)
  case (1 f a s)
  then show ?case by simp
next
  case (2 f i "is" a s)
  have r: "bram_read s = (bram s (bram_addr s), s\<lparr>bram_addr := bram_addr s + 1\<rparr>)" by (simp add: bram_read_def)
  from 2(2) obtain c where c: "f i (bram s (bram_addr s)) a = Some c"
    by (auto simp: r split: option.splits)
  from 2(2) have w: "d88_walk f is c (s\<lparr>bram_addr := bram_addr s + 1\<rparr>) = (Some b, t)" by (simp add: r c)
  have "P c" using 2(4) [OF _ c 2(3)] by simp
  then show ?case by (rule 2(1) [OF r [symmetric] refl c w]) (use 2(4) in auto)
qed

text \<open>The second pass of the track table runs last and covers tracks 0 to 119 only.\<close>

lemma d88_last_low:
  assumes "d88_walk (d88_tail_word n) [0..<44] d88_acc0 s = (Some a, s')"
    and "d88_walk (d88_head_word m) [0..<128] a u = (Some b, u')" "a_first b \<noteq> 0"
  shows "a_last b < 120"
proof -
  have "a_first a = 0"
    by (rule d88_walk_inv [OF assms(1), where P = "\<lambda>a. a_first a = 0"])
      (auto simp: d88_acc0_def d88_tail_word_def d88_entry_def split: if_splits)
  then have "a_first b \<noteq> 0 \<longrightarrow> a_last b < 120"
    by (intro d88_walk_inv [OF assms(2), where P = "\<lambda>a. a_first a \<noteq> 0 \<longrightarrow> a_last a < 120"])
      (auto simp: d88_head_word_def d88_entry_def split: if_splits)
  then show ?thesis using assms(3) by simp
qed

lemma d88_adopt_result:
  assumes "fdd_img_geom s d 0 = 0" "\<not> fdd_d88 s d" "a_last a < 120"
  shows "let t = d88_adopt d a h s in
    (if fdd_d88 t d then probed (fdd_img_geom t d) \<and> unat (fdd_img_geom t d 0) \<le> 32 \<and> unat (fdd_img_geom t d 1) \<le> 60
     else fdd_img_geom t d 0 = 0)"
proof -
  have "unat (of_nat (a_last a div 2 + 1) :: u32) = a_last a div 2 + 1"
    using assms(3) by (simp add: unat_of_nat del: of_nat_add of_nat_Suc)
  then show ?thesis
    using assms
    by (auto simp: d88_adopt_def Let_def probed_def word_le_nat_alt not_less unat_gt_0 Suc_le_eq del: of_nat_add of_nat_Suc)
qed

context dataslot
begin

lemma probe_d88_result:
  fixes s :: "('h, 'z) fdd_st_scheme"
  shows "let t = fdd_probe_d88 apf d n s in
    (if fdd_d88 t d then probed (fdd_img_geom t d) \<and> unat (fdd_img_geom t d 0) \<le> 32 \<and> unat (fdd_img_geom t d 1) \<le> 60
     else fdd_img_geom t d 0 = 0)"
proof -
  define ok where "ok = (\<lambda>t :: ('h, 'z) fdd_st_scheme. if fdd_d88 t d then probed (fdd_img_geom t d)
    \<and> unat (fdd_img_geom t d 0) \<le> 32 \<and> unat (fdd_img_geom t d 1) \<le> 60 else fdd_img_geom t d 0 = 0)"
  define fresh where "fresh = (\<lambda>t :: ('h, 'z) fdd_st_scheme. fdd_img_geom t d 0 = 0 \<and> \<not> fdd_d88 t d)"
  have fok: "fresh t \<Longrightarrow> ok t" for t by (simp add: fresh_def ok_def)
  have q: "quiet slot_file t u \<Longrightarrow> fresh t \<Longrightarrow> fresh u" for t u
    using drivesD [of u t] by (simp add: quiet_def fdd_keeps_def fresh_def)
  define s0 where "s0 = s\<lparr>fdd_d88 := (fdd_d88 s)(d := False), fdd_d88_wp := (fdd_d88_wp s)(d := False),
                fdd_base := (fdd_base s)(d := 0),
                fdd_img_geom := (fdd_img_geom s)(d := (fdd_img_geom s d)(0 := 0))\<rparr>"
  have k0: "fresh s0" by (simp add: s0_def fresh_def)
  obtain o1 s1 where 1: "fdd_read_at apf d 0x200 176 s0 = (o1, s1)" by fastforce
  have k1: "fresh s1" by (rule q [OF read_at_quiet [OF 1] k0]) simp
  obtain r2 s2 where 2: "d88_walk (d88_tail_word (n * 512)) [0..<44] d88_acc0 (bram_seek 0 s1) = (r2, s2)" by fastforce
  have k2: "fresh s2" by (rule q [OF d88_walk_quiet [OF 2] k1])
  obtain o3 s3 where 3: "fdd_read_at apf d 0 512 s2 = (o3, s3)" by fastforce
  have k3: "fresh s3" by (rule q [OF read_at_quiet [OF 3] k2]) simp
  obtain r4 s4 where 4: "d88_walk (d88_head_word (n * 512)) [0..<128] (the r2) (bram_seek 0 s3) = (r4, s4)" by fastforce
  have k4: "fresh s4" by (rule q [OF d88_walk_quiet [OF 4] k3])
  obtain o5 s5 where 5: "fdd_read_at apf d (a_first (the r4)) D88_SECHDR s4 = (o5, s5)" by fastforce
  have k5: "fresh s5" by (rule q [OF read_at_quiet [OF 5] k4]) (simp add: D88_SECHDR_def)
  obtain h s6 where 6: "collect 4 bram_read (bram_seek 0 s5) = (h, s6)" by fastforce
  have k6: "fresh s6" by (rule q [OF collect_quiet [OF 6] k5])
  have adopt: "ok (d88_adopt d (the r4) h s6)" if "r2 \<noteq> None" "r4 \<noteq> None" "a_first (the r4) = D88_HDRSIZE"
  proof -
    have "d88_walk (d88_tail_word (n * 512)) [0..<44] d88_acc0 (bram_seek 0 s1) = (Some (the r2), s2)"
      "d88_walk (d88_head_word (n * 512)) [0..<128] (the r2) (bram_seek 0 s3) = (Some (the r4), s4)"
      using 2 4 that by auto
    from d88_last_low [OF this] have "a_last (the r4) < 120" using that(3) by (simp add: fdd_consts)
    then show ?thesis
      using d88_adopt_result [of s6 d "the r4" h] k6 by (simp add: ok_def fresh_def Let_def)
  qed
  have 7: "a_first (the r4) = D88_HDRSIZE \<Longrightarrow> fdd_read_at apf d D88_HDRSIZE D88_SECHDR s4 = (o5, s5)"
    using 5 by simp
  have "ok (fdd_probe_d88 apf d n s)"
    unfolding fdd_probe_d88_def Let_def s0_def [symmetric] 1 prod.case 2
    using fok [OF k1] fok [OF k2] fok [OF k3] fok [OF k4] fok [OF k5] adopt 3 4 5 6 7
    by (cases r2; cases r4) (simp_all del: collect.simps)
  then show ?thesis by (simp add: ok_def Let_def)
qed

lemma probe_fdi_d88: "fdd_d88 (fdd_probe_fdi apf d n s) = fdd_d88 s"
proof -
  define s0 where "s0 = s\<lparr>fdd_base := (fdd_base s)(d := 0)\<rparr>"
  obtain o1 s1 where 1: "tds_transfer apf (fdd_slot d) 0 FDD_TDS_READ 32 s0 = (o1, s1)" by fastforce
  have "quiet slot_file s0 s1" by (rule read_at_quiet [OF 1 [folded fdd_read_at_def]]) simp
  then have k1: "fdd_d88 s1 = fdd_d88 s" using drivesD [of s1 s0] by (simp add: quiet_def fdd_keeps_def s0_def)
  obtain w s2 where 2: "collect 8 bram_read (bram_seek 0 s1) = (w, s2)" by fastforce
  have "quiet slot_file s1 s2" by (rule collect_quiet [OF 2])
  then have k2: "fdd_d88 s2 = fdd_d88 s" using k1 drivesD [of s2 s1] by (simp add: quiet_def fdd_keeps_def)
  show ?thesis
    unfolding fdd_probe_fdi_def Let_def s0_def [symmetric] 1 prod.case 2
    using k1 k2 by (simp add: s0_def)
qed

lemma probe_fdi_result:
  assumes "fdd_img_geom s d 0 = 0"
  shows "fdd_img_geom (fdd_probe_fdi apf d n s) d 0 = 0 \<or> probed (fdd_img_geom (fdd_probe_fdi apf d n s) d)"
proof -
  define s0 where "s0 = s\<lparr>fdd_base := (fdd_base s)(d := 0)\<rparr>"
  have k0: "fdd_img_geom s0 d 0 = 0" using assms by (simp add: s0_def)
  obtain o1 s1 where 1: "tds_transfer apf (fdd_slot d) 0 FDD_TDS_READ 32 s0 = (o1, s1)" by fastforce
  have "quiet slot_file s0 s1" by (rule read_at_quiet [OF 1 [folded fdd_read_at_def]]) simp
  then have k1: "fdd_img_geom s1 d 0 = 0" using k0 drivesD [of s1 s0] by (simp add: quiet_def fdd_keeps_def)
  obtain w s2 where 2: "collect 8 bram_read (bram_seek 0 s1) = (w, s2)" by fastforce
  show ?thesis
    unfolding fdd_probe_fdi_def Let_def s0_def [symmetric] 1 prod.case 2
    using k0 k1 by (auto simp: fdi_believed_def Let_def probed_def word_le_nat_alt)
qed

end

lemma mount_geom_fits:
  fixes s :: "('h, 'z) fdd_st_scheme" and n :: u32
  assumes "fdd_img_geom s d 0 = 0 \<or> probed (fdd_img_geom s d)"
  defines "g \<equiv> mount_geom d n s"
  shows "1 \<le> unat (g_cyls g) \<and> unat (g_cyls g) \<le> 127 \<and> 1 \<le> unat (g_spt g) \<and> unat (g_spt g) \<le> 255
    \<and> (g_heads g = 1 \<or> g_heads g = 2) \<and> (g_1024 g = 0 \<or> g_1024 g = 1)"
proof (cases "fdd_img_geom s d 0 = 0")
  case True
  have "g \<in> set fdd_geoms"
    using True by (auto simp: g_def mount_geom_def table_geom_def fdd_geoms_def split: option.split simp: find_Some_iff)
  then show ?thesis by (auto simp: fdd_geoms_def geom_def)
next
  case False
  then show ?thesis using assms(1) by (auto simp: g_def mount_geom_def geom_def probed_def Let_def)
qed

section \<open>The settings store across a floppy operation\<close>

lemma lookup_slot_window:
  assumes "\<And>a. in_window a \<Longrightarrow> m' a = m a"
  shows "lookup_slot m' h = lookup_slot m h"
  by (rule lookup_slot_cong) (rule assms, simp add: in_window_def unat_of_nat)

lemma store_inv_frame:
  assumes "fdd_frame s t"
  shows "store_inv t = store_inv s"
proof -
  have w: "bram t a = bram s a" if "in_window a" for a
    using assms that by (simp add: fdd_frame_def bram_keeps_def)
  have b: "book t = book s" "set_value t = set_value s" using assms by (simp_all add: fdd_frame_def)
  have m: "bram t (of_nat TABLE_WORD) = bram s (of_nat TABLE_WORD)"
    by (rule w) (simp add: in_window_def TABLE_WORD_def layout_simps)
  show ?thesis
    using bookD [OF b(1)] b(2) lookup_slot_window [OF w] by (simp add: store_inv_def slot_inv_def m)
qed

lemma mounted_store:
  assumes "store_inv s"
  shows "store_inv (settings_disk_mounted h s)" "fdd (settings_disk_mounted h s) = fdd s"
    "set_st.more (settings_disk_mounted h s) = set_st.more s"
proof -
  have "store_inv (settings_disk_mounted h s) \<and> store_frame s (settings_disk_mounted h s)"
  proof (cases "h = disk_hash s")
    case True
    then show ?thesis using assms by (simp add: settings_disk_mounted_def)
  next
    case False
    show ?thesis using mount_obs(5,7-9) [of s h] False assms by (simp add: store_inv_def)
  qed
  then show "store_inv (settings_disk_mounted h s)" "fdd (settings_disk_mounted h s) = fdd s"
    "set_st.more (settings_disk_mounted h s) = set_st.more s"
    by (simp_all add: store_frame_def)
qed

lemma mounted_drives:
  fixes s :: "('h, 'z) fdd_st_scheme"
  assumes "store_inv s"
  shows "drives (settings_disk_mounted h s) = drives s" "pref_lba (settings_disk_mounted h s) = pref_lba s"
proof -
  define t where "t = settings_disk_mounted h s"
  have "fdd_st.fdd_sector_words t = fdd_st.fdd_sector_words s \<and> fdd_base t = fdd_base s \<and> fdd_img_geom t = fdd_img_geom s
    \<and> fdd_d88 t = fdd_d88 s \<and> fdd_d88_wp t = fdd_d88_wp s \<and> fdd_sectors t = fdd_sectors s
    \<and> fdd_inserted t = fdd_inserted s \<and> pref_lba t = pref_lba s"
    using mounted_store(3) [OF assms, of h] unfolding t_def [symmetric] by (cases t; cases s) simp
  then show "drives (settings_disk_mounted h s) = drives s" "pref_lba (settings_disk_mounted h s) = pref_lba s"
    by (simp_all add: t_def drives_def)
qed

section \<open>Operations on the drives\<close>

definition geom_fits :: "fdd_geom \<Rightarrow> bool" where
  "geom_fits g \<longleftrightarrow> 1 \<le> unat (g_cyls g) \<and> unat (g_cyls g) \<le> 127 \<and> 1 \<le> unat (g_spt g) \<and> unat (g_spt g) \<le> 255
    \<and> (g_heads g = 1 \<or> g_heads g = 2) \<and> (g_1024 g = 0 \<or> g_1024 g = 1)"

lemma store_inv_cong:
  "bram t = bram s \<Longrightarrow> book t = book s \<Longrightarrow> set_value t = set_value s \<Longrightarrow> store_inv t = store_inv s"
  using bookD [of t s] by (simp add: store_inv_def slot_inv_def)

context dataslot
begin

lemma mount_result:
  fixes s :: "('h, 'z) fdd_st_scheme" and n :: u32
  assumes "d < 2" and inv: "store_inv s"
  defines "t \<equiv> fdd_mount apf d n s"
  shows "\<exists>g wp. geom_fits g \<and> fdd t = declared (d = 1) g wp (fdd s)
    \<and> fdd_sector_words t = (fdd_sector_words s)(d := if g_1024 g \<noteq> 0 then 256 else 128)"
    "fdd_sectors t = (fdd_sectors s)(d := n)" "fdd_inserted t = (fdd_inserted s)(d := True)"
    "pref_lba t = (pref_lba s)(d := -1)" "store_inv t"
    "fdd_d88 t d \<Longrightarrow> fdd_img_geom t d 0 \<noteq> 0 \<and> unat (fdd_img_geom t d 0) \<le> 32 \<and> unat (fdd_img_geom t d 1) \<le> 60"
    "fdd_img_geom t d 0 \<noteq> 0 \<Longrightarrow> fdd t = declared (d = 1) (geom 0 (fdd_img_geom t d 1) (fdd_img_geom t d 0)
       (fdd_img_geom t d 2) (fdd_img_geom t d 3)) (fdd_d88_wp t d) (fdd s)"
    "let p = fdd_probe_d88 apf d n (s\<lparr>d88_cache_trk := (d88_cache_trk s)(d := -1), pref_lba := (pref_lba s)(d := -1)\<rparr>)
     in fdd_d88 p d \<longrightarrow> fdd_d88 t d \<and> fdd_img_geom t d = fdd_img_geom p d"
proof -
  define s0 where "s0 = s\<lparr>d88_cache_trk := (d88_cache_trk s)(d := -1), pref_lba := (pref_lba s)(d := -1)\<rparr>"
  define p where "p = fdd_probe_d88 apf d n s0"
  define r where "r = (if \<not> fdd_d88 p d then fdd_probe_fdi apf d n p else p)"
  define g where "g = mount_geom d n r"
  have f0: "fdd_frame s s0" by (simp add: s0_def fdd_frame_def bram_keeps_refl log_ext_refl book_def)
  have kp: "probe_keeps slot_file d s0 p" unfolding p_def by (rule probe_d88_keeps)
  have kr: "probe_keeps slot_file d s0 r"
    unfolding r_def using kp probe_keeps_trans [OF kp probe_fdi_keeps] by simp
  have pr: "if fdd_d88 p d then probed (fdd_img_geom p d) \<and> unat (fdd_img_geom p d 0) \<le> 32 \<and> unat (fdd_img_geom p d 1) \<le> 60
     else fdd_img_geom p d 0 = 0"
    using probe_d88_result [of d n s0] unfolding p_def Let_def .
  have fit: "fdd_img_geom r d 0 = 0 \<or> probed (fdd_img_geom r d)"
    using pr probe_fdi_result [of p d n] by (auto simp: r_def split: if_splits)
  have g: "geom_fits g" unfolding g_def geom_fits_def by (rule mount_geom_fits [OF fit])
  obtain a x where de: "fdd_declare d g r = r\<lparr>fdd_sector_words := (fdd_sector_words r)(d := if g_1024 g \<noteq> 0 then 256 else 128),
    mgmt_addr := a, mgmt_wdata := x, fdd := declared (d = 1) g (fdd_d88_wp r d) (fdd r)\<rparr>"
    using fdd_declare_eq [OF assms(1)] by blast
  define u where "u = (fdd_declare d g r)\<lparr>fdd_sectors := (fdd_sectors (fdd_declare d g r))(d := n),
                fdd_inserted := (fdd_inserted (fdd_declare d g r))(d := True)\<rparr>"
  define v where "v = (if d = 0 then snd (fdd_image_hash apf d n u) else u)"
  have te: "t = (if d = 0 then settings_disk_mounted (fst (fdd_image_hash apf d n u)) v else v)"
    unfolding t_def fdd_mount_def Let_def s0_def [symmetric]
    unfolding p_def [symmetric]
    unfolding r_def [symmetric]
    unfolding g_def [symmetric]
    unfolding u_def [symmetric] v_def
    by (simp split: prod.split)
  have qv: "quiet slot_file u v"
    using image_hash_quiet [of d n u "fst (fdd_image_hash apf d n u)" "snd (fdd_image_hash apf d n u)"] by (cases "d = 0") (simp_all add: v_def)
  have sr: "store_inv r"
    using store_inv_frame [OF f0] store_inv_frame [of s0 r] kr inv by (simp add: probe_keeps_def)
  have "store_inv u" using sr store_inv_cong [of u r] by (simp add: u_def de book_def)
  then have sv: "store_inv v" using qv store_inv_frame [of u v] by (simp add: quiet_def fdd_keeps_def)
  have dv: "drives v = drives u" "fdd v = fdd u" "pref_lba v = pref_lba u"
    using qv by (simp_all add: quiet_def fdd_keeps_def same_tags_def)
  have t: "drives t = drives u" "fdd t = fdd u" "pref_lba t = pref_lba u" "store_inv t"
    unfolding te using mounted_drives [OF sv] mounted_store [OF sv] sv dv by simp_all
  have ue: "fdd u = declared (d = 1) g (fdd_d88_wp r d) (fdd s)"
    "fdd_sector_words u = (fdd_sector_words s)(d := if g_1024 g \<noteq> 0 then 256 else 128)"
    "fdd_sectors u = (fdd_sectors s)(d := n)" "fdd_inserted u = (fdd_inserted s)(d := True)"
    "pref_lba u = (pref_lba s)(d := -1)" "fdd_img_geom u = fdd_img_geom r" "fdd_d88 u = fdd_d88 r" "fdd_d88_wp u = fdd_d88_wp r"
    using kr by (simp_all add: u_def de probe_keeps_def s0_def)
  note td = drivesD [OF t(1)]
  show "\<exists>g wp. geom_fits g \<and> fdd t = declared (d = 1) g wp (fdd s)
    \<and> fdd_sector_words t = (fdd_sector_words s)(d := if g_1024 g \<noteq> 0 then 256 else 128)"
    by (intro exI [of _ g] exI [of _ "fdd_d88_wp r d"]) (use g td t(2) ue in simp)
  show "fdd_sectors t = (fdd_sectors s)(d := n)" "fdd_inserted t = (fdd_inserted s)(d := True)"
    "pref_lba t = (pref_lba s)(d := -1)" "store_inv t"
    using td t ue by simp_all
  have d88: "fdd_d88 r d \<Longrightarrow> fdd_d88 p d \<and> r = p"
    by (cases "fdd_d88 p d") (simp_all add: r_def probe_fdi_d88)
  show "fdd_img_geom t d 0 \<noteq> 0 \<and> unat (fdd_img_geom t d 0) \<le> 32 \<and> unat (fdd_img_geom t d 1) \<le> 60" if "fdd_d88 t d"
    using that td ue d88 pr by (auto simp: probed_def)
  show "fdd t = declared (d = 1) (geom 0 (fdd_img_geom t d 1) (fdd_img_geom t d 0)
       (fdd_img_geom t d 2) (fdd_img_geom t d 3)) (fdd_d88_wp t d) (fdd s)" if "fdd_img_geom t d 0 \<noteq> 0"
    using that td t(2) ue by (simp add: g_def mount_geom_def Let_def)
  show "let p = fdd_probe_d88 apf d n (s\<lparr>d88_cache_trk := (d88_cache_trk s)(d := -1), pref_lba := (pref_lba s)(d := -1)\<rparr>)
     in fdd_d88 p d \<longrightarrow> fdd_d88 t d \<and> fdd_img_geom t d = fdd_img_geom p d"
    unfolding s0_def [symmetric] p_def [symmetric] Let_def using td ue by (simp add: r_def)
qed

end

text \<open>What the rest of the firmware can do to the drives: the main loop mounts, unbinds and polls,
  the OSD ejects and inserts.\<close>

datatype fdd_op = Mount nat u32 | Eject nat | Insert nat | Unbind nat | Poll

fun fdd_run :: "'h apf \<Rightarrow> fdd_op \<Rightarrow> ('h, 'z) fdd_st_scheme \<Rightarrow> ('h, 'z) fdd_st_scheme" where
  "fdd_run apf (Mount d n) s = fdd_mount apf d n s"
| "fdd_run apf (Eject d) s = fdd_eject d s"
| "fdd_run apf (Insert d) s = fdd_insert apf d s"
| "fdd_run apf (Unbind d) s = fdd_unbind d s"
| "fdd_run apf Poll s = fdd_poll apf s"

fun op_ok :: "fdd_op \<Rightarrow> bool" where
  "op_ok (Mount d n) = (d < 2)"
| "op_ok _ = True"

lemma fdd_invI: "(\<And>e. e < 2 \<Longrightarrow> drive_ok e s) \<Longrightarrow> fdd_inv s"
  by (simp add: fdd_inv_def)

lemma declared_ok:
  assumes "geom_fits g" "d < 2" "fdd_inv s" "fdd t = declared (d = 1) g wp (fdd s)"
    "fdd_sector_words t = (fdd_sector_words s)(d := if g_1024 g \<noteq> 0 then 256 else 128)"
    "fdd_inserted t = (fdd_inserted s)(d := True)"
  shows "fdd_inv t"
proof (rule fdd_invI)
  fix e :: nat assume e: "e < 2"
  have ok: "drive_ok e s" using assms(3) e by (simp add: fdd_inv_def)
  have de: "(e = 1) = (d = 1) \<longleftrightarrow> e = d" using e assms(2) by auto
  show "drive_ok e t"
    using ok assms(1) de by (auto simp: drive_ok_def assms(4-6) declared_def geom_fits_def)
qed

lemma eject_obs:
  fixes s :: "('h, 'z) fdd_st_scheme" and d :: nat
  assumes "fdd_inv s"
  defines "t \<equiv> fdd_eject d s"
  shows "fdd_inv t" "store_inv t = store_inv s" "fdd_inserted t = (if d < 2 then (fdd_inserted s)(d := False) else fdd_inserted s)"
    "fdd_sectors t = fdd_sectors s" "fdd_frame s t"
proof -
  have "fdd_inv t \<and> store_inv t = store_inv s \<and> fdd_inserted t = (if d < 2 then (fdd_inserted s)(d := False) else fdd_inserted s)
      \<and> fdd_sectors t = fdd_sectors s \<and> fdd_frame s t"
  proof (cases "1 < d \<or> \<not> fdd_inserted s d")
    case True
    then have "(fdd_inserted s)(d := False) = fdd_inserted s \<or> \<not> d < 2" by (auto simp: fun_upd_idem)
    then show ?thesis using True assms by (auto simp: fdd_eject_def)
  next
    case False
    then have d: "d < 2" by simp
    obtain a x where w: "fdd_mgmt_write d FMGMT_PRESENT 0 s = s\<lparr>mgmt_addr := a, mgmt_wdata := x, fdd := fdc_write (d = 1) 0 0 (fdd s)\<rparr>"
      using fdd_mgmt_write_eq [OF d, of FMGMT_PRESENT 0 s] by (auto simp: fmgmt_regs)
    have t: "t = s\<lparr>mgmt_addr := a, mgmt_wdata := x, fdd := fdc_write (d = 1) 0 0 (fdd s),
      fdd_inserted := (fdd_inserted s)(d := False), pref_lba := (pref_lba s)(d := -1)\<rparr>"
      using False by (simp add: t_def fdd_eject_def w)
    have "fdd_inv t"
    proof (rule fdd_invI)
      fix e :: nat assume e: "e < 2"
      have ok: "drive_ok e s" using assms(1) e by (simp add: fdd_inv_def)
      have de: "(e = 1) = (d = 1) \<longleftrightarrow> e = d" using e d by auto
      show "drive_ok e t" using ok de by (auto simp: drive_ok_def t fdc_write_def)
    qed
    moreover have "fdd_frame s t" by (simp add: t fdd_frame_def bram_keeps_refl log_ext_refl book_def)
    ultimately show ?thesis
      using store_inv_frame [of s t] d by (simp add: t)
  qed
  then show "fdd_inv t" "store_inv t = store_inv s" "fdd_inserted t = (if d < 2 then (fdd_inserted s)(d := False) else fdd_inserted s)"
    "fdd_sectors t = fdd_sectors s" "fdd_frame s t"
    by simp_all
qed

lemma mounted_fdd_inv:
  assumes "store_inv s"
  shows "fdd_inv (settings_disk_mounted h s) = fdd_inv s"
  using drive_ok_cong [OF mounted_drives(1) [OF assms]] mounted_store(2) [OF assms] by (simp add: fdd_inv_def)

lemma unbind_obs:
  fixes s :: "('h, 'z) fdd_st_scheme" and d :: nat
  assumes "fdd_inv s" "store_inv s"
  defines "t \<equiv> fdd_unbind d s"
  shows "fdd_inv t" "store_inv t" "d < 2 \<Longrightarrow> \<not> fdd_inserted t d \<and> fdd_sectors t d = 0"
proof -
  define u where "u = (fdd_eject d s)\<lparr>fdd_sectors := (fdd_sectors (fdd_eject d s))(d := 0)\<rparr>"
  have su: "store_inv u" using eject_obs(2) [OF assms(1), of d] assms(2) store_inv_cong [of u "fdd_eject d s"]
    by (simp add: u_def book_def)
  have "fdd_inv u" using eject_obs(1) [OF assms(1), of d] by (simp add: u_def fdd_inv_def drive_ok_def)
  moreover have t: "t = (if 1 < d then s else if d = 0 then settings_disk_mounted 0 u else u)"
    by (simp add: t_def fdd_unbind_def Let_def u_def)
  ultimately show "fdd_inv t" "store_inv t"
    using assms su mounted_store(1) [OF su] mounted_fdd_inv [OF su] by simp_all
  show "\<not> fdd_inserted t d \<and> fdd_sectors t d = 0" if "d < 2"
  proof -
    have "fdd_inserted t = fdd_inserted u \<and> fdd_sectors t = fdd_sectors u"
      using that drivesD [OF mounted_drives(1) [OF su]] by (simp add: t)
    then show ?thesis using that eject_obs(3) [OF assms(1), of d] by (simp add: u_def)
  qed
qed

context dataslot
begin

lemma mount_inv:
  assumes "d < 2" "fdd_inv s" "store_inv s"
  shows "fdd_inv (fdd_mount apf d n s) \<and> store_inv (fdd_mount apf d n s)"
proof -
  from mount_result(1) [OF assms(1,3), of n] obtain g wp where
    "geom_fits g" "fdd (fdd_mount apf d n s) = declared (d = 1) g wp (fdd s)"
    "fdd_sector_words (fdd_mount apf d n s) = (fdd_sector_words s)(d := if g_1024 g \<noteq> 0 then 256 else 128)" by blast
  then have "fdd_inv (fdd_mount apf d n s)"
    by (rule declared_ok [OF _ assms(1,2)]) (rule mount_result(3) [OF assms(1,3)])
  then show ?thesis using mount_result(5) [OF assms(1,3)] by simp
qed

lemma run_inv:
  assumes "op_ok op" "fdd_inv s" "store_inv s"
  shows "fdd_inv (fdd_run apf op s) \<and> store_inv (fdd_run apf op s)"
proof (cases op)
  case (Mount d n)
  then show ?thesis using assms mount_inv by simp
next
  case (Eject d)
  then show ?thesis using assms eject_obs(1,2) [OF assms(2), of d] by simp
next
  case (Insert d)
  then show ?thesis using assms mount_inv [of d s] by (simp add: fdd_insert_def)
next
  case (Unbind d)
  then show ?thesis using assms unbind_obs(1,2) [OF assms(2,3), of d] by simp
next
  case Poll
  have k: "fdd_keeps s (fdd_poll apf s)" by (rule poll_keeps [OF fdd_inv_words [OF assms(2)]])
  then have "drive_ok e (fdd_poll apf s) = drive_ok e s" for e
    by (intro drive_ok_cong) (simp_all add: fdd_keeps_def)
  then show ?thesis
    using assms k store_inv_frame [of s "fdd_poll apf s"] Poll by (simp add: fdd_inv_def fdd_keeps_def)
qed

lemma runs_inv:
  assumes "\<forall>op\<in>set ops. op_ok op" "fdd_inv s" "store_inv s"
  shows "fdd_inv (fold (fdd_run apf) ops s) \<and> store_inv (fold (fdd_run apf) ops s)"
  using assms by (induction ops arbitrary: s) (simp_all add: run_inv)

end

section \<open>The D88 track cache\<close>

lemma lba_split_divmod:
  assumes "spt \<noteq> 0"
  shows "unat (fst (lba_split spt l t)) = unat (t + of_nat (unat l div unat spt))
    \<and> unat (snd (lba_split spt l t)) = unat l mod unat spt"
  using assms
proof (induction spt l t rule: lba_split.induct)
  case (1 spt l t)
  have p: "0 < unat spt" using 1(2) by (simp add: unat_gt_0)
  show ?case
  proof (cases "spt \<le> l")
    case True
    then have u: "unat (l - spt) = unat l - unat spt" "unat spt \<le> unat l" by (simp_all add: unat_sub word_le_nat_alt)
    have dm: "unat l div unat spt = Suc ((unat l - unat spt) div unat spt)" "unat l mod unat spt = (unat l - unat spt) mod unat spt"
      using u(2) p by (simp_all add: le_div_geq le_mod_geq)
    have e: "lba_split spt l t = lba_split spt (l - spt) (t + 1)" using True 1(2) by (subst lba_split.simps) simp
    have "spt \<noteq> 0 \<and> spt \<le> l" using True 1(2) by simp
    from 1(1) [OF this 1(2)] show ?thesis unfolding e dm u(1) by (simp add: algebra_simps)
  next
    case False
    then have "unat l < unat spt" by (simp add: word_le_nat_alt)
    then show ?thesis using False by (subst (1 2) lba_split.simps) simp
  qed
qed

lemma d88_fill_claims:
  assumes "fdd_read_at apf d (0x20 + trk * 4) 4 (s\<lparr>d88_cache_trk := (d88_cache_trk s)(d := -1),
      d88_cache_off := (d88_cache_off s)(d := (\<lambda>i. if i < D88_CACHE_SPT then 0 else d88_cache_off s d i))\<rparr>) = (True, u)"
  shows "d88_cache_trk (snd (d88_fill apf d spt trk s)) d = trk"
  unfolding d88_fill_def Let_def assms by (simp split: prod.split)

text \<open>A fill does not look at the sector asked for, and once it has claimed the track every later
  lookup there is answered without touching the host.\<close>

lemma d88_lookup_cached:
  assumes "d88_offset apf d lba s = (o1, s1)" and "fdd_img_geom s1 d = fdd_img_geom s d"
    and "d88_cache_trk s d \<noteq> fst (lba_split (fdd_img_geom s d 0) lba 0)"
    and "d88_cache_trk s1 d = fst (lba_split (fdd_img_geom s d 0) lba 0)"
    and "fst (lba_split (fdd_img_geom s d 0) lba' 0) = fst (lba_split (fdd_img_geom s d 0) lba 0)"
  shows "d88_offset apf d lba' s1 = (fst (d88_offset apf d lba' s), s1)"
proof -
  define spt where "spt = fdd_img_geom s d 0"
  have ok: "\<not> (spt = 0 \<or> of_nat D88_CACHE_SPT < spt)"
    using assms(1,3,4) by (auto simp: d88_offset_def spt_def)
  define trk where "trk = fst (lba_split spt lba 0)"
  obtain l where l: "lba_split spt lba 0 = (trk, l)" by (metis trk_def prod.collapse)
  obtain l' where l': "lba_split spt lba' 0 = (trk, l')" by (metis assms(5) spt_def trk_def prod.collapse)
  obtain r f where f: "d88_fill apf d spt trk s = (r, f)" by fastforce
  have cold: "d88_cache_trk s d \<noteq> trk" using assms(3) by (simp add: trk_def spt_def)
  have f1: "f = s1" using assms(1) ok cold f by (simp add: d88_offset_def Let_def spt_def [symmetric] l split: if_splits)
  have tag: "d88_cache_trk s1 d = trk" using assms(4) by (simp add: trk_def spt_def)
  have bound: "unat l' < D88_CACHE_SPT"
  proof -
    have "unat l' < unat spt" using lba_split_divmod [of spt lba' 0] ok l' by (simp add: unat_gt_0)
    moreover have "unat spt \<le> 32" using ok by (simp add: D88_CACHE_SPT_def word_less_nat_alt)
    ultimately show ?thesis by (simp add: D88_CACHE_SPT_def)
  qed
  have miss: "d88_cache_off s1 d (unat l') = 0" if "\<not> r"
  proof -
    define s0 where "s0 = s\<lparr>d88_cache_trk := (d88_cache_trk s)(d := -1), d88_cache_off := (d88_cache_off s)(d :=
                  (\<lambda>i. if i < D88_CACHE_SPT then 0 else d88_cache_off s d i))\<rparr>"
    obtain ro u where u: "fdd_read_at apf d (0x20 + trk * 4) 4 s0 = (ro, u)" by fastforce
    have "d88_cache_off u = d88_cache_off s0"
      using u by (auto simp: fdd_read_at_def tds_transfer_def tds_transfer_to_eq split: prod.splits)
    then show ?thesis
      using f that bound unfolding d88_fill_def Let_def s0_def [symmetric] u
      by (auto simp: f1 s0_def bram_port_eqs bram_seek_def split: if_splits)
  qed
  have "fst (d88_offset apf d lba' s) = (if r then d88_cache_off s1 d (unat l') else 0)"
    using ok cold f f1 by (simp add: d88_offset_def Let_def spt_def [symmetric] l')
  moreover have "d88_offset apf d lba' s1 = (d88_cache_off s1 d (unat l'), s1)"
    using ok tag assms(2) by (simp add: d88_offset_def Let_def spt_def [symmetric] l')
  ultimately show ?thesis using miss by simp
qed

end
