(* ===== verification/Fdd_D88.thy ===== *)
theory Fdd_D88
  imports Fdd_Mount Table_Migration
begin

text \<open>
  A D88 image on a host that serves its files: what the probe's two walks of the track table find,
  and the description of the image the mount takes from it.
\<close>

section \<open>The image file\<close>

definition file_word :: "u8 list \<Rightarrow> nat \<Rightarrow> u32" where
  "file_word f k = pack4 (f ! (4 * k)) (f ! (4 * k + 1)) (f ! (4 * k + 2)) (f ! (4 * k + 3))"

text \<open>Entry \<open>i\<close> of the track table, and whether the track is there.\<close>

definition d88_track :: "u8 list \<Rightarrow> nat \<Rightarrow> u32" where
  "d88_track f i = file_word f (8 + i)"

text \<open>A well-formed D88 file mounted with \<open>n\<close> sectors: the first track right behind the header, every
  track inside the file, the size field within one sector of the file's, and 1 to 32 sectors in the
  first track.\<close>

definition is_d88 :: "u8 list \<Rightarrow> u32 \<Rightarrow> bool" where
  "is_d88 f n \<longleftrightarrow> 704 \<le> length f \<and> d88_track f 0 = D88_HDRSIZE
     \<and> (\<forall>i<164. d88_track f i \<noteq> 0 \<longrightarrow> D88_HDRSIZE \<le> d88_track f i \<and> d88_track f i < n * 512 + 512)
     \<and> n * 512 \<le> file_word f 7 + 512 \<and> file_word f 7 \<le> n * 512 + 512
     \<and> file_word f 173 AND 0xFFFF \<noteq> 0 \<and> file_word f 173 AND 0xFFFF \<le> 32"

definition d88_last :: "u8 list \<Rightarrow> nat" where
  "d88_last f = Max {i. i < 120 \<and> d88_track f i \<noteq> 0}"

definition d88_two_sided :: "u8 list \<Rightarrow> bool" where
  "d88_two_sided f \<longleftrightarrow> (\<exists>i<164. d88_track f i \<noteq> 0 \<and> odd i)"

lemma ram_file_word:
  assumes "ram_bytes (m :: 10 word \<Rightarrow> u32) 0 len = take len (drop (4 * q) f)" "4 * i + 4 \<le> len" "4 * q + len \<le> length f"
  shows "m (of_nat i) = file_word f (q + i)"
proof -
  have "byte_of (m (of_nat i)) k = f ! (4 * (q + i) + k)" if "k < 4" for k
  proof -
    have j: "4 * i + k < len" "(4 * i + k) div 4 = i" "(4 * i + k) mod 4 = k" using that assms(2) by auto
    have "ram_bytes m 0 len ! (4 * i + k) = f ! (4 * q + (4 * i + k))"
      unfolding assms(1) using j(1) assms(3) by simp
    then show ?thesis using j by (simp add: algebra_simps)
  qed
  from this [of 0] this [of 1] this [of 2] this [of 3] show ?thesis
    using pack4_byte_of [of "m (of_nat i)"] by (simp add: file_word_def)
qed

section \<open>The walks of the track table\<close>

fun d88_run :: "(nat \<Rightarrow> u32 \<Rightarrow> d88_acc \<Rightarrow> d88_acc option) \<Rightarrow> bram \<Rightarrow> nat list \<Rightarrow> d88_acc \<Rightarrow> d88_acc option" where
  "d88_run f m [] a = Some a"
| "d88_run f m (i # is) a = Option.bind (f i (m (of_nat i)) a) (d88_run f m is)"

lemma d88_run_append: "d88_run f m (is @ js) a = Option.bind (d88_run f m is a) (d88_run f m js)"
  by (induction "is" arbitrary: a) (auto simp: bind_eq_Some_conv split: option.splits bind_splits)

lemma d88_run_Suc:
  "d88_run f m [0..<n] a = Some b \<Longrightarrow> d88_run f m [0..<Suc n] a = f n (m (of_nat n)) b"
  by (cases "f n (m (of_nat n)) b") (simp_all add: d88_run_append)

lemma d88_walk_run:
  "bram_addr s = of_nat i \<Longrightarrow> fst (d88_walk f [i..<n] a s) = d88_run f (bram s) [i..<n] a"
proof (induction "n - i" arbitrary: i a s)
  case 0
  then show ?case by simp
next
  case (Suc k)
  then have u: "[i..<n] = i # [Suc i..<n]" by (simp add: upt_conv_Cons)
  have r: "bram_read s = (bram s (of_nat i), s\<lparr>bram_addr := of_nat (Suc i)\<rparr>)"
    by (simp add: bram_read_def Suc.prems)
  show ?case
  proof (cases "f i (bram s (of_nat i)) a")
    case None
    then show ?thesis unfolding u by (simp add: r)
  next
    case (Some b)
    have "fst (d88_walk f [Suc i..<n] b (s\<lparr>bram_addr := of_nat (Suc i)\<rparr>)) = d88_run f (bram s) [Suc i..<n] b"
      using Suc.hyps(1) [of "Suc i" "s\<lparr>bram_addr := of_nat (Suc i)\<rparr>" b] Suc.hyps(2) by simp
    then show ?thesis unfolding u by (simp add: r Some)
  qed
qed

lemma d88_walk_eq:
  "\<exists>x. d88_walk f [0..<n] a (bram_seek 0 s) = (d88_run f (bram s) [0..<n] a, s\<lparr>bram_addr := x\<rparr>)"
proof -
  have "fst (d88_walk f [0..<n] a (bram_seek 0 s)) = d88_run f (bram (bram_seek 0 s)) [0..<n] a"
    by (rule d88_walk_run) (simp add: bram_seek_def)
  then have "fst (d88_walk f [0..<n] a (bram_seek 0 s)) = d88_run f (bram s) [0..<n] a" by (simp add: bram_seek_def)
  moreover obtain x where "snd (d88_walk f [0..<n] a (bram_seek 0 s)) = s\<lparr>bram_addr := x\<rparr>"
    using d88_walk_shape [of f "[0..<n]" a "bram_seek 0 s"] by (auto simp: bram_seek_def)
  ultimately show ?thesis by (metis prod.collapse)
qed

text \<open>The populated tracks below a bound, one track further.\<close>

lemma last_populated:
  assumes "P (0 :: nat)"
  shows "P k \<Longrightarrow> Max {i. i < Suc k \<and> P i} = k" "\<not> P k \<Longrightarrow> {i. i < Suc k \<and> P i} = {i. i < k \<and> P i}"
  by (rule Max_eqI) (auto simp: less_Suc_eq)

lemma d88_tail_run:
  assumes "\<And>i. i < n \<Longrightarrow> m (of_nat i) \<noteq> 0 \<Longrightarrow> D88_HDRSIZE \<le> m (of_nat i) \<and> m (of_nat i) < file + 512"
  shows "\<exists>b. d88_run (d88_tail_word file) m [0..<n] d88_acc0 = Some b
    \<and> a_odd b = (\<exists>i<n. m (of_nat i) \<noteq> 0 \<and> odd i)"
  using assms
proof (induction n)
  case 0
  then show ?case by (simp add: d88_acc0_def)
next
  case (Suc n)
  then obtain b where b: "d88_run (d88_tail_word file) m [0..<n] d88_acc0 = Some b"
    "a_odd b = (\<exists>i<n. m (of_nat i) \<noteq> 0 \<and> odd i)" by fastforce
  have run: "d88_run (d88_tail_word file) m [0..<Suc n] d88_acc0
      = (if m (of_nat n) \<noteq> 0 then d88_entry file (120 + n) (m (of_nat n)) b else Some b)"
    unfolding d88_run_Suc [OF b(1)] by (simp add: d88_tail_word_def)
  show ?case
    unfolding run using Suc.prems [of n] b(2)
    by (cases "m (of_nat n) = 0") (auto simp: d88_entry_def less_Suc_eq)
qed

lemma d88_head_run:
  assumes "\<And>i. i < k \<Longrightarrow> m (of_nat (8 + i)) \<noteq> 0 \<Longrightarrow> D88_HDRSIZE \<le> m (of_nat (8 + i)) \<and> m (of_nat (8 + i)) < file + 512"
    and "0 < k" "m (of_nat 8) \<noteq> 0"
  shows "\<exists>b. d88_run (d88_head_word file) m [0..<8 + k] a = Some b \<and> a_first b = m (of_nat 8) \<and> a_fd_size b = m (of_nat 7)
    \<and> a_populated b \<noteq> 0 \<and> a_last b = Max {i. i < k \<and> m (of_nat (8 + i)) \<noteq> 0}
    \<and> a_odd b = (a_odd a \<or> (\<exists>i<k. m (of_nat (8 + i)) \<noteq> 0 \<and> odd i))"
  using assms
proof (induction k)
  case 0
  then show ?case by simp
next
  case (Suc k)
  let ?P = "\<lambda>i. m (of_nat (8 + i)) \<noteq> 0"
  have last: "?P k \<Longrightarrow> Max {i. i < Suc k \<and> ?P i} = k" "\<not> ?P k \<Longrightarrow> {i. i < Suc k \<and> ?P i} = {i. i < k \<and> ?P i}"
    using last_populated [of ?P k] Suc.prems(3) by simp_all
  have u: "8 + Suc k = Suc (8 + k)" by simp
  show ?case
  proof (cases "k = 0")
    case True
    have "[0..<8 :: nat] = [0, 1, 2, 3, 4, 5, 6, 7]" by (simp add: upt_rec)
    then have e: "d88_run (d88_head_word file) m [0..<8] a = Some (a\<lparr>a_protect := m 6, a_fd_size := m 7\<rparr>)"
      by (simp add: d88_head_word_def)
    have "D88_HDRSIZE \<le> m 8 \<and> m 8 < file + 512" "m 8 \<noteq> 0" using Suc.prems(1) [of 0] Suc.prems(3) by simp_all
    then have "d88_head_word file 8 (m (of_nat 8)) (a\<lparr>a_protect := m 6, a_fd_size := m 7\<rparr>)
        = Some (a\<lparr>a_protect := m 6, a_fd_size := m 7, a_first := m 8, a_populated := a_populated a + 1,
            a_last := 0\<rparr>)"
      by (simp add: d88_head_word_def d88_entry_def not_less not_le)
    then have run: "d88_run (d88_head_word file) m [0..<8 + Suc k] a
        = Some (a\<lparr>a_protect := m 6, a_fd_size := m 7, a_first := m 8, a_populated := a_populated a + 1, a_last := 0\<rparr>)"
      using d88_run_Suc [OF e] True by simp
    show ?thesis
      unfolding run using last(1) True Suc.prems(3) by simp
  next
    case False
    then obtain b where b: "d88_run (d88_head_word file) m [0..<8 + k] a = Some b" "a_first b = m (of_nat 8)"
      "a_fd_size b = m (of_nat 7)" "a_populated b \<noteq> 0" "a_last b = Max {i. i < k \<and> ?P i}"
      "a_odd b = (a_odd a \<or> (\<exists>i<k. ?P i \<and> odd i))"
      using Suc.IH [OF Suc.prems(1)] Suc.prems(3) by auto
    have w: "d88_head_word file (8 + k) t b = (if t \<noteq> 0 then d88_entry file k t b else Some b)" for t
      using False by (simp add: d88_head_word_def)
    show ?thesis
    proof (cases "?P k")
      case True
      then have "d88_entry file k (m (of_nat (8 + k))) b
          = Some (b\<lparr>a_populated := a_populated b + 1, a_last := k, a_odd := a_odd b \<or> odd k\<rparr>)"
        using Suc.prems(1) [of k] by (simp add: d88_entry_def not_less not_le)
      then show ?thesis
        unfolding u d88_run_Suc [OF b(1)] w using b True last(1) [OF True]
        by (auto simp: less_Suc_eq simp del: of_nat_add)
    next
      case False
      then have "(\<exists>i<Suc k. ?P i \<and> odd i) = (\<exists>i<k. ?P i \<and> odd i)" by (auto simp: less_Suc_eq)
      then show ?thesis
        unfolding u d88_run_Suc [OF b(1)] w using b False last(2) [OF False]
        by (simp del: of_nat_add)
    qed
  qed
qed

section \<open>The probe on a served file\<close>

context prompt_dataslot
begin

lemma read_at_serves:
  assumes "fdd_read_at apf d off len s = (ok, t)" "unat len \<le> 4096"
    and "unat off + unat len \<le> length (slot_file (host s) (fdd_slot d))"
  shows "ok" "ram_bytes (bram t) 0 (unat len) = take (unat len) (drop (unat off) (slot_file (host s) (fdd_slot d)))"
    "slot_file (host t) = slot_file (host s)"
proof -
  have tr: "tds_transfer_to apf (fdd_slot d) off FDD_TDS_READ len FDD_BRIDGE_BASE s = (ok, t)"
    using assms(1) by (simp add: fdd_read_at_def tds_transfer_def)
  show ok: "ok" using transfer_serves [OF tr _ assms(2,3)] by simp
  have w: "(ucast (drop_bit 2 FDD_BRIDGE_BASE) :: 10 word) = 0" by (simp add: FDD_BRIDGE_BASE_def)
  show "ram_bytes (bram t) 0 (unat len) = take (unat len) (drop (unat off) (slot_file (host s) (fdd_slot d)))"
    using read_lands_file [of "fdd_slot d" off len FDD_BRIDGE_BASE s t] tr ok assms(3) by (simp add: w)
  show "slot_file (host t) = slot_file (host s)" by (rule read_keeps_files [OF tr])
qed

text \<open>One read of \<open>4 * k\<close> bytes from word \<open>q\<close> of the file: it succeeds, and the RAM starts with the file's words.\<close>

lemma read_words:
  fixes s :: "('a, 'z) fdd_st_scheme"
  assumes "unat len = 4 * k" "unat off = 4 * q" "k \<le> 128" "4 * (q + k) \<le> length (slot_file (host s) (fdd_slot d))"
  shows "\<exists>t. fdd_read_at apf d off len s = (True, t) \<and> (\<forall>i<k. bram t (of_nat i) = file_word (slot_file (host s) (fdd_slot d)) (q + i))
    \<and> slot_file (host t) = slot_file (host s)"
proof -
  obtain ok t where t: "fdd_read_at apf d off len s = (ok, t)" by fastforce
  note r = read_at_serves [OF t]
  have b: "unat len \<le> 4096" "unat off + unat len \<le> length (slot_file (host s) (fdd_slot d))"
    using assms by simp_all
  have "bram t (of_nat i) = file_word (slot_file (host s) (fdd_slot d)) (q + i)" if "i < k" for i
    by (rule ram_file_word [OF r(2) [OF b, unfolded assms(1,2)]]) (use that assms(4) in simp_all)
  then show ?thesis using t r(1,3) [OF b] by auto
qed

lemma probe_d88_serves:
  fixes s :: "('a, 'z) fdd_st_scheme" and d :: nat
  defines "f \<equiv> slot_file (host s) (fdd_slot d)"
  assumes "is_d88 f n"
  shows "let t = fdd_probe_d88 apf d n s in fdd_d88 t d \<and> fdd_img_geom t d 0 = file_word f 173 AND 0xFFFF
    \<and> fdd_img_geom t d 1 = of_nat (d88_last f div 2 + 1)
    \<and> fdd_img_geom t d 2 = (if d88_two_sided f then 2 else 1)
    \<and> fdd_img_geom t d 3 = (if drop_bit 24 (file_word f 172) AND 0xFF = 3 then 1 else 0)"
proof -
  define s0 where "s0 = s\<lparr>fdd_d88 := (fdd_d88 s)(d := False), fdd_d88_wp := (fdd_d88_wp s)(d := False),
                fdd_base := (fdd_base s)(d := 0),
                fdd_img_geom := (fdd_img_geom s)(d := (fdd_img_geom s d)(0 := 0))\<rparr>"
  have len: "704 \<le> length f" and first: "d88_track f 0 = D88_HDRSIZE" and size: "n * 512 \<le> file_word f 7 + 512" "file_word f 7 \<le> n * 512 + 512"
    and spt: "file_word f 173 AND 0xFFFF \<noteq> 0" "file_word f 173 AND 0xFFFF \<le> 32"
    and tracks: "\<And>i. i < 164 \<Longrightarrow> d88_track f i \<noteq> 0 \<Longrightarrow> D88_HDRSIZE \<le> d88_track f i \<and> d88_track f i < n * 512 + 512"
    using assms(2) by (simp_all add: is_d88_def)
  have f0: "slot_file (host s0) (fdd_slot d) = f" by (simp add: s0_def f_def)
  obtain s1 where 1: "fdd_read_at apf d 0x200 176 s0 = (True, s1)" "\<And>i. i < 44 \<Longrightarrow> bram s1 (of_nat i) = file_word f (128 + i)"
    "slot_file (host s1) (fdd_slot d) = f"
    using read_words [of 176 44 "0x200" 128 s0 d] len f0 by auto
  have t1: "bram s1 (of_nat i) = d88_track f (120 + i)" if "i < 44" for i using 1(2) [OF that] by (simp add: d88_track_def)
  obtain b where b: "d88_run (d88_tail_word (n * 512)) (bram s1) [0..<44] d88_acc0 = Some b"
    "a_odd b = (\<exists>i<44. bram s1 (of_nat i) \<noteq> 0 \<and> odd i)"
    using d88_tail_run [of 44 "bram s1" "n * 512"] t1 tracks by auto
  obtain x where 2: "d88_walk (d88_tail_word (n * 512)) [0..<44] d88_acc0 (bram_seek 0 s1) = (Some b, s1\<lparr>bram_addr := x\<rparr>)"
    using d88_walk_eq [of "d88_tail_word (n * 512)" 44 d88_acc0 s1] b(1) by auto
  obtain s3 where 3: "fdd_read_at apf d 0 512 (s1\<lparr>bram_addr := x\<rparr>) = (True, s3)" "\<And>i. i < 128 \<Longrightarrow> bram s3 (of_nat i) = file_word f i"
    "slot_file (host s3) (fdd_slot d) = f"
    using read_words [of 512 128 0 0 "s1\<lparr>bram_addr := x\<rparr>" d] len 1(3) by auto
  have t3: "bram s3 (of_nat (8 + i)) = d88_track f i" if "i < 120" for i
    using 3(2) [of "8 + i"] that by (simp add: d88_track_def del: of_nat_add)
  have "d88_track f 0 \<noteq> 0" using first by (simp add: fdd_consts)
  then have nz: "bram s3 (of_nat 8) \<noteq> 0" "bram s3 (of_nat 8) = D88_HDRSIZE" using t3 [of 0] first by simp_all
  obtain c where c: "d88_run (d88_head_word (n * 512)) (bram s3) [0..<128] b = Some c" "a_first c = bram s3 (of_nat 8)"
    "a_fd_size c = bram s3 (of_nat 7)" "a_populated c \<noteq> 0" "a_last c = Max {i. i < 120 \<and> bram s3 (of_nat (8 + i)) \<noteq> 0}"
    "a_odd c = (a_odd b \<or> (\<exists>i<120. bram s3 (of_nat (8 + i)) \<noteq> 0 \<and> odd i))"
    using d88_head_run [of 120 "bram s3" "n * 512" b] t3 tracks nz(1) by auto
  obtain y where 4: "d88_walk (d88_head_word (n * 512)) [0..<128] b (bram_seek 0 s3) = (Some c, s3\<lparr>bram_addr := y\<rparr>)"
    using d88_walk_eq [of "d88_head_word (n * 512)" 128 b s3] c(1) by auto
  have last: "a_last c = d88_last f"
    unfolding c(5) d88_last_def using t3 by (intro arg_cong [where f = Max]) auto
  have odd: "a_odd c = d88_two_sided f"
  proof -
    have m1: "(\<exists>i<44. bram s1 (of_nat i) \<noteq> 0 \<and> odd i) = (\<exists>i<164. 120 \<le> i \<and> d88_track f i \<noteq> 0 \<and> odd i)"
    proof
      assume "\<exists>i<44. bram s1 (of_nat i) \<noteq> 0 \<and> odd i"
      then obtain i where i: "i < 44" "bram s1 (of_nat i) \<noteq> 0" "odd i" by blast
      then have "120 + i < 164" "d88_track f (120 + i) \<noteq> 0" "odd (120 + i)" using t1 by auto
      then show "\<exists>i<164. 120 \<le> i \<and> d88_track f i \<noteq> 0 \<and> odd i" by (metis le_add1)
    next
      assume "\<exists>i<164. 120 \<le> i \<and> d88_track f i \<noteq> 0 \<and> odd i"
      then obtain i where i: "i < 164" "120 \<le> i" "d88_track f i \<noteq> 0" "odd i" by blast
      then have "i - 120 < 44" "bram s1 (of_nat (i - 120)) \<noteq> 0" "odd (i - 120)" using t1 [of "i - 120"] by auto
      then show "\<exists>i<44. bram s1 (of_nat i) \<noteq> 0 \<and> odd i" by blast
    qed
    have m2: "(\<exists>i<120. bram s3 (of_nat (8 + i)) \<noteq> 0 \<and> odd i) = (\<exists>i<120. d88_track f i \<noteq> 0 \<and> odd i)"
      using t3 by auto
    have split: "(\<exists>i<164. P i) \<longleftrightarrow> (\<exists>i<164. 120 \<le> i \<and> P i) \<or> (\<exists>i<120. P i)" for P :: "nat \<Rightarrow> bool"
    proof
      assume "\<exists>i<164. P i"
      then obtain i where "i < 164" "P i" by blast
      then show "(\<exists>i<164. 120 \<le> i \<and> P i) \<or> (\<exists>i<120. P i)" by (cases "120 \<le> i") auto
    next
      assume or: "(\<exists>i<164. 120 \<le> i \<and> P i) \<or> (\<exists>i<120. P i)"
      have "i < 164" if "i < 120" for i :: nat using that by simp
      then show "\<exists>i<164. P i" using or by blast
    qed
    show ?thesis
      unfolding c(6) b(2) d88_two_sided_def m1 m2 split [of "\<lambda>i. d88_track f i \<noteq> 0 \<and> odd i"] ..
  qed
  have fds: "a_fd_size c = file_word f 7" using c(3) 3(2) [of 7] by simp
  have cf: "a_first c = D88_HDRSIZE" using c(2) nz(2) by simp
  obtain s5 where 5: "fdd_read_at apf d D88_HDRSIZE D88_SECHDR (s3\<lparr>bram_addr := y\<rparr>) = (True, s5)"
    "\<And>i. i < 4 \<Longrightarrow> bram s5 (of_nat i) = file_word f (172 + i)"
    using read_words [of D88_SECHDR 4 D88_HDRSIZE 172 "s3\<lparr>bram_addr := y\<rparr>" d] len 3(3) by (auto simp: fdd_consts)
  have h: "bram s5 0 = file_word f 172" "bram s5 1 = file_word f 173" using 5(2) [of 0] 5(2) [of 1] by simp_all
  have 6: "collect 4 bram_read (bram_seek 0 s5) = (cells (bram s5) 0 4, s5\<lparr>bram_addr := 4\<rparr>)"
    by (simp add: collect_bram bram_seek_def)
  have "fdd_probe_d88 apf d n s = d88_adopt d c (cells (bram s5) 0 4) (s5\<lparr>bram_addr := 4\<rparr>)"
    unfolding fdd_probe_d88_def Let_def s0_def [symmetric] 1(1) prod.case 2 3(1) option.case 4 cf 5(1) 6
    using c(4) fds size by (simp add: not_less not_le)
  moreover have "\<not> (file_word f 173 AND 0xFFFF = 0 \<or> 32 < file_word f 173 AND 0xFFFF)"
    using spt leD by blast
  ultimately show ?thesis
    unfolding Let_def d88_adopt_def by (simp add: h last odd)
qed

lemma mount_d88:
  fixes s :: "('a, 'z) fdd_st_scheme" and d :: nat
  defines "f \<equiv> slot_file (host s) (fdd_slot d)"
  assumes "d < 2" "store_inv s" "is_d88 f n"
  shows "let t = fdd_mount apf d n s in fdd_d88 t d
    \<and> fdd t = declared (d = 1) (geom 0 (of_nat (d88_last f div 2 + 1)) (file_word f 173 AND 0xFFFF)
        (if d88_two_sided f then 2 else 1) (if drop_bit 24 (file_word f 172) AND 0xFF = 3 then 1 else 0))
        (fdd_d88_wp t d) (fdd s)"
proof -
  define t where "t = fdd_mount apf d n s"
  define u where "u = s\<lparr>d88_cache_trk := (d88_cache_trk s)(d := -1), pref_lba := (pref_lba s)(d := -1)\<rparr>"
  define p where "p = fdd_probe_d88 apf d n u"
  have "slot_file (host u) (fdd_slot d) = f" by (simp add: u_def f_def)
  then have p: "fdd_d88 p d" "fdd_img_geom p d 0 = file_word f 173 AND 0xFFFF"
    "fdd_img_geom p d 1 = of_nat (d88_last f div 2 + 1)" "fdd_img_geom p d 2 = (if d88_two_sided f then 2 else 1)"
    "fdd_img_geom p d 3 = (if drop_bit 24 (file_word f 172) AND 0xFF = 3 then 1 else 0)"
    using probe_d88_serves [of u d n] assms(4) unfolding p_def [symmetric] Let_def by simp_all
  have "fdd_d88 t d \<and> fdd_img_geom t d = fdd_img_geom p d"
    using mount_result(8) [OF assms(2,3), of n] p(1) unfolding u_def [symmetric] p_def [symmetric] t_def [symmetric] Let_def by blast
  moreover have "file_word f 173 AND 0xFFFF \<noteq> 0" using assms(4) by (simp add: is_d88_def)
  ultimately show ?thesis
    using mount_result(7) [OF assms(2,3), of n] p unfolding t_def [symmetric] Let_def by simp
qed

end

lemma d88_last_less: "d88_track f 0 \<noteq> 0 \<Longrightarrow> d88_last f < 120"
proof -
  assume "d88_track f 0 \<noteq> 0"
  then have "d88_last f \<in> {i. i < 120 \<and> d88_track f i \<noteq> 0}"
    unfolding d88_last_def by (intro Max_in) (auto intro: exI [of _ 0])
  then show ?thesis by simp
qed

end
