(* ===== verification/Fdd_Props.thy ===== *)
theory Fdd_Props
  imports Fdd_D88 Settings_Props
begin

text \<open>
  The properties of the floppy service, each with a concrete pair of images it applies to.
\<close>

section \<open>Two raw images to apply them to\<close>

definition fdd_demo :: "u8 list \<Rightarrow> u8 list \<Rightarrow> card fdd_st" where
  "fdd_demo a b = set_st.extend (set_demo (\<lambda>_. 0)\<lparr>host := (\<lambda>_. [])(FDD0_SLOT_ID := a, FDD1_SLOT_ID := b)\<rparr>)
     \<lparr>fdd_sector_words = (\<lambda>_. 128), fdd_base = (\<lambda>_. 0), fdd_img_geom = (\<lambda>_ _. 0), fdd_d88 = (\<lambda>_. False),
      fdd_d88_wp = (\<lambda>_. False), pref_lba = (\<lambda>_. -1), d88_cache_trk = (\<lambda>_. -1), d88_cache_off = (\<lambda>_ _. 0),
      fdd_sectors = (\<lambda>_. 4), fdd_inserted = (\<lambda>_. True), fdd_dbg_seen = 0, fdd_dbg_pushed = 0, fdd_dbg_err = 0,
      fdd_dbg_lba = 0, fdd_dbg_aft = 0, fdd_dbg_gap = 0, gap_polls = 0\<rparr>"

lemma fdd_demo_fields [simp]:
  "host (fdd_demo a b) = (\<lambda>_. [])(FDD0_SLOT_ID := a, FDD1_SLOT_ID := b)" "fdd_sector_words (fdd_demo a b) = (\<lambda>_. 128)"
  "fdd_base (fdd_demo a b) = (\<lambda>_. 0)" "fdd_d88 (fdd_demo a b) = (\<lambda>_. False)" "pref_lba (fdd_demo a b) = (\<lambda>_. -1)"
  "fdd_sectors (fdd_demo a b) = (\<lambda>_. 4)" "fdd_inserted (fdd_demo a b) = (\<lambda>_. True)" "fdd (fdd_demo a b) = fdc_reset"
  "words_ok (fdd_demo a b)"
  by (simp_all add: fdd_demo_def set_demo_def scsi_st.defs set_st.defs key_st.defs scsi_demo_def words_ok_def)

text \<open>The guest asks drive \<open>d\<close> for sector \<open>l\<close>: the request line and register 0 as the controller
  drives them.\<close>

definition guest_asks :: "u32 \<Rightarrow> nat \<Rightarrow> u16 \<Rightarrow> ('h, 'z) fdd_st_scheme \<Rightarrow> ('h, 'z) fdd_st_scheme" where
  "guest_asks q d l s = s\<lparr>fdd_request := (\<lambda>_. q), fdd := (fdd s)\<lparr>fdc_reg0 := (if d = 0 then 0 else 0x8000) OR (l AND 0x7FFF)\<rparr>\<rparr>"

lemma reg0_parts:
  fixes l :: u16 and d :: nat
  assumes "d < 2" "l < 0x8000"
  shows "(if bit ((if d = 0 then 0 else 0x8000) OR (l AND 0x7FFF)) 15 then 1 else 0) = d"
    "(ucast ((if d = 0 then 0 else 0x8000) OR (l AND 0x7FFF)) AND 0x7FFF :: u32) = ucast l"
proof -
  have m: "(0x7FFF :: u16) = mask 15" "(0x7FFF :: u32) = mask 15" by (simp_all add: mask_eq_exp_minus_1)
  have "(0x8000 :: u16) = push_bit 15 1" "(0x8000 :: int) = push_bit 15 1" "(0x8000 :: nat) = push_bit 15 1" by simp_all
  then have b: "bit (0x8000 :: u16) k = (k = 15)" "bit (0x8000 :: int) k = (k = 15)" "bit (0x8000 :: nat) k = (k = 15)" for k
    by (simp_all only: bit_push_bit_iff) (auto simp: bit_simps)
  have "unat (take_bit 15 l) = unat l"
    using assms(2) by (simp add: unsigned_take_bit_eq take_bit_nat_eq_self word_less_nat_alt)
  then have e: "take_bit 15 l = l" by (rule word_unat_eq_iff [THEN iffD2])
  have nb: "\<not> bit l n" if "15 \<le> n" for n
    using that e bit_take_bit_iff [of 15 l n] by simp
  show "(if bit ((if d = 0 then 0 else 0x8000) OR (l AND 0x7FFF)) 15 then 1 else 0) = d"
    using assms(1) nb [of 15] by (auto simp: bit_or_iff bit_and_iff b)
  show "(ucast ((if d = 0 then 0 else 0x8000) OR (l AND 0x7FFF)) AND 0x7FFF :: u32) = ucast l"
  proof (rule bit_word_eqI)
    fix n assume "n < LENGTH(32)"
    then show "bit (ucast ((if d = 0 then 0 else 0x8000) OR (l AND 0x7FFF)) AND 0x7FFF :: u32) n = bit (ucast l :: u32) n"
      using nb [of n] unfolding m
      by (cases "n < 15") (simp_all add: bit_or_iff bit_and_iff b bit_ucast_iff bit_mask_iff)
  qed
qed

lemma guest_asks_obs:
  "drives (guest_asks q d l s) = drives s" "host (guest_asks q d l s) = host s" "bram (guest_asks q d l s) = bram s"
  "pref_lba (guest_asks q d l s) = pref_lba s" "fdd_request (guest_asks q d l s) n = q"
  "words_ok (guest_asks q d l s) = words_ok s" "fdd_d88 (guest_asks q d l s) = fdd_d88 s"
  "fdc_pushed (fdd (guest_asks q d l s)) = fdc_pushed (fdd s)" "fdc_popped (fdd (guest_asks q d l s)) = fdc_popped (fdd s)"
  "image_sector F e k (guest_asks q d l s) = image_sector F e k s" "sector_in F e k (guest_asks q d l s) = sector_in F e k s"
  "pref_ok file e (guest_asks q d l s) = pref_ok file e s"
  "fdd_bytes e (guest_asks q d l s) = fdd_bytes e s" "fdd_base (guest_asks q d l s) = fdd_base s"
  by (simp_all add: guest_asks_def drives_def words_ok_def image_sector_def sector_in_def fdd_bytes_def pref_ok_def)

lemma guest_asks_req:
  assumes "d < 2" "l < 0x8000"
  shows "req_drive (guest_asks q d l s) = d" "req_lba (guest_asks q d l s) = ucast l"
  using reg0_parts [OF assms] by (simp_all add: guest_asks_def req_drive_def req_lba_def)

section \<open>What a poll leaves alone\<close>

text \<open>C22: Whatever the controller asks, and whatever the host answers, one poll of the floppy
  service leaves the settings window of the bridge RAM, the settings and key bindings, the SCSI
  and OPNA windows, the media registers, the drives' mount state and the write-only registers as
  they were, and addresses no dataslot but the two floppy slots.\<close>

theorem fdd_poll_confined:
  assumes "dataslot apf slot_file" and "words_ok s"
  shows "let t = fdd_poll apf s in
    (\<forall>a. 128 \<le> unat a \<and> unat a < 256 \<longrightarrow> bram t a = bram s a)
    \<and> set_value t = set_value s \<and> dirty t = dirty s \<and> bind_code t = bind_code s
    \<and> scsi t = scsi s \<and> opna t = opna s \<and> outs t = outs s
    \<and> media (fdd t) = media (fdd s) \<and> drives t = drives s
    \<and> (\<exists>L. tds_log t = tds_log s @ L \<and> (\<forall>rq\<in>set L. rq_slot rq = FDD0_SLOT_ID \<or> rq_slot rq = FDD1_SLOT_ID))"
proof -
  have k: "fdd_keeps s (fdd_poll apf s)" by (rule dataslot.poll_keeps [OF assms])
  then have b: "book (fdd_poll apf s) = book s" by (simp add: fdd_keeps_def fdd_frame_def)
  show ?thesis
    using k bookD [OF b] by (simp add: Let_def fdd_keeps_def fdd_frame_def bram_keeps_def in_window_def log_ext_def floppy_rq_def)
qed

theorem fdd_poll_confined_witness:
  "drives (fdd_poll card_apf (guest_asks 2 1 3 (fdd_demo [] (replicate 100 7))))
     = drives (guest_asks 2 1 3 (fdd_demo [] (replicate 100 7)))"
  using fdd_poll_confined [OF card.dataslot_axioms, of "guest_asks 2 1 3 (fdd_demo [] (replicate 100 7))"]
  by (simp add: Let_def guest_asks_obs)

section \<open>Reading\<close>

text \<open>C20: A run of sector reads from one drive holding a raw image, on a host that serves what
  lies inside its files, streams exactly the image's bytes into the controller, sector after
  sector in the order asked, whether a sector comes from the card or from the read-ahead buffer;
  the image is not changed.\<close>

theorem fdd_reads_stream:
  assumes "prompt_dataslot apf slot_file" and "words_ok s" and "d < 2" and "\<not> fdd_d88 s d"
    and "pref_ok slot_file d s" and "\<forall>l\<in>set ls. l < 0x8000 \<and> sector_in (slot_file (host s)) d (ucast l) s"
  shows "let t = fold (\<lambda>l s. fdd_poll apf (guest_asks FDD_REQ_READ d l s)) ls s in
    fdc_pushed (fdd t) = fdc_pushed (fdd s) @ concat (map (\<lambda>l. image_sector (slot_file (host s)) d (ucast l) s) ls)
    \<and> slot_file (host t) = slot_file (host s)"
  using assms(2,4,5,6)
proof (induction ls arbitrary: s)
  case Nil
  then show ?case by simp
next
  case (Cons l ls)
  let ?g = "guest_asks FDD_REQ_READ d l s"
  let ?t = "fdd_poll apf ?g"
  have rq: "req_drive ?g = d" "req_lba ?g = ucast l" "fdd_request ?g 0 AND FDD_REQ_READ \<noteq> 0"
    using Cons.prems(4) by (simp_all add: guest_asks_req [OF assms(3)] guest_asks_obs FDD_REQ_READ_def)
  have "\<not> fdd_d88 ?g (req_drive ?g)" "words_ok ?g" "pref_ok slot_file (req_drive ?g) ?g"
    "sector_in (slot_file (host ?g)) (req_drive ?g) (req_lba ?g) ?g"
    using Cons.prems by (simp_all add: rq guest_asks_obs)
  note step = prompt_dataslot.poll_reads [OF assms(1) rq(3) this, unfolded rq guest_asks_obs]
  have c: "sector_in F d k ?t = sector_in F d k s" "image_sector F d k ?t = image_sector F d k s" for F k
    using sector_cong [OF step(3)] by simp_all
  have "words_ok ?t" "\<not> fdd_d88 ?t d"
    using drivesD [OF step(3)] Cons.prems(1,2) by (simp_all add: words_ok_def)
  then have "let t = fold (\<lambda>l s. fdd_poll apf (guest_asks FDD_REQ_READ d l s)) ls ?t in
    fdc_pushed (fdd t) = fdc_pushed (fdd ?t) @ concat (map (\<lambda>l. image_sector (slot_file (host ?t)) d (ucast l) ?t) ls)
    \<and> slot_file (host t) = slot_file (host ?t)"
    by (rule Cons.IH) (use step(4) Cons.prems(4) in \<open>simp_all add: c step(2)\<close>)
  then show ?case using step(1,2) by (simp add: Let_def c)
qed

lemma demo_image: "d < 2 \<Longrightarrow> image_sector (host (fdd_demo a b)) d k (fdd_demo a b)
    = take 512 (drop (unat k * 512) (if d = 0 then a else b))"
  and demo_inside: "d < 2 \<Longrightarrow> length (if d = 0 then a else b) < 2 ^ 32 \<Longrightarrow>
    sector_in (host (fdd_demo a b)) d k (fdd_demo a b) = ((unat k + 1) * 512 \<le> length (if d = 0 then a else b))"
  and demo_pref: "pref_ok (\<lambda>h. h) d (fdd_demo a b)"
  by (auto simp: image_sector_def sector_in_def fdd_bytes_def fdd_slot_def FDD0_SLOT_ID_def FDD1_SLOT_ID_def pref_ok_def)

theorem fdd_reads_stream_witness:
  "fdc_pushed (fdd (fold (\<lambda>l s. fdd_poll card_apf (guest_asks FDD_REQ_READ 1 l s)) [0, 1, 3]
      (fdd_demo [] (replicate 1024 1 @ replicate 1024 2))))
    = replicate 512 1 @ replicate 512 1 @ replicate 512 2"
proof -
  let ?b = "replicate 1024 1 @ replicate 1024 2 :: u8 list"
  have "\<forall>l\<in>set [0, 1, 3]. l < 0x8000 \<and> sector_in (host (fdd_demo [] ?b)) 1 (ucast (l :: u16)) (fdd_demo [] ?b)"
    unfolding set_simps ball_simps by (intro conjI; (subst demo_inside)?; simp)
  from fdd_reads_stream [OF prompt_card.prompt_dataslot_axioms fdd_demo_fields(9) _ _ demo_pref this]
  show ?thesis by (simp add: demo_image Let_def fdc_reset_def del: fdd_demo_fields(1))
qed

text \<open>C27: The read-ahead buffer is shared by both drives while its tag is kept per drive: reading
  sector \<open>l\<close> of drive A, then any sector of drive B, then sector \<open>l + 1\<close> of drive A, streams drive
  B's staged sector to the guest in place of drive A's.\<close>

theorem fdd_prefetch_crosses:
  assumes "prompt_dataslot apf slot_file" and "words_ok s" and "\<not> fdd_d88 s 0" "\<not> fdd_d88 s 1"
    and "pref_lba s 0 = -1" "pref_lba s 1 = -1" and "fdd_base s 0 = 0" "fdd_base s 1 = 0"
    and "fdd_sector_words s 0 = 128" "fdd_sector_words s 1 = 128"
    and "l < 0x7FFF" "k < 0x7FFF"
    and "sector_in (slot_file (host s)) 0 (ucast l) s" "sector_in (slot_file (host s)) 0 (ucast l + 1) s"
    and "sector_in (slot_file (host s)) 1 (ucast k) s" "sector_in (slot_file (host s)) 1 (ucast k + 1) s"
    and "(ucast l + 1) * 512 < fdd_sectors s 0 * 512" "(ucast k + 1) * 512 < fdd_sectors s 1 * 512"
  shows "let a = fdd_poll apf (guest_asks FDD_REQ_READ 0 l s);
             b = fdd_poll apf (guest_asks FDD_REQ_READ 1 k a)
    in fdc_pushed (fdd (fdd_poll apf (guest_asks FDD_REQ_READ 0 (l + 1) b)))
      = fdc_pushed (fdd b) @ image_sector (slot_file (host s)) 1 (ucast k + 1) s"
proof -
  define ga where "ga = guest_asks FDD_REQ_READ 0 l s"
  define a where "a = fdd_poll apf ga"
  define gb where "gb = guest_asks FDD_REQ_READ 1 k a"
  define b where "b = fdd_poll apf gb"
  define gc where "gc = guest_asks FDD_REQ_READ 0 (l + 1) b"
  have lt: "l < 0x8000" "k < 0x8000" using assms(11,12) by (auto elim: less_trans)
  have l1: "unat (l + 1) = unat l + 1" "unat (k + 1) = unat k + 1"
    using assms(11,12) unat_bounds(2) by (simp_all add: unat_word_ariths word_less_nat_alt)
  have up: "ucast (l + 1) = (ucast l + 1 :: u32)"
    by (rule word_unat_eq_iff [THEN iffD2])
      (use assms(11) l1 in \<open>simp add: unat_word_ariths unat_ucast_up word_less_nat_alt\<close>)
  have l18: "l + 1 < 0x8000" using assms(11) l1 by (simp add: word_less_nat_alt)
  have nz: "(ucast x + 1) * 512 \<noteq> (0 :: u32)" if "x < 0x7FFF" for x :: u16
  proof -
    have "unat ((ucast x + 1) * 512 :: u32) = (unat x + 1) * 512"
      using that by (simp add: unat_word_ariths unat_ucast_up word_less_nat_alt)
    then show ?thesis by (metis unat_0 mult_eq_0_iff add_is_0 zero_neq_numeral zero_neq_one)
  qed
  have ra: "req_drive ga = 0" "req_lba ga = ucast l" "fdd_request ga 0 AND FDD_REQ_READ \<noteq> 0"
    using lt by (simp_all add: ga_def guest_asks_req guest_asks_obs FDD_REQ_READ_def)
  have B: "fdd_bytes 0 s = 512" "fdd_bytes 1 s = 512" using assms(9,10) by (simp_all add: fdd_bytes_def)
  have pa: "\<not> fdd_d88 ga (req_drive ga)" "words_ok ga" "pref_ok slot_file (req_drive ga) ga"
    "sector_in (slot_file (host ga)) (req_drive ga) (req_lba ga) ga"
    using assms by (simp_all add: ra) (simp_all add: ga_def guest_asks_obs pref_ok_def)
  note polla = prompt_dataslot.poll_reads [OF assms(1) ra(3) pa, folded a_def]
  have da: "drives a = drives s" using polla(3) by (simp add: ga_def guest_asks_obs)
  have ha: "slot_file (host a) = slot_file (host s)" using polla(2) by (simp add: ga_def guest_asks_obs)
  have sa: "sector_in (slot_file (host ga)) (req_drive ga) (req_lba ga + 1) ga"
    "(req_lba ga + 1) * fdd_bytes (req_drive ga) ga < fdd_sectors ga (req_drive ga) * 512"
    "fdd_base ga (req_drive ga) + (req_lba ga + 1) * fdd_bytes (req_drive ga) ga \<noteq> 0"
    using assms B nz [OF assms(11)] by (simp_all add: ra, simp_all add: ga_def guest_asks_obs, simp_all add: guest_asks_def)
  note stagea = prompt_dataslot.poll_stages [OF assms(1) ra(3) pa sa, folded a_def, unfolded ra]
  have ca: "sector_in F e q a = sector_in F e q s" "image_sector F e q a = image_sector F e q s" "fdd_bytes e a = fdd_bytes e s" for F e q
    using sector_cong [OF da] by simp_all
  note dsa = drivesD [OF da]
  have wa: "words_ok a" using dsa assms(2) by (simp add: words_ok_def)
  have rb: "req_drive gb = 1" "req_lba gb = ucast k" "fdd_request gb 0 AND FDD_REQ_READ \<noteq> 0"
    using lt by (simp_all add: gb_def guest_asks_req guest_asks_obs FDD_REQ_READ_def)
  have "pref_lba a 1 = -1" using stagea(2) [of 1] assms(6) by (simp add: ga_def guest_asks_obs)
  then have pb: "\<not> fdd_d88 gb (req_drive gb)" "words_ok gb" "pref_ok slot_file (req_drive gb) gb"
    "sector_in (slot_file (host gb)) (req_drive gb) (req_lba gb) gb"
    using assms dsa wa by (simp_all add: rb) (simp_all add: gb_def guest_asks_obs pref_ok_def ca ha)
  have sb: "sector_in (slot_file (host gb)) (req_drive gb) (req_lba gb + 1) gb"
    "(req_lba gb + 1) * fdd_bytes (req_drive gb) gb < fdd_sectors gb (req_drive gb) * 512"
    "fdd_base gb (req_drive gb) + (req_lba gb + 1) * fdd_bytes (req_drive gb) gb \<noteq> 0"
    using assms B nz [OF assms(12)] dsa by (simp_all add: rb, simp_all add: gb_def guest_asks_obs ca ha, simp_all add: guest_asks_def)
  note pollb = prompt_dataslot.poll_reads [OF assms(1) rb(3) pb, folded b_def]
  note stageb = prompt_dataslot.poll_stages [OF assms(1) rb(3) pb sb, folded b_def, unfolded rb]
  have db: "drives b = drives s" using pollb(3) da by (simp add: gb_def guest_asks_obs)
  note dsb = drivesD [OF db]
  have wb: "words_ok b" using dsb assms(2) by (simp add: words_ok_def)
  have tag: "pref_lba b 0 = ucast l + 1" using stageb(2) [of 0] stagea(1) by (simp add: gb_def guest_asks_obs)
  have buf: "ram_bytes (bram b) (512 :: 10 word) 512 = image_sector (slot_file (host s)) 1 (ucast k + 1) s"
    using stageb(3) B by (simp add: gb_def guest_asks_obs ca ha)
  have rc: "req_drive gc = 0" "req_lba gc = ucast l + 1" "fdd_request gc 0 AND FDD_REQ_READ \<noteq> 0"
    using l18 up by (simp_all add: gc_def guest_asks_req guest_asks_obs FDD_REQ_READ_def)
  have pc: "\<not> fdd_d88 gc (req_drive gc)" "words_ok gc" "pref_lba gc (req_drive gc) = req_lba gc"
    using assms dsb tag wb by (simp_all add: rc) (simp_all add: gc_def guest_asks_obs)
  have "dataslot apf slot_file" using assms(1) by (rule prompt_dataslot.axioms(1))
  from poll_hit [OF rc(3) pc this, unfolded rc]
  have "fdc_pushed (fdd (fdd_poll apf gc)) = fdc_pushed (fdd b) @ image_sector (slot_file (host s)) 1 (ucast k + 1) s"
    using buf B sector_cong [OF db, of _ 0] by (simp add: gc_def guest_asks_obs)
  then show ?thesis unfolding Let_def gc_def b_def gb_def a_def ga_def .
qed

theorem fdd_prefetch_crosses_witness:
  "let a = fdd_poll card_apf (guest_asks FDD_REQ_READ 0 0 (fdd_demo (replicate 2048 1) (replicate 2048 2)));
       b = fdd_poll card_apf (guest_asks FDD_REQ_READ 1 0 a)
   in fdc_pushed (fdd (fdd_poll card_apf (guest_asks FDD_REQ_READ 0 1 b))) = fdc_pushed (fdd b) @ replicate 512 2"
proof -
  let ?s = "fdd_demo (replicate 2048 1) (replicate 2048 2)"
  have i: "sector_in (host ?s) 0 0 ?s" "sector_in (host ?s) 0 1 ?s" "sector_in (host ?s) 1 0 ?s" "sector_in (host ?s) 1 1 ?s"
    by (subst demo_inside; simp)+
  have "image_sector (host ?s) 1 1 ?s = replicate 512 2" by (subst demo_image) simp_all
  then show ?thesis
    using fdd_prefetch_crosses [OF prompt_card.prompt_dataslot_axioms, of ?s 0 0] i
    by (simp add: Let_def del: fdd_demo_fields(1))
qed

section \<open>Writing\<close>

text \<open>C21: A sector write to a raw image, on a host that serves what lies inside its files,
  replaces exactly that sector of the drive's own image by the bytes the controller queued,
  in their order, takes no more bytes than the sector has, and drops the drive's read-ahead.\<close>

theorem fdd_write_serves:
  assumes "prompt_dataslot apf slot_file" and "words_ok s" and "d < 2" and "\<not> fdd_d88 s d" and "l < 0x8000"
    and "sector_in (slot_file (host s)) d (ucast l) s"
  shows "let t = fdd_poll apf (guest_asks FDD_REQ_WRITE d l s); B = unat (fdd_bytes d s) in
    slot_file (host t) = (slot_file (host s))(fdd_slot d :=
      overwrite (slot_file (host s) (fdd_slot d)) (unat (fdd_base s d) + unat l * B) (map (fdc_popped (fdd s)) [0..<B]))
    \<and> fdc_popped (fdd t) = (\<lambda>k. fdc_popped (fdd s) (k + B)) \<and> fdc_pushed (fdd t) = fdc_pushed (fdd s)
    \<and> pref_lba t = (pref_lba s)(d := -1)"
proof -
  let ?g = "guest_asks FDD_REQ_WRITE d l s"
  have r: "req_drive ?g = d" "req_lba ?g = ucast l" "fdd_request ?g 0 AND FDD_REQ_READ = 0"
    "fdd_request ?g 0 AND FDD_REQ_WRITE \<noteq> 0"
    using assms(3,5) by (simp_all add: guest_asks_req guest_asks_obs FDD_REQ_WRITE_def FDD_REQ_READ_def)
  have p: "\<not> fdd_d88 ?g (req_drive ?g)" "words_ok ?g" "sector_in (slot_file (host ?g)) (req_drive ?g) (req_lba ?g) ?g"
    using assms by (simp_all add: r guest_asks_obs)
  show ?thesis
    using prompt_dataslot.poll_writes [OF assms(1) r(3,4) p, unfolded r]
    by (simp add: Let_def guest_asks_obs unat_ucast_up)
qed

theorem fdd_write_serves_witness:
  "host (fdd_poll card_apf (guest_asks FDD_REQ_WRITE 0 1 (fdd_demo (replicate 1024 9) []))) FDD0_SLOT_ID
     = replicate 512 9 @ replicate 512 0"
proof -
  let ?s = "fdd_demo (replicate 1024 9) []"
  have i: "sector_in (host ?s) 0 (ucast (1 :: u16)) ?s" by (subst demo_inside) simp_all
  have o: "overwrite (replicate 1024 9) 512 (map (\<lambda>_. 0) [0..<512]) = replicate 512 9 @ replicate 512 (0 :: u8)"
    by (simp add: overwrite_def map_replicate_const)
  have ne: "FDD0_SLOT_ID \<noteq> FDD1_SLOT_ID" by (simp add: FDD0_SLOT_ID_def FDD1_SLOT_ID_def)
  show ?thesis
    using fdd_write_serves [OF prompt_card.prompt_dataslot_axioms, of ?s 0 1] i
    by (simp add: Let_def fdd_bytes_def fdd_slot_def fdc_reset_def o [simplified] ne)
qed

section \<open>Mounting\<close>

text \<open>C24: However malformed the header of a mounted image is, the controller ends up with a medium
  in the drive whose geometry its registers hold without truncation: at least one cylinder, sector
  and head, a total that is their product, and a sector length that is the one the sector movers
  use from then on; the other drive's registers, and the remembered image sizes of other drives,
  are untouched.  An image taken for a D88 is never given more than 60 cylinders, nor more sectors
  per track than the 32 the lookup cache has room for.\<close>

theorem fdd_mount_geometry:
  assumes "dataslot apf slot_file" and "d < 2" and "store_inv s"
  shows "let t = fdd_mount apf d n s; b = (d = 1); m = fdd t in
    media_present m b
    \<and> 1 \<le> unat (media_cylinders m b) \<and> 1 \<le> unat (media_sectors_per_track m b) \<and> 1 \<le> unat (media_heads m b)
    \<and> unat (media_sector_count m b)
        = unat (media_cylinders m b) * unat (media_sectors_per_track m b) * unat (media_heads m b)
    \<and> fdd_sector_words t d = (if media_is_1024 m b then 256 else 128)
    \<and> (media_present m (\<not> b), media_cylinders m (\<not> b), media_sector_count m (\<not> b))
        = (media_present (fdd s) (\<not> b), media_cylinders (fdd s) (\<not> b), media_sector_count (fdd s) (\<not> b))
    \<and> fdd_inserted t d \<and> fdd_sectors t = (fdd_sectors s)(d := n)
    \<and> (fdd_d88 t d \<longrightarrow> unat (media_cylinders m b) \<le> 60 \<and> unat (media_sectors_per_track m b) \<le> D88_CACHE_SPT)"
proof -
  define t where "t = fdd_mount apf d n s"
  note res = dataslot.mount_result [OF assms, of n, folded t_def]
  from res(1) obtain g wp where g: "geom_fits g" "fdd t = declared (d = 1) g wp (fdd s)"
    "fdd_sector_words t = (fdd_sector_words s)(d := if g_1024 g \<noteq> 0 then 256 else 128)" by blast
  have u: "unat (ucast (g_cyls g) :: u8) = unat (g_cyls g)" "unat (ucast (g_spt g) :: u8) = unat (g_spt g)"
    "unat (ucast (g_heads g) :: 2 word) = unat (g_heads g)" "1 \<le> unat (g_heads g)" "unat (g_heads g) \<le> 2"
    using g(1) by (auto simp: geom_fits_def unsigned_ucast_eq take_bit_nat_eq_self)
  have "unat (g_cyls g) * unat (g_spt g) \<le> 127 * 255"
    by (rule mult_le_mono) (use g(1) in \<open>simp_all add: geom_fits_def\<close>)
  then have p: "unat (g_cyls g) * unat (g_spt g) * unat (g_heads g) \<le> 127 * 255 * 2"
    by (rule mult_le_mono) (rule u(5))
  then have tot: "unat (ucast (g_cyls g * g_spt g * g_heads g) :: u16) = unat (g_cyls g) * unat (g_spt g) * unat (g_heads g)"
    using \<open>unat (g_cyls g) * unat (g_spt g) \<le> 127 * 255\<close>
    by (simp add: unsigned_ucast_eq unat_word_ariths take_bit_nat_eq_self)
  have k: "bit (g_1024 g) 0 = (g_1024 g \<noteq> 0)" using g(1) by (auto simp: geom_fits_def)
  have d88: "unat (g_cyls g) \<le> 60 \<and> unat (g_spt g) \<le> D88_CACHE_SPT" if "fdd_d88 t d"
  proof -
    have i: "fdd_img_geom t d 0 \<noteq> 0" "unat (fdd_img_geom t d 0) \<le> 32" "unat (fdd_img_geom t d 1) \<le> 60"
      using res(6) [OF that] by auto
    have "(ucast (g_cyls g) :: u8) = ucast (fdd_img_geom t d 1)" "(ucast (g_spt g) :: u8) = ucast (fdd_img_geom t d 0)"
      using arg_cong [OF trans [OF g(2) [symmetric] res(7) [OF i(1)]], where f = "\<lambda>m. (media_cylinders m (d = 1), media_sectors_per_track m (d = 1))"]
      by (simp_all add: declared_def geom_def)
    then have "unat (g_cyls g) = unat (ucast (fdd_img_geom t d 1) :: u8)" "unat (g_spt g) = unat (ucast (fdd_img_geom t d 0) :: u8)"
      using u(1,2) by simp_all
    then show ?thesis using i(2,3) by (simp add: unsigned_ucast_eq take_bit_nat_eq_self D88_CACHE_SPT_def)
  qed
  show ?thesis
    using u tot k g(1) res(2,3) d88 unfolding Let_def t_def [symmetric] g
    by (simp add: declared_def geom_fits_def)
qed

lemma fdd_demo_store: "store_inv (fdd_demo a b)"
proof -
  have "options_ok (set_value (fdd_demo a b))" "options_ok (settings_default (fdd_demo a b))"
    using compiled_options set_count_pos
    by (simp_all add: fdd_demo_def set_st.defs set_demo_def scsi_st.defs key_st.defs scsi_demo_def options_ok_def)
  then show ?thesis
    by (simp add: store_inv_def slot_inv_def fdd_demo_def set_st.defs set_demo_def scsi_st.defs key_st.defs
        scsi_demo_def layout_simps)
qed

theorem fdd_mount_geometry_witness:
  "fdd_inserted (fdd_mount card_apf 1 2464 (fdd_demo [] (replicate 4096 0xFF))) 1"
  using fdd_mount_geometry [OF card.dataslot_axioms _ fdd_demo_store [of "[]" "replicate 4096 0xFF"],
      where d = 1 and n = 2464]
  by (simp add: Let_def)

text \<open>C23: In every run of mounts, ejects, inserts, unbinds and polls, in any order and with any
  requests and host answers, the controller is told a drive holds a medium exactly when the drive
  slot is loaded, it is told the sector length the movers use, and the settings store keeps its
  invariant although every mount and unbind of drive A switches its profile.\<close>

theorem fdd_drives_invariant:
  assumes "dataslot apf slot_file" and "\<forall>op\<in>set ops. op_ok op" and "fdd_inv s" and "store_inv s"
  shows "fdd_inv (fold (fdd_run apf) ops s) \<and> store_inv (fold (fdd_run apf) ops s)"
  by (rule dataslot.runs_inv [OF assms])

theorem fdd_drives_invariant_witness:
  "fdd_inv (fold (fdd_run card_apf) [Mount 0 1440, Mount 1 2880, Poll, Eject 0, Insert 0, Unbind 1]
     (fdd_demo [] []\<lparr>fdd_inserted := (\<lambda>_. False)\<rparr>))"
proof -
  let ?s = "fdd_demo [] []\<lparr>fdd_inserted := (\<lambda>_. False)\<rparr>"
  have "store_inv ?s = store_inv (fdd_demo [] [])" by (rule store_inv_cong) (simp_all add: book_def)
  then have "fdd_inv ?s" "store_inv ?s"
    using fdd_demo_store by (simp_all add: fdd_inv_def drive_ok_def fdc_reset_def)
  from fdd_drives_invariant [OF card.dataslot_axioms _ this,
      where ops = "[Mount 0 1440, Mount 1 2880, Poll, Eject 0, Insert 0, Unbind 1]"]
  show ?thesis by simp
qed

text \<open>C26: Mounting a well-formed D88 image from a host that serves it declares to the controller the
  sectors of the image's first track, one or two heads as no or some odd track is there, the sector
  length its first sector header names, and as cylinders half the highest track there is below 120, plus
  one: at most 60, whatever tracks 120 to 163 hold, because the pass over tracks 0 to 119 runs after
  the pass over the others and overwrites the highest track seen.  A 77- or 80-cylinder disk is
  declared short.\<close>

theorem fdd_d88_cylinders:
  assumes "prompt_dataslot apf slot_file" and "d < 2" and "store_inv s"
    and "f = slot_file (host s) (fdd_slot d)" and "is_d88 f n"
  shows "let t = fdd_mount apf d n s; m = fdd t; b = (d = 1) in
    fdd_d88 t d \<and> unat (media_cylinders m b) = d88_last f div 2 + 1 \<and> unat (media_cylinders m b) \<le> 60
    \<and> unat (media_sectors_per_track m b) = unat (file_word f 173 AND 0xFFFF)
    \<and> unat (media_heads m b) = (if d88_two_sided f then 2 else 1)
    \<and> media_is_1024 m b = (drop_bit 24 (file_word f 172) AND 0xFF = 3)"
proof -
  note r = prompt_dataslot.mount_d88 [OF assms(1-3) assms(5) [unfolded assms(4)], folded assms(4)]
  have first: "d88_track f 0 = D88_HDRSIZE" and spt: "file_word f 173 AND 0xFFFF \<le> 32" using assms(5) by (simp_all add: is_d88_def)
  then have l: "d88_last f < 120" by (intro d88_last_less) (simp add: D88_HDRSIZE_def D88_TRACKS_def)
  then have "unat (of_nat (d88_last f div 2 + 1) :: u32) = d88_last f div 2 + 1"
    by (simp add: unat_of_nat del: of_nat_add of_nat_Suc)
  then have c: "unat (ucast (of_nat (d88_last f div 2 + 1) :: u32) :: u8) = d88_last f div 2 + 1"
    using l by (simp add: unsigned_ucast_eq take_bit_nat_eq_self del: of_nat_add of_nat_Suc)
  have "unat (file_word f 173 AND 0xFFFF) \<le> 32" using spt by (simp add: word_le_nat_alt)
  then have k: "unat (ucast (file_word f 173 AND 0xFFFF) :: u8) = unat (file_word f 173 AND 0xFFFF)"
    by (simp add: unsigned_ucast_eq take_bit_nat_eq_self)
  show ?thesis
    using r c k l by (simp add: Let_def declared_def geom_def del: of_nat_add of_nat_Suc)
qed

text \<open>A D88 image of 80 cylinders: 160 tracks in the table, all at the one track the file holds, whose
  first header names 16 sectors of 512 bytes.\<close>

definition d88_disk :: "u8 list" where
  "d88_disk = map (\<lambda>k. if k = 29 then 4 else if 32 \<le> k \<and> k < 672 \<and> k mod 4 = 0 then 0xB0
     else if 32 \<le> k \<and> k < 672 \<and> k mod 4 = 1 then 2 else if k = 691 then 2 else if k = 692 then 16 else 0) [0..<1024]"

lemma d88_disk_nth: "k < 1024 \<Longrightarrow> d88_disk ! k = (if k = 29 then 4 else if 32 \<le> k \<and> k < 672 \<and> k mod 4 = 0 then 0xB0
     else if 32 \<le> k \<and> k < 672 \<and> k mod 4 = 1 then 2 else if k = 691 then 2 else if k = 692 then 16 else 0)"
  by (simp add: d88_disk_def)

lemma d88_disk_track: "i < 164 \<Longrightarrow> d88_track d88_disk i = (if i < 160 then 0x2B0 else 0)"
proof -
  assume i: "i < 164"
  have "(4 * (8 + i) + k) mod 4 = k" if "k < 4" for k using that by presburger
  from this [of 0] this [of 1] this [of 2] this [of 3] show ?thesis
    using i unfolding d88_track_def file_word_def by (auto simp: d88_disk_nth pack4_def)
qed

lemma d88_disk_ok: "is_d88 d88_disk 2" "d88_last d88_disk = 119" "d88_two_sided d88_disk"
proof -
  have w: "file_word d88_disk 7 = 0x400" "file_word d88_disk 173 = 16"
    by (simp_all add: file_word_def d88_disk_nth pack4_def)
  have "length d88_disk = 1024" by (simp add: d88_disk_def)
  then show "is_d88 d88_disk 2"
    using d88_disk_track by (simp add: is_d88_def w D88_HDRSIZE_def D88_TRACKS_def)
  show "d88_last d88_disk = 119"
    unfolding d88_last_def by (rule Max_eqI) (auto simp: d88_disk_track)
  show "d88_two_sided d88_disk"
    unfolding d88_two_sided_def by (rule exI [of _ 1]) (simp add: d88_disk_track)
qed

theorem fdd_d88_cylinders_witness:
  "let m = fdd (fdd_mount card_apf 0 2 (fdd_demo d88_disk [])) in d88_track d88_disk 159 \<noteq> 0
     \<and> media_cylinders m False = 60 \<and> media_sectors_per_track m False = 16 \<and> media_heads m False = 2"
proof -
  have f: "d88_disk = host (fdd_demo d88_disk []) (fdd_slot 0)"
    by (simp add: fdd_slot_def FDD0_SLOT_ID_def FDD1_SLOT_ID_def)
  have w: "file_word d88_disk 173 = 16" by (simp add: file_word_def d88_disk_nth pack4_def)
  show ?thesis
    using fdd_d88_cylinders [where s = "fdd_demo d88_disk []" and d = 0,
        OF prompt_card.prompt_dataslot_axioms _ fdd_demo_store f d88_disk_ok(1)]
    by (simp add: Let_def d88_disk_ok w d88_disk_track word_unat_eq_iff)
qed

text \<open>C25: Once a lookup in a cold track of a D88 image has claimed the track, every later lookup in
  that track gives the answer a cold lookup from the original state would have given, and gives
  it without a transfer or any other change of state.\<close>

theorem fdd_d88_lookup_cached:
  assumes "dataslot apf slot_file" and "d88_offset apf d lba s = (o1, s1)"
    and "d88_cache_trk s d \<noteq> fst (lba_split (fdd_img_geom s d 0) lba 0)"
    and "d88_cache_trk s1 d = fst (lba_split (fdd_img_geom s d 0) lba 0)"
    and "fst (lba_split (fdd_img_geom s d 0) lba' 0) = fst (lba_split (fdd_img_geom s d 0) lba 0)"
  shows "d88_offset apf d lba' s1 = (fst (d88_offset apf d lba' s), s1)"
proof -
  have "fdd_img_geom s1 d = fdd_img_geom s d"
    using dataslot.d88_offset_quiet [OF assms(1,2)] drivesD [of s1 s] by (simp add: quiet_def fdd_keeps_def)
  from d88_lookup_cached [OF assms(2) this assms(3-5)] show ?thesis .
qed

definition d88_demo :: "card fdd_st" where
  "d88_demo = fdd_demo d88_disk []\<lparr>fdd_d88 := (\<lambda>_. True), fdd_img_geom := (\<lambda>_ i. if i = 0 then 8 else 1)\<rparr>"

theorem fdd_d88_lookup_cached_witness:
  "d88_offset card_apf 0 3 (snd (d88_offset card_apf 0 1 d88_demo))
     = (fst (d88_offset card_apf 0 3 d88_demo), snd (d88_offset card_apf 0 1 d88_demo))"
proof -
  have split: "lba_split 8 1 0 = (0, 1)" "lba_split 8 3 0 = (0, 3)" 
    by (simp_all add: lba_split.simps [of 8 1 0] lba_split.simps [of 8 3 0] word_le_nat_alt)
  define s1 where "s1 = snd (d88_offset card_apf 0 1 d88_demo)"
  define s0 where "s0 = d88_demo\<lparr>d88_cache_trk := (d88_cache_trk d88_demo)(0 := -1),
      d88_cache_off := (d88_cache_off d88_demo)(0 := \<lambda>i. if i < D88_CACHE_SPT then 0 else d88_cache_off d88_demo 0 i)\<rparr>"
  obtain r u where u: "tds_transfer_to card_apf (fdd_slot 0) 0x20 FDD_TDS_READ 4 FDD_BRIDGE_BASE s0 = (r, u)" by fastforce
  have "length (host s0 (fdd_slot 0)) = 1024"
    by (simp add: s0_def d88_demo_def d88_disk_def fdd_slot_def FDD0_SLOT_ID_def FDD1_SLOT_ID_def)
  then have r using prompt_card.transfer_serves [OF u] by simp
  then have "fdd_read_at card_apf 0 (0x20 + 0 * 4) 4 s0 = (True, u)"
    using u by (simp add: fdd_read_at_def tds_transfer_def)
  from d88_fill_claims [OF this [unfolded s0_def], of 8]
  have claim: "d88_cache_trk (snd (d88_fill card_apf 0 8 0 d88_demo)) 0 = 0" .
  have g: "fdd_img_geom d88_demo 0 0 = 8" "d88_cache_trk d88_demo 0 = -1"
    by (simp_all add: d88_demo_def fdd_demo_def set_st.defs set_demo_def)
  obtain k v where v: "d88_fill card_apf 0 8 0 d88_demo = (k, v)" by fastforce
  have "s1 = v" by (cases k) (simp_all add: s1_def d88_offset_def g split v D88_CACHE_SPT_def)
  then have "d88_cache_trk s1 0 = 0" using claim v by simp
  then show ?thesis
    using fdd_d88_lookup_cached [OF card.dataslot_axioms, of 0 1 d88_demo "fst (d88_offset card_apf 0 1 d88_demo)" s1 3] split g
    by (simp add: s1_def)
qed

end
