(* ===== verification/Gdc.thy ===== *)
theory Gdc
  imports Divider
begin

text \<open>
  \<open>firmware/gdc_service.c\<close>: the GDC drawing processor.  The guest's EXECUTE commands arrive as a
  register snapshot; the service draws dots, lines, rectangles, arcs and text into the graphics
  VRAM through a byte-wide bus master, or runs a block write, and retires the command.

  The bus master and everything behind it (the sequencer, the guest's VRAM, an armed charger) is
  hardware: the parameter \<open>chan\<close> answers one byte access with its own next state and the status
  word each successive poll reads.  Coordinates are C \<open>int\<close>s that stay far below 32 bits; HOL
  \<open>int\<close> stands for them.
\<close>

section \<open>State\<close>

datatype vr_cmd = VRead u32 | VWrite u32 u8

type_synonym 'g chan = "'g \<Rightarrow> vr_cmd \<Rightarrow> 'g \<times> (nat \<Rightarrow> u32)"

record gdc_snap =
  ope :: u8
  dc_lo :: u8
  dc_hi :: u8
  d_lo :: u8
  d_hi :: u8
  d2_lo :: u8
  d2_hi :: u8
  d1_lo :: u8
  d1_hi :: u8
  dm_lo :: u8
  dm_hi :: u8
  csrw :: "nat \<Rightarrow> u8"
  textw :: "nat \<Rightarrow> u8"
  zoom :: u8
  write_mode :: u8
  mask_b :: "nat \<Rightarrow> u8"
  code_b :: "nat \<Rightarrow> u8"

record 'g gdc_st =
  vr_dev :: 'g
  vr_log :: "vr_cmd list"            \<comment> \<open>the accesses issued, in order\<close>
  st_accel :: u32                    \<comment> \<open>what \<open>ST_ACCEL\<close> reads\<close>
  gdcd_status :: "nat \<Rightarrow> u32"
  gdcd_snapw :: "nat \<Rightarrow> nat \<Rightarrow> u32"
  gdcd_done :: "(nat \<times> u32) list"   \<comment> \<open>the stores to the done registers, in order\<close>
  bitreverse :: "nat \<Rightarrow> u8"
  gdc_inited :: bool
  ps_pattern :: u16
  ps_x :: u16
  ps_y :: u16
  ps_base :: u32
  ps_op :: u8
  ps_armed :: bool
  ps_rmw :: bool
  ps_egc :: bool

definition ST_PEND :: u32 where "ST_PEND = push_bit 8 1"
definition GDC_CH_MASTER :: nat where "GDC_CH_MASTER = 0"
definition GDC_CH_SLAVE :: nat where "GDC_CH_SLAVE = 1"
definition GDC_OP_TEXTE :: u32 where "GDC_OP_TEXTE = 0x68"
definition ST_POLLS :: nat where "ST_POLLS = 2000"

type_synonym dirs = "int \<times> int \<times> int \<times> int"

definition vectdir :: "dirs list" where
  "vectdir =
     [(0, 1, 1, 0), (1, 1, 1, -1), (1, 0, 0, -1), (1, -1, -1, -1),
      (0, -1, -1, 0), (-1, -1, -1, 1), (-1, 0, 0, 1), (-1, 1, 1, 1),
      (0, 1, 1, 1), (1, 1, 1, 0), (1, 0, 1, -1), (1, -1, 0, -1),
      (0, -1, -1, -1), (-1, -1, -1, 0), (-1, 0, -1, 1), (-1, 1, 0, 1)]"

definition plane_base :: "u32 list" where
  "plane_base = [0xE0000, 0xA8000, 0xB0000, 0xB8000]"

section \<open>The bit-reversal table\<close>

definition reverse_byte :: "u8 \<Rightarrow> u8" where
  "reverse_byte v =
     fst (for_to 8 (\<lambda>_ (r, v). (push_bit 1 r OR (v AND 1), drop_bit 1 v)) (0, v))"

definition init_bitreverse :: "('g, 'z) gdc_st_scheme \<Rightarrow> ('g, 'z) gdc_st_scheme" where
  "init_bitreverse s =
     for_to 256 (\<lambda>i s. s\<lparr>bitreverse := (bitreverse s)(i := reverse_byte (of_nat i))\<rparr>) s"

section \<open>One byte of VRAM\<close>

text \<open>At most \<open>n\<close> polls; the last status read.\<close>

fun st_spin :: "(nat \<Rightarrow> u32) \<Rightarrow> nat \<Rightarrow> nat \<Rightarrow> u32 \<Rightarrow> u32" where
  "st_spin st k 0 w = w"
| "st_spin st k (Suc n) w = (if st k AND ST_PEND = 0 then st k else st_spin st (Suc k) n (st k))"

definition vr_access :: "'g chan \<Rightarrow> vr_cmd \<Rightarrow> ('g, 'z) gdc_st_scheme \<Rightarrow> u32 \<times> ('g, 'z) gdc_st_scheme" where
  "vr_access ch c s =
     (let (g, st) = ch (vr_dev s) c
      in (st_spin st 0 ST_POLLS 0, s\<lparr>vr_dev := g, vr_log := vr_log s @ [c]\<rparr>))"

definition vr_read8 :: "'g chan \<Rightarrow> u32 \<Rightarrow> ('g, 'z) gdc_st_scheme \<Rightarrow> u8 \<times> ('g, 'z) gdc_st_scheme" where
  "vr_read8 ch addr s = (let (w, s) = vr_access ch (VRead (addr AND 0xFFFFF)) s in (ucast (w AND 0xFF), s))"

definition vr_write8 :: "'g chan \<Rightarrow> u32 \<Rightarrow> u8 \<Rightarrow> ('g, 'z) gdc_st_scheme \<Rightarrow> ('g, 'z) gdc_st_scheme" where
  "vr_write8 ch addr v s = snd (vr_access ch (VWrite (addr AND 0xFFFFF) v) s)"

section \<open>Dots\<close>

definition pset_prepare :: "u32 \<Rightarrow> u16 \<Rightarrow> u8 \<Rightarrow> ('g, 'z) gdc_st_scheme \<Rightarrow> ('g, 'z) gdc_st_scheme" where
  "pset_prepare csr pat op s =
     (let accel = ucast (st_accel s) :: u8;
          (y, rem) = udiv32 (csr AND 0x3FFF) 40
      in s\<lparr>ps_pattern := pat, ps_base := plane_base ! unat (drop_bit 14 csr AND 3), ps_op := op AND 3,
           ps_armed := (accel AND 5 \<noteq> 0), ps_egc := (accel AND 4 \<noteq> 0), ps_rmw := (accel AND 2 \<noteq> 0),
           ps_y := ucast y, ps_x := ucast (push_bit 4 rem + (drop_bit 20 csr AND 0x0F))\<rparr>)"

text \<open>The dot's byte under the four raster operations.\<close>

definition dot_op :: "u8 \<Rightarrow> bool \<Rightarrow> u8 \<Rightarrow> u8 \<Rightarrow> u8" where
  "dot_op op dot m v =
     (if op = 0 then (if dot then v OR m else v AND NOT m)
      else if op = 1 then (if dot then v XOR m else v)
      else if op = 2 then (if dot then v AND NOT m else v)
      else (if dot then v OR m else v))"

definition off_screen :: "int \<Rightarrow> int \<Rightarrow> bool" where
  "off_screen x y \<longleftrightarrow> 409 < y \<or> (if y = 409 then 384 \<le> x else 640 \<le> x)"

definition pset_at :: "'g chan \<Rightarrow> int \<Rightarrow> int \<Rightarrow> ('g, 'z) gdc_st_scheme \<Rightarrow> ('g, 'z) gdc_st_scheme" where
  "pset_at ch x y s =
     (let dot = odd (ps_pattern s);
          s = s\<lparr>ps_pattern := drop_bit 1 (ps_pattern s) OR (if dot then 0x8000 else 0)\<rparr>;
          x = x mod 65536;
          y = y mod 65536
      in if off_screen x y then s
         else
           let addr = ps_base s + of_int y * 80 + of_int (x div 8);
               m = drop_bit (nat (x mod 8)) 0x80
           in if ps_armed s
              then if \<not> dot then s
                   else if ps_rmw s \<and> \<not> ps_egc s then vr_write8 ch addr m s
                   else
                     let s = vr_write8 ch (addr AND NOT 1) (if addr AND 1 \<noteq> 0 then 0 else m) s
                     in vr_write8 ch (addr OR 1) (if addr AND 1 \<noteq> 0 then m else 0) s
              else
                let (v, s) = vr_read8 ch addr s
                in vr_write8 ch addr (dot_op (ps_op s) dot m v) s)"

section \<open>The primitives\<close>

definition le16 :: "u8 \<Rightarrow> u8 \<Rightarrow> u32" where
  "le16 lo hi = ucast lo OR push_bit 8 (ucast hi)"

text \<open>The minor-axis offset of step \<open>i\<close>: \<open>d1 * i / dc\<close>, rounded.\<close>

definition vect_off :: "u32 \<Rightarrow> u32 \<Rightarrow> nat \<Rightarrow> int" where
  "vect_off d1 dc i = uint (drop_bit 1 (fst (udiv32 (d1 * of_nat i) dc) + 1))"

text \<open>Where step \<open>i\<close> of a line or arc falls in octant \<open>o\<close>: \<open>i\<close> along the major axis, \<open>m\<close> across.\<close>

definition octant :: "u8 \<Rightarrow> int \<Rightarrow> int \<Rightarrow> int \<Rightarrow> int \<Rightarrow> int \<times> int" where
  "octant dir x y i m =
     (if dir = 0 then (x + m, y + i)
      else if dir = 1 then (x + i, y + m)
      else if dir = 2 then (x + i, y - m)
      else if dir = 3 then (x + m, y - i)
      else if dir = 4 then (x - m, y - i)
      else if dir = 5 then (x - i, y - m)
      else if dir = 6 then (x - i, y + m)
      else (x - m, y + i))"

definition pset_pt :: "'g chan \<Rightarrow> int \<times> int \<Rightarrow> ('g, 'z) gdc_st_scheme \<Rightarrow> ('g, 'z) gdc_st_scheme" where
  "pset_pt ch p s = pset_at ch (fst p) (snd p) s"

definition vectl :: "'g chan \<Rightarrow> gdc_snap \<Rightarrow> ('g, 'z) gdc_st_scheme \<Rightarrow> ('g, 'z) gdc_st_scheme" where
  "vectl ch g s =
     (let dc = le16 (dc_lo g) (dc_hi g) AND 0x3FFF
      in if dc = 0 then pset_at ch (uint (ps_x s)) (uint (ps_y s)) s
         else
           let d1 = le16 (d1_lo g) (d1_hi g);
               x = uint (ps_x s);
               y = uint (ps_y s)
           in for_to (unat dc + 1) (\<lambda>i. pset_pt ch (octant (ope g AND 7) x y (int i) (vect_off d1 dc i))) s)"

text \<open>\<open>while (n--)\<close> over one pattern bit: draw or skip, and step.\<close>

definition dot_run :: "'g chan \<Rightarrow> bool \<Rightarrow> dirs \<Rightarrow> nat \<Rightarrow> (int \<times> int) \<times> ('g, 'z) gdc_st_scheme \<Rightarrow>
    (int \<times> int) \<times> ('g, 'z) gdc_st_scheme" where
  "dot_run ch draw dir n cs =
     for_to n (\<lambda>_ (c, s). ((fst c + fst dir, snd c + fst (snd dir)), if draw then pset_pt ch c s else s)) cs"

text \<open>One line of \<open>sx\<close> pattern bits: the pattern rotates, the bit that falls out comes back at the top.\<close>

definition pattern_row :: "'g chan \<Rightarrow> dirs \<Rightarrow> nat \<Rightarrow> nat \<Rightarrow> 'a::len word \<Rightarrow> ('g, 'z) gdc_st_scheme \<Rightarrow>
    'a word \<times> ('g, 'z) gdc_st_scheme" where
  "pattern_row ch dir multiple sx pat s =
     (let (pat, cs) = for_to sx (\<lambda>_ (pat, cs).
            if odd pat
            then (drop_bit 1 pat OR push_bit (LENGTH('a) - 1) 1, dot_run ch True dir multiple cs)
            else (drop_bit 1 pat, dot_run ch False dir multiple cs))
          (pat, ((uint (ps_x s), uint (ps_y s)), s))
      in (pat, snd cs))"

definition next_row :: "dirs \<Rightarrow> ('g, 'z) gdc_st_scheme \<Rightarrow> ('g, 'z) gdc_st_scheme" where
  "next_row dir s = s\<lparr>ps_x := ps_x s + of_int (fst (snd (snd dir))), ps_y := ps_y s + of_int (snd (snd (snd dir)))\<rparr>"

definition zoom_of :: "gdc_snap \<Rightarrow> nat" where
  "zoom_of g = unat (zoom g AND 15) + 1"

definition row_dots :: "gdc_snap \<Rightarrow> nat" where
  "row_dots g = min 768 (unat ((le16 (d_lo g) (d_hi g) - 1) AND 0x3FFF) + 1)"

definition vectt :: "'g chan \<Rightarrow> gdc_snap \<Rightarrow> u16 \<Rightarrow> ('g, 'z) gdc_st_scheme \<Rightarrow> ('g, 'z) gdc_st_scheme" where
  "vectt ch g pat s =
     (let pat = (if ope g AND 0x80 \<noteq> 0
                 then push_bit 8 (ucast (bitreverse s (unat (pat AND 0xFF)))) OR ucast (bitreverse s (unat (drop_bit 8 pat)))
                 else pat);
          dir = vectdir ! unat (ope g AND 7)
      in snd (for_to (zoom_of g) (\<lambda>_ (pat, s).
           let (pat, s) = pattern_row ch dir (zoom_of g) (row_dots g) pat s in (pat, next_row dir s)) (pat, s)))"

text \<open>A side of the rectangle: \<open>n\<close> dots from \<open>c\<close>, \<open>(dx, dy)\<close> apart.\<close>

definition side :: "'g chan \<Rightarrow> nat \<Rightarrow> int \<Rightarrow> int \<Rightarrow> (int \<times> int) \<times> ('g, 'z) gdc_st_scheme \<Rightarrow>
    (int \<times> int) \<times> ('g, 'z) gdc_st_scheme" where
  "side ch n dx dy cs = for_to n (\<lambda>_ (c, s). ((fst c + dx, snd c + dy), pset_pt ch c s)) cs"

definition vectr :: "'g chan \<Rightarrow> gdc_snap \<Rightarrow> ('g, 'z) gdc_st_scheme \<Rightarrow> ('g, 'z) gdc_st_scheme" where
  "vectr ch g s =
     (let d = unat (le16 (d_lo g) (d_hi g) AND 0x3FFF);
          d2 = unat (le16 (d2_lo g) (d2_hi g) AND 0x3FFF);
          (dx, dy, ex, ey) = vectdir ! unat (ope g AND 7);
          cs = ((uint (ps_x s), uint (ps_y s)), s);
          cs = side ch d dx dy cs;
          cs = side ch d2 ex ey cs;
          cs = side ch d (- dx) (- dy) cs;
          cs = side ch d2 (- ex) (- ey) cs
      in snd cs)"

text \<open>The arc's offset across the major axis at step \<open>i\<close> of \<open>m\<close> for radius \<open>r\<close>.\<close>

definition arc_off :: "u32 \<Rightarrow> u32 \<Rightarrow> nat \<Rightarrow> u32" where
  "arc_off r m i =
     (let a = fst (udiv32 (of_nat i * 32768) m);
          b = fst (udiv32 (of_nat i * 23170) m);
          k = a * b;
          t = b;
          t = (if t \<noteq> 0 then (t + fst (udiv32 k t)) div 2 else t)
      in drop_bit 15 (t * r + 16384))"

definition arc_steps :: "u32 \<Rightarrow> u32" where
  "arc_steps r = fst (udiv32 (r * 10000 + 14141) 14142)"

definition vectc :: "'g chan \<Rightarrow> gdc_snap \<Rightarrow> ('g, 'z) gdc_st_scheme \<Rightarrow> ('g, 'z) gdc_st_scheme" where
  "vectc ch g s =
     (let r = le16 (d_lo g) (d_hi g) AND 0x3FFF;
          m = arc_steps r;
          x = uint (ps_x s);
          y = uint (ps_y s)
      in if m = 0 then pset_at ch x y s
         else
           let i0 = unat (le16 (dm_lo g) (dm_hi g) AND 0x3FFF);
               t = le16 (dc_lo g) (dc_hi g) AND 0x3FFF;
               t = unat (if m < t then m else t)
           in for_to (t + 1 - i0) (\<lambda>j. let i = i0 + j in
                pset_pt ch (octant (ope g AND 7) x y (int i) (uint (arc_off r m i)))) s)"

definition gdc_text :: "'g chan \<Rightarrow> gdc_snap \<Rightarrow> ('g, 'z) gdc_st_scheme \<Rightarrow> ('g, 'z) gdc_st_scheme" where
  "gdc_text ch g s =
     (let sy = min 768 (unat (le16 (dc_lo g) (dc_hi g) AND 0x3FFF) + 1);
          pat = (\<lambda>i. textw g (i mod 2));
          dir = vectdir ! (unat (drop_bit 4 (ope g AND 0x80)) + unat (ope g AND 7))
      in snd (for_to sy (\<lambda>_ ps. for_to (zoom_of g) (\<lambda>_ (patnum, s).
           let patnum = patnum - 1;
               (_, s) = pattern_row ch dir (zoom_of g) (row_dots g) (pat (nat (patnum mod 8))) s
           in (patnum, next_row dir s)) ps) (0 :: int, s)))"

section \<open>Block writes\<close>

text \<open>The transfer's mask and data, or \<open>None\<close> for a transfer type that writes nothing.\<close>

definition wdat_operands :: "gdc_snap \<Rightarrow> (u16 \<times> u16) option" where
  "wdat_operands g =
     (let msk = ucast (le16 (mask_b g 0) (mask_b g 1));
          sel = write_mode g AND 0x18
      in if sel = 0 then Some (msk, ucast (le16 (code_b g 0) (code_b g 1)))
         else if sel = 0x10 then Some (msk AND 0x00FF, ucast (code_b g 0))
         else if sel = 0x18 then Some (msk AND 0xFF00, push_bit 8 (ucast (code_b g 0)))
         else None)"

definition wdat_op :: "u8 \<Rightarrow> u16 \<Rightarrow> u16 \<Rightarrow> u16 \<Rightarrow> u16" where
  "wdat_op mode msk data v =
     (if mode = 0 then (v AND NOT msk) OR data
      else if mode = 1 then v XOR data
      else if mode = 2 then v AND data
      else v OR data)"

definition csrw_word :: "gdc_snap \<Rightarrow> u32" where
  "csrw_word g = pack4 (csrw g 0) (csrw g 1) (csrw g 2) (csrw g 3)"

definition wdat_word :: "'g chan \<Rightarrow> u32 \<Rightarrow> u8 \<Rightarrow> u16 \<Rightarrow> u16 \<Rightarrow> u32 \<times> ('g, 'z) gdc_st_scheme \<Rightarrow>
    u32 \<times> ('g, 'z) gdc_st_scheme" where
  "wdat_word ch base mode msk data as =
     (let (adrs, s) = as;
          (lo, s) = vr_read8 ch (base + adrs) s;
          (hi, s) = vr_read8 ch (base + adrs + 1) s;
          v = wdat_op mode msk data (ucast lo OR push_bit 8 (ucast hi));
          s = vr_write8 ch (base + adrs) (ucast v) s;
          s = vr_write8 ch (base + adrs + 1) (ucast (drop_bit 8 v)) s
      in ((adrs + 2) AND 0x7FFE, s))"

text \<open>\<open>do \<dots> while (--leng)\<close> on 16 bits: a count of zero runs all 65536 rounds.\<close>

definition wdat_count :: "gdc_snap \<Rightarrow> nat" where
  "wdat_count g = (let leng = (ucast (le16 (dc_lo g) (dc_hi g)) + 1 :: u16) in if leng = 0 then 65536 else unat leng)"

definition gdc_wdat :: "'g chan \<Rightarrow> gdc_snap \<Rightarrow> ('g, 'z) gdc_st_scheme \<Rightarrow> ('g, 'z) gdc_st_scheme" where
  "gdc_wdat ch g s =
     (case wdat_operands g of
        None \<Rightarrow> s
      | Some (msk, data) \<Rightarrow>
          let csr = csrw_word g;
              adrs = push_bit 1 (csr AND 0x3FFF);
              base = plane_base ! unat (drop_bit 14 csr AND 3)
          in snd (for_to (wdat_count g) (\<lambda>_. wdat_word ch base (write_mode g AND 3) msk (data AND msk)) (adrs, s)))"

section \<open>The service loop entry\<close>

definition retire :: "nat \<Rightarrow> ('g, 'z) gdc_st_scheme \<Rightarrow> ('g, 'z) gdc_st_scheme" where
  "retire ch s = s\<lparr>gdcd_done := gdcd_done s @ [(ch, 1), (ch, 0)]\<rparr>"

definition snap_of :: "(nat \<Rightarrow> u32) \<Rightarrow> gdc_snap" where
  "snap_of w =
     (let b = (\<lambda>i. byte_of (w (i div 4)) (i mod 4))
      in \<lparr>ope = b 0, dc_lo = b 1, dc_hi = b 2, d_lo = b 3, d_hi = b 4, d2_lo = b 5, d2_hi = b 6,
          d1_lo = b 7, d1_hi = b 8, dm_lo = b 9, dm_hi = b 10, csrw = (\<lambda>i. b (11 + i)),
          textw = (\<lambda>i. b (15 + i)), zoom = b 17, write_mode = b 18, mask_b = (\<lambda>i. b (19 + i)),
          code_b = (\<lambda>i. b (21 + i))\<rparr>)"

definition gdc_draw :: "'g chan \<Rightarrow> u32 \<Rightarrow> gdc_snap \<Rightarrow> ('g, 'z) gdc_st_scheme \<Rightarrow> ('g, 'z) gdc_st_scheme" where
  "gdc_draw ch st g s =
     (let tw = ucast (le16 (textw g 0) (textw g 1));
          s = pset_prepare (csrw_word g) tw (write_mode g) s;
          s = (if ope g AND 0x78 = 0 then pset_at ch (uint (ps_x s)) (uint (ps_y s)) s else s);
          s = (if ope g AND 0x08 \<noteq> 0 then vectl ch g s else s);
          s = (if ope g AND 0x10 \<noteq> 0 then vectt ch g tw s else s);
          s = (if ope g AND 0x20 \<noteq> 0 then vectc ch g s else s);
          s = (if ope g AND 0x40 \<noteq> 0 then vectr ch g s else s)
      in if st AND 0xFF = GDC_OP_TEXTE then gdc_text ch g s else s)"

definition gdc_serve :: "'g chan \<Rightarrow> nat \<Rightarrow> ('g, 'z) gdc_st_scheme \<Rightarrow> ('g, 'z) gdc_st_scheme" where
  "gdc_serve ch c s =
     (let st = gdcd_status s c
      in if st AND push_bit 9 1 = 0 then s
         else
           let g = snap_of (gdcd_snapw s c);
               s = (if c \<noteq> GDC_CH_SLAVE then s
                    else if st AND 0xE4 = 0x20 then gdc_wdat ch g s
                    else gdc_draw ch st g s)
           in retire c s)"

definition gdc_poll :: "'g chan \<Rightarrow> ('g, 'z) gdc_st_scheme \<Rightarrow> ('g, 'z) gdc_st_scheme" where
  "gdc_poll ch s =
     (let s = (if \<not> gdc_inited s then (init_bitreverse s)\<lparr>gdc_inited := True\<rparr> else s)
      in gdc_serve ch GDC_CH_MASTER (gdc_serve ch GDC_CH_SLAVE s))"

end
