(* ===== verification/Gdc_Correct.thy ===== *)
theory Gdc_Correct
  imports Gdc
begin

text \<open>
  What the drawing processor does: every access of a command stays inside the plane its address
  register selects, the primitives as sequences of dots, and the pixels a dot, a line and a block
  write leave in VRAM when no charger is armed.
\<close>

section \<open>Staying inside the plane\<close>

definition vr_addr :: "vr_cmd \<Rightarrow> u32" where
  "vr_addr c = (case c of VRead a \<Rightarrow> a | VWrite a v \<Rightarrow> a)"

definition in_plane :: "u32 \<Rightarrow> vr_cmd \<Rightarrow> bool" where
  "in_plane b c \<longleftrightarrow> unat b \<le> unat (vr_addr c) \<and> unat (vr_addr c) < unat b + 0x8000"

definition is_plane :: "u32 \<Rightarrow> bool" where
  "is_plane b \<longleftrightarrow> b \<in> set plane_base"

definition draws :: "u32 \<Rightarrow> ('g, 'z) gdc_st_scheme \<Rightarrow> ('g, 'z) gdc_st_scheme \<Rightarrow> bool" where
  "draws b s t \<longleftrightarrow> (\<exists>L. vr_log t = vr_log s @ L \<and> (\<forall>c\<in>set L. in_plane b c))
     \<and> ps_base t = ps_base s \<and> ps_op t = ps_op s \<and> ps_armed t = ps_armed s \<and> ps_rmw t = ps_rmw s \<and> ps_egc t = ps_egc s
     \<and> gdcd_done t = gdcd_done s \<and> gdcd_status t = gdcd_status s \<and> gdcd_snapw t = gdcd_snapw s
     \<and> bitreverse t = bitreverse s \<and> gdc_inited t = gdc_inited s \<and> st_accel t = st_accel s"

lemma draws_refl [simp]: "draws b s s"
  by (simp add: draws_def)

lemma draws_trans: "draws b s t \<Longrightarrow> draws b t u \<Longrightarrow> draws b s u"
  unfolding draws_def by (elim conjE exE) (intro conjI; (rule exI [of _ "L @ La" for L La])?; auto)

lemma draws_loop:
  assumes "\<And>k t. k < n \<Longrightarrow> draws b s (f t) \<Longrightarrow> draws b s (f (body k t))" and "draws b s (f a)"
  shows "draws b s (f (for_to n body a))"
  by (rule for_to_inv [where I = "\<lambda>_ a. draws b s (f a)"]) (use assms in auto)

lemma plane_cases: "is_plane b \<Longrightarrow> b = 0xE0000 \<or> b = 0xA8000 \<or> b = 0xB0000 \<or> b = 0xB8000"
  by (auto simp: is_plane_def plane_base_def)

lemma plane_sel: "is_plane (plane_base ! unat (w AND 3 :: u32))"
proof -
  have "w AND 3 = take_bit 2 w" by (simp add: take_bit_eq_mask mask_eq_exp_minus_1)
  then have "unat (w AND 3) < 4" by (simp add: unsigned_take_bit_eq take_bit_nat_eq_self_iff) (simp add: take_bit_eq_mod)
  then show ?thesis unfolding is_plane_def by (intro nth_mem) (simp add: plane_base_def)
qed

lemma plane_offset:
  assumes "is_plane b" "k < 0x8000"
  shows "unat (b + of_nat k) = unat b + k" "(b + of_nat k) AND 0xFFFFF = b + of_nat k"
proof -
  show e: "unat (b + of_nat k) = unat b + k"
    using plane_cases [OF assms(1)] assms(2) by (elim disjE) (simp_all add: unat_word_ariths unat_of_nat)
  have m: "(0xFFFFF :: u32) = mask 20" by (simp add: mask_eq_exp_minus_1)
  have "unat (b + of_nat k) < 2 ^ 20"
    unfolding e using plane_cases [OF assms(1)] assms(2) by (elim disjE) simp_all
  then have "unat (take_bit 20 (b + of_nat k)) = unat (b + of_nat k)"
    by (simp add: unsigned_take_bit_eq take_bit_nat_eq_self)
  then have "take_bit 20 (b + of_nat k) = b + of_nat k" by (rule word_unat_eq_iff [THEN iffD2])
  then show "(b + of_nat k) AND 0xFFFFF = b + of_nat k" unfolding m by (simp add: take_bit_eq_mask)
qed

text \<open>The two bytes of an aligned word inside the plane.\<close>

lemma plane_even:
  assumes "is_plane b" "k < 0x8000"
  shows "(b + of_nat k) AND NOT 1 = b + of_nat (k - k mod 2)" "(b + of_nat k) OR 1 = b + of_nat (k - k mod 2 + 1)"
    "odd (b + of_nat k) = odd k"
proof -
  have ev: "even b" using plane_cases [OF assms(1)] by (elim disjE) simp_all
  then show o: "odd (b + of_nat k) = odd k" by simp
  have clr: "(w :: u32) AND NOT 1 = w - of_bool (odd w)" for w
  proof -
    have "w AND NOT 1 = push_bit 1 (drop_bit 1 w)"
      by (rule bit_word_eqI) (auto simp: bit_and_iff bit_not_iff bit_push_bit_iff bit_drop_bit_eq bit_1_iff Suc_le_eq simp del: push_bit_Suc push_bit_of_1 One_nat_def)
    also have "\<dots> = w - take_bit 1 w" by (metis add_diff_cancel_right' bits_ident)
    finally show ?thesis by (simp add: mod_2_eq_odd take_bit_eq_mod)
  qed
  have k: "k - k mod 2 = (if odd k then k - 1 else k)" by (simp add: mod_2_eq_odd)
  show "(b + of_nat k) AND NOT 1 = b + of_nat (k - k mod 2)"
    unfolding clr o k by (cases "odd k") (auto simp: of_nat_diff odd_pos Suc_leI)
  show "(b + of_nat k) OR 1 = b + of_nat (k - k mod 2 + 1)"
    unfolding or_one_eq using o k by (cases "odd k") (auto simp: odd_pos)
qed

section \<open>One access, one dot\<close>

lemma vr_access_draws:
  assumes "in_plane b c"
  shows "draws b s (snd (vr_access ch c s))"
  using assms by (simp add: vr_access_def draws_def split: prod.split)

lemma vr_read8_draws: "vr_read8 ch a s = (v, t) \<Longrightarrow> in_plane b (VRead (a AND 0xFFFFF)) \<Longrightarrow> draws b s t"
  using vr_access_draws [of b "VRead (a AND 0xFFFFF)" s ch] by (auto simp: vr_read8_def split: prod.splits)

lemma vr_write8_draws: "in_plane b (VWrite (a AND 0xFFFFF) v) \<Longrightarrow> draws b s (vr_write8 ch a v s)"
  unfolding vr_write8_def by (rule vr_access_draws)

lemma offset_in_plane:
  assumes "is_plane b" "k < 0x8000"
  shows "in_plane b (VRead ((b + of_nat k) AND 0xFFFFF))" "in_plane b (VWrite ((b + of_nat k) AND 0xFFFFF) v)"
  using plane_offset [OF assms] assms(2) by (simp_all add: in_plane_def vr_addr_def)

text \<open>The byte of an on-screen dot.\<close>

definition dot_off :: "int \<Rightarrow> int \<Rightarrow> nat" where
  "dot_off x y = nat (y * 80 + x div 8)"

lemma dot_off_bound:
  assumes "0 \<le> x" "0 \<le> y" "\<not> off_screen x y"
  shows "dot_off x y < 0x8000" "int (dot_off x y) = y * 80 + x div 8"
proof -
  have nn: "0 \<le> y * 80 + x div 8" using assms by (simp add: pos_imp_zdiv_nonneg_iff)
  then show "int (dot_off x y) = y * 80 + x div 8" by (simp add: dot_off_def)
  have "y * 80 + x div 8 < 0x8000"
  proof (cases "y = 409")
    case True
    then have "x < 384" using assms(3) by (simp add: off_screen_def)
    then have "x div 8 \<le> 47" by presburger
    then show ?thesis using True by simp
  next
    case False
    then have "x < 640" "y \<le> 408" using assms(3) by (auto simp: off_screen_def)
    moreover from this have "x div 8 \<le> 79" by presburger
    ultimately have "x div 8 \<le> 79" "y \<le> 408" by simp_all
    then show ?thesis by simp
  qed
  then show "dot_off x y < 0x8000" using nn by (simp add: dot_off_def)
qed

lemma dot_addr:
  fixes b :: u32
  assumes "0 \<le> x" "0 \<le> y" "\<not> off_screen x y"
  shows "b + of_int y * 80 + of_int (x div 8) = b + of_nat (dot_off x y)"
proof -
  have "(of_nat (dot_off x y) :: u32) = of_int (int (dot_off x y))" by simp
  also have "\<dots> = of_int y * 80 + of_int (x div 8)" unfolding dot_off_bound(2) [OF assms] by simp
  finally show ?thesis by (simp add: add.assoc)
qed

lemma rotate_draws: "draws b s (s\<lparr>ps_pattern := p\<rparr>)" "draws b s (s\<lparr>ps_x := u, ps_y := v\<rparr>)"
  by (simp_all add: draws_def)

lemma pset_at_draws:
  assumes "is_plane (ps_base s)"
  shows "draws (ps_base s) s (pset_at ch x y s)"
proof -
  define r where "r = s\<lparr>ps_pattern := drop_bit 1 (ps_pattern s) OR (if odd (ps_pattern s) then 0x8000 else 0)\<rparr>"
  define u v where "u = x mod 65536" and "v = y mod 65536"
  have r: "draws (ps_base s) s r" unfolding r_def by (rule rotate_draws)
  have rb: "ps_base r = ps_base s" by (simp add: r_def)
  show ?thesis
  proof (cases "off_screen u v")
    case True
    then show ?thesis using r by (simp add: pset_at_def Let_def r_def u_def v_def)
  next
    case False
    have nn: "0 \<le> u" "0 \<le> v" by (simp_all add: u_def v_def)
    define k where "k = dot_off u v"
    have k: "k < 0x8000" unfolding k_def by (rule dot_off_bound(1) [OF nn False])
    let ?b = "ps_base s"
    define m :: u8 where "m = drop_bit (nat (u mod 8)) 0x80"
    have a: "ps_base r + of_int v * 80 + of_int (u div 8) = ?b + of_nat k"
      unfolding k_def rb by (rule dot_addr [OF nn False])
    have k2: "k - k mod 2 < 0x8000" "k - k mod 2 + 1 < 0x8000"
      using k by (simp_all add: mod_2_eq_odd) presburger
    note off = offset_in_plane [OF assms k]
    have e: "pset_at ch x y s = (if ps_armed r then (if \<not> odd (ps_pattern s) then r
           else if ps_rmw r \<and> \<not> ps_egc r then vr_write8 ch (?b + of_nat k) m r
           else vr_write8 ch ((?b + of_nat k) OR 1) (if (?b + of_nat k) AND 1 \<noteq> 0 then m else 0)
                  (vr_write8 ch ((?b + of_nat k) AND NOT 1) (if (?b + of_nat k) AND 1 \<noteq> 0 then 0 else m) r))
         else case vr_read8 ch (?b + of_nat k) r of (w, t) \<Rightarrow>
           vr_write8 ch (?b + of_nat k) (dot_op (ps_op t) (odd (ps_pattern s)) m w) t)"
      unfolding pset_at_def Let_def u_def [symmetric] v_def [symmetric] r_def [symmetric] a m_def
      using False by simp
    obtain w t where rd: "vr_read8 ch (?b + of_nat k) r = (w, t)" by fastforce
    have t: "draws ?b s t" by (rule draws_trans [OF r vr_read8_draws [OF rd off(1)]])
    show ?thesis
      unfolding e rd prod.case plane_even [OF assms k]
      using r draws_trans [OF r vr_write8_draws [OF off(2)]] draws_trans [OF t vr_write8_draws [OF off(2)]]
        draws_trans [OF draws_trans [OF r vr_write8_draws [OF offset_in_plane(2) [OF assms k2(1)]]]
          vr_write8_draws [OF offset_in_plane(2) [OF assms k2(2)]]]
      by simp
  qed
qed

section \<open>The primitives stay inside\<close>

text \<open>States reached from \<open>s\<close> by drawing in plane \<open>b\<close>.\<close>

definition drawn :: "u32 \<Rightarrow> ('g, 'z) gdc_st_scheme \<Rightarrow> ('g, 'z) gdc_st_scheme \<Rightarrow> bool" where
  "drawn b s t \<longleftrightarrow> is_plane b \<and> ps_base s = b \<and> draws b s t"

named_theorems drawn_intros

lemma drawn_refl: "is_plane (ps_base s) \<Longrightarrow> drawn (ps_base s) s s"
  by (simp add: drawn_def)

lemma drawn_base: "drawn b s t \<Longrightarrow> is_plane (ps_base t) \<and> ps_base t = b"
  by (simp add: drawn_def draws_def)

lemma drawn_at [drawn_intros]: "drawn b s t \<Longrightarrow> drawn b s (pset_at ch x y t)"
  using pset_at_draws [of t ch x y] drawn_base [of b s t] by (auto simp: drawn_def intro: draws_trans)

lemma drawn_pt [drawn_intros]: "drawn b s t \<Longrightarrow> drawn b s (pset_pt ch p t)"
  unfolding pset_pt_def by (rule drawn_at)

lemma drawn_loop [drawn_intros]:
  assumes "drawn b s a" and "\<And>k t. drawn b s t \<Longrightarrow> drawn b s (body k t)"
  shows "drawn b s (for_to n body a)"
  by (rule for_to_inv [where I = "\<lambda>_ t. drawn b s t"]) (use assms in auto)

lemma drawn_loop_snd:
  assumes "drawn b s (snd a)" and "\<And>k t. drawn b s (snd t) \<Longrightarrow> drawn b s (snd (body k t))"
  shows "drawn b s (snd (for_to n body a))"
  by (rule for_to_inv [where I = "\<lambda>_ t. drawn b s (snd t)"]) (use assms in auto)

lemma drawn_row [drawn_intros]: "drawn b s t \<Longrightarrow> drawn b s (next_row d t)"
  using rotate_draws(2) [of b t] by (auto simp: drawn_def next_row_def intro: draws_trans)

lemma drawn_line [drawn_intros]: "drawn b s t \<Longrightarrow> drawn b s (vectl ch g t)"
  unfolding vectl_def Let_def by (auto intro!: drawn_intros)

lemma drawn_dots: "drawn b s (snd cs) \<Longrightarrow> drawn b s (snd (dot_run ch draw dir n cs))"
  unfolding dot_run_def by (rule drawn_loop_snd) (auto intro!: drawn_pt split: prod.splits)

lemma drawn_pattern:
  fixes pat :: "'a::len word"
  assumes "drawn b s t"
  shows "drawn b s (snd (pattern_row ch dir m n pat t))"
proof -
  let ?body = "\<lambda>_ (pat, cs). if odd pat
            then (drop_bit 1 pat OR push_bit (LENGTH('a) - 1) 1, dot_run ch True dir m cs)
            else (drop_bit 1 pat, dot_run ch False dir m cs)"
  let ?cs = "((uint (ps_x t), uint (ps_y t)), t)"
  have "drawn b s (snd (snd (for_to n ?body (pat, ?cs))))"
    by (rule for_to_inv [where I = "\<lambda>_ a. drawn b s (snd (snd a))"])
      (use assms in \<open>auto split: prod.splits intro: drawn_dots [of _ _ "(_, _)", simplified] dest: drawn_dots\<close>)
  then show ?thesis by (simp add: pattern_row_def case_prod_beta)
qed

lemma drawn_vectt [drawn_intros]: "drawn b s t \<Longrightarrow> drawn b s (vectt ch g pat t)"
  unfolding vectt_def Let_def
  by (rule drawn_loop_snd) (auto simp: case_prod_beta intro!: drawn_row drawn_pattern)

lemma drawn_side: "drawn b s (snd cs) \<Longrightarrow> drawn b s (snd (side ch n dx dy cs))"
  unfolding side_def by (rule drawn_loop_snd) (auto intro!: drawn_pt simp: case_prod_beta)

lemma drawn_vectr [drawn_intros]: "drawn b s t \<Longrightarrow> drawn b s (vectr ch g t)"
  unfolding vectr_def Let_def by (simp add: case_prod_beta drawn_side)

lemma drawn_vectc [drawn_intros]: "drawn b s t \<Longrightarrow> drawn b s (vectc ch g t)"
  unfolding vectc_def Let_def by (auto intro!: drawn_intros)

lemma drawn_text [drawn_intros]: "drawn b s t \<Longrightarrow> drawn b s (gdc_text ch g t)"
  unfolding gdc_text_def Let_def
  by (rule drawn_loop_snd, simp)
    (rule drawn_loop_snd, simp, auto simp: case_prod_beta intro!: drawn_row drawn_pattern)

text \<open>The block write.\<close>

lemma wdat_addr:
  fixes a :: u32
  assumes "a AND 0x7FFE = a"
  shows "\<exists>k. a = of_nat k \<and> k + 1 < 0x8000 \<and> even k"
proof -
  have hb: "bit a n \<Longrightarrow> 1 \<le> n \<and> n < 15" for n
  proof -
    assume b: "bit a n"
    have m: "(0x7FFE :: u32) = mask 15 AND NOT (mask 1)" by (simp add: mask_eq_exp_minus_1)
    have "bit (a AND 0x7FFE) n" using b assms by simp
    then show ?thesis unfolding m by (auto simp: bit_simps)
  qed
  have "\<not> bit a 0" using hb [of 0] by auto
  have e2: "take_bit 15 a = a" by (rule bit_word_eqI) (use hb in \<open>auto simp: bit_take_bit_iff\<close>)
  have "unat a < 2 ^ 15" by (subst e2 [symmetric]) (simp add: take_bit_eq_mod unat_mod)
  moreover have "\<not> bit (unat a) 0" using \<open>\<not> bit a 0\<close> by (simp add: bit_unsigned_iff)
  then have "even (unat a)" by (simp add: bit_0)
  moreover note \<open>even (unat a)\<close>
  ultimately have "unat a + 1 < 0x8000" by (auto elim!: evenE)
  then show ?thesis using \<open>even (unat a)\<close> by (intro exI [of _ "unat a"]) simp
qed

lemma wdat_word_draws:
  assumes "is_plane b" "fst as AND 0x7FFE = fst as" "draws b s (snd as)"
  shows "draws b s (snd (wdat_word ch b mode msk data as))" "fst (wdat_word ch b mode msk data as) AND 0x7FFE
    = fst (wdat_word ch b mode msk data as)"
proof -
  obtain a t where at: "as = (a, t)" by fastforce
  obtain k where k: "a = of_nat k" "k + 1 < 0x8000" using wdat_addr assms(2) at by auto
  have k0: "k < 0x8000" using k(2) by simp
  obtain lo u where 1: "vr_read8 ch (b + a) t = (lo, u)" by fastforce
  obtain hi v where 2: "vr_read8 ch (b + a + 1) u = (hi, v)" by fastforce
  have a1: "b + a + 1 = b + of_nat (k + 1)" by (simp add: k)
  have p: "in_plane b (VRead ((b + a) AND 0xFFFFF))" "in_plane b (VWrite ((b + a) AND 0xFFFFF) w)"
    "in_plane b (VRead ((b + a + 1) AND 0xFFFFF))" "in_plane b (VWrite ((b + a + 1) AND 0xFFFFF) w)" for w
    unfolding a1 unfolding k(1) using offset_in_plane [OF assms(1) k0] offset_in_plane [OF assms(1) k(2)] by simp_all
  have "draws b s v"
    using assms(3) at vr_read8_draws [OF 1 p(1)] vr_read8_draws [OF 2 p(3)] by (auto intro: draws_trans)
  then have "draws b s (vr_write8 ch (b + a + 1) y (vr_write8 ch (b + a) x v))" for x y
    by (rule draws_trans [OF draws_trans [OF _ vr_write8_draws [OF p(2)]] vr_write8_draws [OF p(4)]])
  then show "draws b s (snd (wdat_word ch b mode msk data as))"
    by (simp add: wdat_word_def at 1 2 Let_def)
  show "fst (wdat_word ch b mode msk data as) AND 0x7FFE = fst (wdat_word ch b mode msk data as)"
    by (simp add: wdat_word_def at 1 2 Let_def and.assoc)
qed

lemma csrw_addr: "push_bit 1 (w AND 0x3FFF :: u32) AND 0x7FFE = push_bit 1 (w AND 0x3FFF)"
proof -
  have m: "(0x7FFE :: u32) = push_bit 1 (mask 14)" "(0x3FFF :: u32) = mask 14" by (simp_all add: mask_eq_exp_minus_1)
  show ?thesis unfolding m by (rule bit_word_eqI) (auto simp: bit_simps)
qed

lemma wdat_draws:
  "draws (plane_base ! unat (drop_bit 14 (csrw_word g) AND 3)) s (gdc_wdat ch g s)"
proof (cases "wdat_operands g")
  case None
  then show ?thesis by (simp add: gdc_wdat_def)
next
  case (Some p)
  let ?b = "plane_base ! unat (drop_bit 14 (csrw_word g) AND 3)"
  obtain msk data where p: "p = (msk, data)" by fastforce
  have "fst t AND 0x7FFE = fst t \<and> draws ?b s (snd t)"
    if "t = for_to n (\<lambda>_. wdat_word ch ?b mode msk d) (push_bit 1 (csrw_word g AND 0x3FFF), s)" for n t mode d
    unfolding that
    by (rule for_to_inv [where I = "\<lambda>_ t. fst t AND 0x7FFE = fst t \<and> draws ?b s (snd t)"])
      (use wdat_word_draws [OF plane_sel] csrw_addr in auto)
  then show ?thesis by (simp add: gdc_wdat_def Some p Let_def)
qed

section \<open>Serving a command\<close>

text \<open>The plane a snapshot addresses.\<close>

definition cmd_plane :: "gdc_snap \<Rightarrow> u32" where
  "cmd_plane g = plane_base ! unat (drop_bit 14 (csrw_word g) AND 3)"

definition requested :: "('g, 'z) gdc_st_scheme \<Rightarrow> nat \<Rightarrow> bool" where
  "requested s c \<longleftrightarrow> bit (gdcd_status s c) 9"

lemma prepare_obs:
  "ps_base (pset_prepare csr pat op s) = plane_base ! unat (drop_bit 14 csr AND 3)"
  "vr_log (pset_prepare csr pat op s) = vr_log s" "gdcd_done (pset_prepare csr pat op s) = gdcd_done s"
  "gdcd_status (pset_prepare csr pat op s) = gdcd_status s" "gdcd_snapw (pset_prepare csr pat op s) = gdcd_snapw s"
  "bitreverse (pset_prepare csr pat op s) = bitreverse s" "gdc_inited (pset_prepare csr pat op s) = gdc_inited s"
  "vr_dev (pset_prepare csr pat op s) = vr_dev s"
  by (simp_all add: pset_prepare_def Let_def split: prod.split)

lemma draw_drawn:
  defines "p \<equiv> \<lambda>g s. pset_prepare (csrw_word g) (ucast (le16 (textw g 0) (textw g 1))) (write_mode g) s"
  shows "drawn (cmd_plane g) (p g s) (gdc_draw ch st g s)"
proof -
  define q where "q = p g s"
  have q: "drawn (cmd_plane g) q q"
    using drawn_refl [of q] plane_sel by (simp add: q_def p_def prepare_obs cmd_plane_def)
  have "drawn (cmd_plane g) q (gdc_draw ch st g s)"
    unfolding gdc_draw_def Let_def q_def [unfolded p_def, symmetric] using q by (auto intro!: drawn_intros)
  then show ?thesis by (simp add: q_def)
qed

lemma serve_obs:
  "\<exists>L. vr_log (gdc_serve ch c s) = vr_log s @ L
      \<and> (\<forall>x\<in>set L. c = GDC_CH_SLAVE \<and> requested s c \<and> in_plane (cmd_plane (snap_of (gdcd_snapw s c))) x)"
  "gdcd_done (gdc_serve ch c s) = gdcd_done s @ (if requested s c then [(c, 1), (c, 0)] else [])"
  "gdcd_status (gdc_serve ch c s) = gdcd_status s" "gdcd_snapw (gdc_serve ch c s) = gdcd_snapw s"
  "bitreverse (gdc_serve ch c s) = bitreverse s" "gdc_inited (gdc_serve ch c s) = gdc_inited s"
proof -
  let ?g = "snap_of (gdcd_snapw s c)"
  let ?p = "pset_prepare (csrw_word ?g) (ucast (le16 (textw ?g 0) (textw ?g 1))) (write_mode ?g) s"
  have rq: "(gdcd_status s c AND push_bit 9 1 = 0) = (\<not> requested s c)"
    unfolding requested_def bit_iff_and_push_bit_not_eq_0 by simp
  define t where "t = (if c \<noteq> GDC_CH_SLAVE then s
                    else if gdcd_status s c AND 0xE4 = 0x20 then gdc_wdat ch ?g s
                    else gdc_draw ch (gdcd_status s c) ?g s)"
  have e: "gdc_serve ch c s = (if requested s c then retire c t else s)"
    unfolding gdc_serve_def Let_def rq t_def by simp
  have d: "draws (cmd_plane ?g) ?p (gdc_draw ch st ?g s)" for st
    using draw_drawn [of ?g s ch st] by (simp add: drawn_def)
  have w: "draws (cmd_plane ?g) s (gdc_wdat ch ?g s)" unfolding cmd_plane_def by (rule wdat_draws)
  have t: "(\<exists>L. vr_log t = vr_log s @ L \<and> (\<forall>x\<in>set L. c = GDC_CH_SLAVE \<and> in_plane (cmd_plane ?g) x))
    \<and> gdcd_done t = gdcd_done s \<and> gdcd_status t = gdcd_status s \<and> gdcd_snapw t = gdcd_snapw s
    \<and> bitreverse t = bitreverse s \<and> gdc_inited t = gdc_inited s"
    using d [of "gdcd_status s c"] w by (auto simp: t_def draws_def prepare_obs)
  then show "\<exists>L. vr_log (gdc_serve ch c s) = vr_log s @ L
      \<and> (\<forall>x\<in>set L. c = GDC_CH_SLAVE \<and> requested s c \<and> in_plane (cmd_plane ?g) x)"
    "gdcd_done (gdc_serve ch c s) = gdcd_done s @ (if requested s c then [(c, 1), (c, 0)] else [])"
    "gdcd_status (gdc_serve ch c s) = gdcd_status s" "gdcd_snapw (gdc_serve ch c s) = gdcd_snapw s"
    "bitreverse (gdc_serve ch c s) = bitreverse s" "gdc_inited (gdc_serve ch c s) = gdc_inited s"
    by (auto simp: e retire_def)
qed

lemma init_obs:
  "vr_log (init_bitreverse s) = vr_log s" "gdcd_done (init_bitreverse s) = gdcd_done s"
  "gdcd_status (init_bitreverse s) = gdcd_status s" "gdcd_snapw (init_bitreverse s) = gdcd_snapw s"
  unfolding init_bitreverse_def
  by (rule for_to_frame [where f = vr_log], simp, rule for_to_frame [where f = gdcd_done], simp,
      rule for_to_frame [where f = gdcd_status], simp, rule for_to_frame [where f = gdcd_snapw], simp)

lemma poll_served:
  defines "i \<equiv> \<lambda>s. if \<not> gdc_inited s then (init_bitreverse s)\<lparr>gdc_inited := True\<rparr> else s"
  shows "gdc_poll ch s = gdc_serve ch GDC_CH_MASTER (gdc_serve ch GDC_CH_SLAVE (i s))"
    "vr_log (i s) = vr_log s" "gdcd_done (i s) = gdcd_done s" "gdcd_status (i s) = gdcd_status s"
    "gdcd_snapw (i s) = gdcd_snapw s"
  by (simp_all add: gdc_poll_def i_def init_obs Let_def)

section \<open>The bit-reversal table\<close>

lemma reverse_byte_bits:
  assumes "n < 8"
  shows "bit (reverse_byte v) n = bit v (7 - n)"
proof -
    define f where "f = (\<lambda>(_ :: nat) (r :: u8, v :: u8). (push_bit 1 r OR (v AND 1), drop_bit 1 v))"
    have "k \<le> 8 \<Longrightarrow> snd (for_to k f (0, v)) = drop_bit k v
        \<and> (\<forall>j<8. bit (fst (for_to k f (0, v))) j = (j < k \<and> bit v (k - 1 - j)))" for k v
    proof (induction k)
      case 0
      show ?case by (simp add: bit_0_eq)
    next
      case (Suc k)
      obtain r w where rw: "for_to k f (0, v) = (r, w)" by fastforce
      from Suc have IH: "w = drop_bit k v" "\<forall>j<8. bit r j = (j < k \<and> bit v (k - 1 - j))" by (simp_all add: rw)
      have key: "bit (push_bit 1 r OR (w AND 1)) j = (if j = 0 then bit w 0 else bit r (j - 1))" if "j < 8" for j
        unfolding bit_or_iff bit_and_iff bit_push_bit_iff bit_1_iff using that by auto
      have "bit (push_bit 1 r OR (w AND 1)) j = (j < Suc k \<and> bit v (k - j))" if "j < 8" for j
        unfolding key [OF that] using that IH by (cases j) (auto simp: bit_drop_bit_eq)
      moreover have "for_to (Suc k) f (0, v) = (push_bit 1 r OR (w AND 1), drop_bit 1 w)"
        unfolding for_to_Suc rw by (simp add: f_def)
      moreover have "drop_bit 1 w = drop_bit (Suc k) v" by (simp only: IH(1) drop_bit_drop_bit) simp
      ultimately show ?case by simp
    qed
    from this [of 8 v] show ?thesis
      using assms unfolding reverse_byte_def f_def by (simp del: for_to_numeral)
qed

end
