(* ===== verification/Gdc_Pixels.thy ===== *)
theory Gdc_Pixels
  imports Gdc_Correct
begin

text \<open>
  The drawing processor against VRAM.  With no charger armed the bus master is a byte store
  (\<open>vram_channel\<close>); over it a dot is a step of an abstract drawing machine that knows only the
  rotating pattern and the visible pixels, and the primitives are runs of that machine over point
  lists computed with ordinary division.
\<close>

section \<open>The bus without a charger\<close>

locale vram_channel =
  fixes ch :: "'g chan" and vram :: "'g \<Rightarrow> u32 \<Rightarrow> u8"
  assumes read_byte:
      "ch g (VRead a) = (g', st) \<Longrightarrow> unat a < 0x100000 \<Longrightarrow>
       vram g' = vram g \<and> ucast (st_spin st 0 ST_POLLS 0 AND 0xFF) = vram g a"
    and write_byte:
      "ch g (VWrite a v) = (g', st) \<Longrightarrow> unat a < 0x100000 \<Longrightarrow> vram g' = (vram g)(a := v)"

definition mem_chan :: "(u32 \<Rightarrow> u8) chan" where
  "mem_chan m c = (case c of
     VRead a \<Rightarrow> (m, \<lambda>k. if k = 0 then ST_PEND else ucast (m a))
   | VWrite a v \<Rightarrow> (m(a := v), \<lambda>k. 0))"

lemma u8_not_pend: "ucast (v :: u8) AND ST_PEND = 0"
proof -
  have "ST_PEND = push_bit 8 1" by (simp add: ST_PEND_def)
  moreover have "\<not> bit (ucast v :: u32) 8" by (simp add: bit_ucast_iff)
  ultimately show ?thesis using bit_iff_and_push_bit_not_eq_0 [of "ucast v :: u32" 8] by auto
qed

interpretation mem: vram_channel mem_chan "\<lambda>m. m"
proof
  fix m :: "u32 \<Rightarrow> u8" and a g' st
  assume run: "mem_chan m (VRead a) = (g', st)"
  have step: "st_spin (\<lambda>k. if k = 0 then ST_PEND else ucast (m a)) 0 (Suc (Suc n)) 0 = ucast (m a)" for n
    by (simp add: u8_not_pend) (simp add: ST_PEND_def)
  have polls: "ST_POLLS = Suc (Suc 1998)" by (simp add: ST_POLLS_def)
  have "st_spin (\<lambda>k. if k = 0 then ST_PEND else ucast (m a)) 0 ST_POLLS 0 = ucast (m a)"
    unfolding polls by (rule step)
  moreover have "(ucast (v :: u8) :: u32) AND 0xFF = ucast v" for v
  proof -
    have e: "(0xFF :: u32) = mask 8" by (simp add: mask_eq_exp_minus_1)
    show ?thesis unfolding e by (rule bit_word_eqI) (auto simp: bit_simps dest: bit_imp_le_length)
  qed
  moreover have "ucast (ucast (v :: u8) :: u32) = v" for v
    by (rule bit_word_eqI) (auto simp: bit_simps)
  ultimately show "g' = m \<and> ucast (st_spin st 0 ST_POLLS 0 AND 0xFF) = m a"
    using run by (auto simp: mem_chan_def)
qed (auto simp: mem_chan_def)

context vram_channel
begin

lemma plane_low: "is_plane b \<Longrightarrow> k < 0x8000 \<Longrightarrow> unat (b + of_nat k) < 0x100000"
  using plane_offset(1) [of b k] plane_cases [of b] by auto

lemma read_eq:
  assumes "is_plane b" "k < 0x8000" "vr_read8 ch (b + of_nat k) s = (v, t)"
  shows "v = vram (vr_dev s) (b + of_nat k)" "\<exists>g L. t = s\<lparr>vr_dev := g, vr_log := L\<rparr> \<and> vram g = vram (vr_dev s)"
proof -
  obtain g st where c: "ch (vr_dev s) (VRead (b + of_nat k)) = (g, st)" by fastforce
  note r = read_byte [OF c plane_low [OF assms(1,2)]]
  have "v = ucast (st_spin st 0 ST_POLLS 0 AND 0xFF)" and t: "t = s\<lparr>vr_dev := g, vr_log := vr_log s @ [VRead (b + of_nat k)]\<rparr>"
    using assms(3) by (auto simp: vr_read8_def vr_access_def plane_offset(2) [OF assms(1,2)] c)
  then show "v = vram (vr_dev s) (b + of_nat k)" "\<exists>g L. t = s\<lparr>vr_dev := g, vr_log := L\<rparr> \<and> vram g = vram (vr_dev s)"
    using r by auto
qed

lemma write_eq:
  assumes "is_plane b" "k < 0x8000"
  shows "\<exists>g L. vr_write8 ch (b + of_nat k) v s = s\<lparr>vr_dev := g, vr_log := L\<rparr>
    \<and> vram g = (vram (vr_dev s))(b + of_nat k := v)"
proof -
  obtain g st where c: "ch (vr_dev s) (VWrite (b + of_nat k) v) = (g, st)" by fastforce
  show ?thesis
    using write_byte [OF c plane_low [OF assms]]
    by (auto simp: vr_write8_def vr_access_def plane_offset(2) [OF assms] c)
qed

end

section \<open>The abstract drawing machine\<close>

definition wrap :: "int \<times> int \<Rightarrow> int \<times> int" where
  "wrap p = (fst p mod 65536, snd p mod 65536)"

definition visible :: "int \<times> int \<Rightarrow> bool" where
  "visible p \<longleftrightarrow> 0 \<le> fst p \<and> 0 \<le> snd p \<and> \<not> off_screen (fst p) (snd p)"

definition pixel :: "(u32 \<Rightarrow> u8) \<Rightarrow> u32 \<Rightarrow> int \<times> int \<Rightarrow> bool" where
  "pixel m b p \<longleftrightarrow> bit (m (b + of_nat (dot_off (fst p) (snd p)))) (7 - nat (fst p mod 8))"

definition new_pixel :: "u8 \<Rightarrow> bool \<Rightarrow> bool \<Rightarrow> bool" where
  "new_pixel op dot old =
     (if op = 0 then dot else if op = 1 then old \<noteq> dot else if op = 2 then old \<and> \<not> dot else old \<or> dot)"

definition rotate_pattern :: "u16 \<Rightarrow> u16" where
  "rotate_pattern p = drop_bit 1 p OR (if odd p then 0x8000 else 0)"

definition spec_dot :: "u8 \<Rightarrow> int \<times> int \<Rightarrow> u16 \<times> (int \<times> int \<Rightarrow> bool) \<Rightarrow> u16 \<times> (int \<times> int \<Rightarrow> bool)" where
  "spec_dot op p st =
     (let (pat, pix) = st; q = wrap p
      in (rotate_pattern pat, if visible q then pix(q := new_pixel op (odd pat) (pix q)) else pix))"

text \<open>What the machine sees of a state: the pattern and the visible pixels of the addressed plane.\<close>

definition screen :: "('g \<Rightarrow> u32 \<Rightarrow> u8) \<Rightarrow> ('g, 'z) gdc_st_scheme \<Rightarrow> u16 \<times> (int \<times> int \<Rightarrow> bool)" where
  "screen vram s = (ps_pattern s, \<lambda>p. visible p \<and> pixel (vram (vr_dev s)) (ps_base s) p)"

definition uncharged :: "('g, 'z) gdc_st_scheme \<Rightarrow> bool" where
  "uncharged s \<longleftrightarrow> \<not> ps_armed s \<and> is_plane (ps_base s) \<and> ps_op s \<in> {0, 1, 2, 3}"

lemma dot_off_inj:
  assumes "visible p" "visible q"
  shows "dot_off (fst p) (snd p) = dot_off (fst q) (snd q) \<and> fst p mod 8 = fst q mod 8 \<longleftrightarrow> p = q"
proof
  assume e: "dot_off (fst p) (snd p) = dot_off (fst q) (snd q) \<and> fst p mod 8 = fst q mod 8"
  have i: "snd p * 80 + fst p div 8 = snd q * 80 + fst q div 8"
    using e dot_off_bound(2) [of "fst p" "snd p"] dot_off_bound(2) [of "fst q" "snd q"] assms
    by (simp add: visible_def)
  have "0 \<le> fst p" "fst p < 640" "0 \<le> fst q" "fst q < 640"
    using assms by (auto simp: visible_def off_screen_def split: if_splits)
  then have b: "0 \<le> fst p div 8" "fst p div 8 < 80" "0 \<le> fst q div 8" "fst q div 8 < 80"
    by presburger+
  have y: "snd p = snd q" using i b by linarith
  then have "fst p div 8 = fst q div 8" using i by simp
  then have "fst p = fst q" using e by (metis mult_div_mod_eq)
  then show "p = q" using y by (simp add: prod_eq_iff)
qed simp

lemma dot_mask: "k < 8 \<Longrightarrow> j < 8 \<Longrightarrow> bit (drop_bit k (0x80 :: u8)) j = (j = 7 - k)"
proof -
  have "(0x80 :: u8) = push_bit 7 1" by simp
  then have "bit (drop_bit k (0x80 :: u8)) j = (k + j = 7 \<and> j < 8)" if "j < 8"
    by (simp only: bit_drop_bit_eq bit_push_bit_iff comp_def bit_1_iff) (use that in auto)
  then show "k < 8 \<Longrightarrow> j < 8 \<Longrightarrow> ?thesis" by auto
qed

lemma dot_op_bit:
  assumes "j < 8" "op \<in> {0, 1, 2, 3}"
  shows "bit (dot_op op dot m v) j = (if bit m j then new_pixel op dot (bit v j) else bit v j)"
  using assms by (auto simp: dot_op_def new_pixel_def bit_simps)

context vram_channel
begin

text \<open>A dot is one step of the abstract machine.\<close>

lemma dot_refines:
  assumes "uncharged s"
  shows "screen vram (pset_pt ch p s) = spec_dot (ps_op s) p (screen vram s)" "uncharged (pset_pt ch p s)"
    "ps_op (pset_pt ch p s) = ps_op s" "ps_x (pset_pt ch p s) = ps_x s" "ps_y (pset_pt ch p s) = ps_y s"
proof -
  define q where "q = wrap p"
  define r where "r = s\<lparr>ps_pattern := rotate_pattern (ps_pattern s)\<rparr>"
  let ?b = "ps_base s" and ?m = "vram (vr_dev s)"
  have b: "is_plane ?b" "\<not> ps_armed s" "ps_op s \<in> {0, 1, 2, 3}" using assms by (simp_all add: uncharged_def)
  have q0: "0 \<le> fst q" "0 \<le> snd q" by (simp_all add: q_def wrap_def)
  have "screen vram (pset_pt ch p s) = spec_dot (ps_op s) p (screen vram s) \<and> uncharged (pset_pt ch p s)
    \<and> ps_op (pset_pt ch p s) = ps_op s \<and> ps_x (pset_pt ch p s) = ps_x s \<and> ps_y (pset_pt ch p s) = ps_y s"
  proof (cases "visible q")
    case False
    then have "off_screen (fst q) (snd q)" using q0 by (simp add: visible_def)
    then have "pset_pt ch p s = r"
      by (simp add: pset_pt_def pset_at_def Let_def q_def wrap_def r_def rotate_pattern_def)
    then show ?thesis
      using False assms by (simp add: screen_def spec_dot_def q_def [symmetric] r_def uncharged_def)
  next
    case True
    then have on: "\<not> off_screen (fst q) (snd q)" by (simp add: visible_def)
    define k where "k = dot_off (fst q) (snd q)"
    have k: "k < 0x8000" unfolding k_def by (rule dot_off_bound(1) [OF q0 on])
    define m :: u8 where "m = drop_bit (nat (fst q mod 8)) 0x80"
    have a: "ps_base r + of_int (snd q) * 80 + of_int (fst q div 8) = ?b + of_nat k"
      unfolding k_def r_def using dot_addr [OF q0 on] by simp
    obtain w t where rd: "vr_read8 ch (?b + of_nat k) r = (w, t)" by fastforce
    from read_eq [OF b(1) k rd] obtain g L where w: "w = ?m (?b + of_nat k)"
      and t: "t = r\<lparr>vr_dev := g, vr_log := L\<rparr>" "vram g = ?m" by (auto simp: r_def)
    let ?v = "dot_op (ps_op s) (odd (ps_pattern s)) m w"
    from write_eq [OF b(1) k, of ?v t] obtain h M where
      wr: "vr_write8 ch (?b + of_nat k) ?v t = t\<lparr>vr_dev := h, vr_log := M\<rparr>" "vram h = ?m(?b + of_nat k := ?v)"
      using t by auto
    have "pset_pt ch p s = (case vr_read8 ch (ps_base r + of_int (snd q) * 80 + of_int (fst q div 8)) r of (w, t) \<Rightarrow>
        vr_write8 ch (ps_base r + of_int (snd q) * 80 + of_int (fst q div 8)) (dot_op (ps_op t) (odd (ps_pattern s)) m w) t)"
      using on b(2) unfolding pset_pt_def pset_at_def Let_def q_def wrap_def fst_conv snd_conv r_def rotate_pattern_def m_def
      by simp
    moreover have "ps_op t = ps_op s" by (simp add: t(1) r_def)
    ultimately have e: "pset_pt ch p s = t\<lparr>vr_dev := h, vr_log := M\<rparr>" by (simp add: a rd wr(1))
    have pix: "pixel (vram h) ?b x = (if x = q then new_pixel (ps_op s) (odd (ps_pattern s)) (pixel ?m ?b q) else pixel ?m ?b x)"
      if x: "visible x" for x
    proof -
      define j where "j = 7 - nat (fst x mod 8)"
      have j: "j < 8" "nat (fst x mod 8) < 8" "nat (fst q mod 8) < 8" by (simp_all add: j_def nat_less_iff)
      have mb: "bit m j = (fst x mod 8 = fst q mod 8)"
      proof -
        have "0 \<le> fst x mod 8" "0 \<le> fst q mod 8" by simp_all
        then have "(nat (fst x mod 8) = nat (fst q mod 8)) = (fst x mod 8 = fst q mod 8)" by (simp add: eq_nat_nat_iff)
        moreover have "(7 - a = 7 - b) = (a = b)" if "a < 8" "b < 8" for a b :: nat using that by auto
        ultimately show ?thesis unfolding m_def dot_mask [OF j(3,1)] unfolding j_def using j(2,3) by simp
      qed
      define l where "l = dot_off (fst x) (snd x)"
      have l: "l < 0x8000" unfolding l_def using x by (intro dot_off_bound(1)) (simp_all add: visible_def)
      have same: "(?b + of_nat l = ?b + of_nat k) = (l = k)"
      proof
        assume "?b + of_nat l = ?b + of_nat k"
        then have "unat (?b + of_nat l) = unat (?b + of_nat k)" by (rule arg_cong)
        then show "l = k" unfolding plane_offset(1) [OF b(1) l] plane_offset(1) [OF b(1) k] by simp
      qed simp
      show ?thesis
      proof (cases "l = k")
        case True
        have "(x = q) = (fst x mod 8 = fst q mod 8)"
          using dot_off_inj [OF x \<open>visible q\<close>] True by (simp add: l_def k_def)
        moreover have "pixel (vram h) ?b x = bit ?v j" "pixel ?m ?b x = bit w j"
          using True by (simp_all add: pixel_def wr(2) l_def [symmetric] j_def w)
        ultimately show ?thesis
          unfolding dot_op_bit [OF j(1) b(3), of "odd (ps_pattern s)" m w] mb by auto
      next
        case False
        then have "x \<noteq> q" by (auto simp: l_def k_def)
        then show ?thesis using False same by (simp add: pixel_def wr(2) l_def)
      qed
    qed
    have "screen vram (pset_pt ch p s) = spec_dot (ps_op s) p (screen vram s)"
      using True pix by (auto simp: e t(1) screen_def spec_dot_def q_def [symmetric] r_def fun_eq_iff)
    then show ?thesis using assms by (simp add: e t(1) r_def uncharged_def)
  qed
  then show "screen vram (pset_pt ch p s) = spec_dot (ps_op s) p (screen vram s)" "uncharged (pset_pt ch p s)"
    "ps_op (pset_pt ch p s) = ps_op s" "ps_x (pset_pt ch p s) = ps_x s" "ps_y (pset_pt ch p s) = ps_y s" by simp_all
qed

text \<open>Hence so is a run of dots.\<close>

lemma dots_refine:
  assumes "uncharged s"
  shows "screen vram (fold (pset_pt ch) ps s) = fold (spec_dot (ps_op s)) ps (screen vram s) \<and> uncharged (fold (pset_pt ch) ps s)
    \<and> ps_op (fold (pset_pt ch) ps s) = ps_op s"
  using assms by (induction ps arbitrary: s) (simp_all add: dot_refines)

end

section \<open>Lines and rectangles as point lists\<close>

lemma for_to_map: "for_to n (\<lambda>i. f (g i)) s = fold f (map g [0..<n]) s"
  by (simp add: for_to_def fold_map comp_def)

lemma low_bound:
  fixes lo hi :: u8
  shows "unat (le16 lo hi AND 0x3FFF) \<le> 0x3FFF" "unat (le16 lo hi) \<le> 0xFFFF"
proof -
  have "le16 lo hi AND 0x3FFF = take_bit 14 (le16 lo hi)" by (simp add: take_bit_eq_mask mask_eq_exp_minus_1)
  then show "unat (le16 lo hi AND 0x3FFF) \<le> 0x3FFF" by (simp add: take_bit_eq_mod unat_mod)
  have "bit (le16 lo hi) n \<Longrightarrow> n < 16" for n
    unfolding le16_def by (auto simp: bit_or_iff bit_push_bit_iff bit_ucast_iff dest!: bit_imp_le_length)
  then have "take_bit 16 (le16 lo hi) = le16 lo hi" by (intro bit_word_eqI) (auto simp: bit_take_bit_iff)
  then have "unat (le16 lo hi) = unat (take_bit 16 (le16 lo hi))" by simp
  then show "unat (le16 lo hi) \<le> 0xFFFF" by (simp add: take_bit_eq_mod unat_mod)
qed

text \<open>The bit-serial divider and the 32-bit product never overflow here: the offset is the exact
  rounded quotient.\<close>

lemma vect_off_exact:
  assumes "unat d1 \<le> 0xFFFF" "dc \<noteq> 0" "unat dc \<le> 0x3FFF" "i \<le> unat dc"
  shows "vect_off d1 dc i = int ((unat d1 * i div unat dc + 1) div 2)"
proof -
  define x where "x = d1 * of_nat i"
  have le: "unat d1 * i \<le> 0xFFFF * 0x3FFF" using assms by (intro mult_le_mono) simp_all
  have "unat (of_nat i :: u32) = i" using assms(3,4) by (simp add: unat_of_nat)
  then have p: "unat x = unat d1 * i" using le by (simp add: x_def unat_word_ariths)
  have q: "unat d1 * i div unat dc \<le> 0xFFFF * 0x3FFF" using le div_le_dividend le_trans by blast
  have "unat (x div dc) = unat d1 * i div unat dc" by (simp add: unat_div p)
  then have "unat (x div dc + 1) = unat d1 * i div unat dc + 1" using q by (simp add: unat_word_ariths)
  then have "unat (drop_bit 1 (x div dc + 1)) = (unat d1 * i div unat dc + 1) div 2"
    by (simp only: unat_drop_bit_eq) (simp add: drop_bit_eq_div)
  then have "uint (drop_bit 1 (x div dc + 1)) = int ((unat d1 * i div unat dc + 1) div 2)"
    by (metis uint_nat)
  then show ?thesis
    using assms(2) by (simp add: vect_off_def udiv32_def udiv_loop_correct x_def)
qed

definition line_points :: "gdc_snap \<Rightarrow> int \<Rightarrow> int \<Rightarrow> (int \<times> int) list" where
  "line_points g x y =
     (let dc = unat (le16 (dc_lo g) (dc_hi g)) mod 0x4000;
          d1 = unat (le16 (d1_lo g) (d1_hi g))
      in map (\<lambda>i. octant (ope g AND 7) x y (int i) (int ((d1 * i div dc + 1) div 2))) [0..<dc + 1])"

lemma low14: "unat (w AND 0x3FFF :: u32) = unat w mod 0x4000"
proof -
  have "w AND 0x3FFF = take_bit 14 w" by (simp add: take_bit_eq_mask mask_eq_exp_minus_1)
  then show ?thesis by (simp add: take_bit_eq_mod unat_mod)
qed

lemma vectl_points:
  "vectl ch g s = fold (pset_pt ch) (line_points g (uint (ps_x s)) (uint (ps_y s))) s"
proof -
  define dc where "dc = le16 (dc_lo g) (dc_hi g) AND 0x3FFF"
  define d1 where "d1 = le16 (d1_lo g) (d1_hi g)"
  have b: "unat d1 \<le> 0xFFFF" "unat dc \<le> 0x3FFF" using low_bound by (simp_all add: d1_def dc_def)
  have u: "unat (le16 (dc_lo g) (dc_hi g)) mod 0x4000 = unat dc" by (simp add: dc_def low14)
  show ?thesis
  proof (cases "dc = 0")
    case True
    then have "line_points g (uint (ps_x s)) (uint (ps_y s)) = [(uint (ps_x s), uint (ps_y s))]"
      by (simp add: line_points_def u Let_def octant_def)
    then show ?thesis using True by (simp add: vectl_def dc_def [symmetric] pset_pt_def)
  next
    case False
    let ?x = "uint (ps_x s)" and ?y = "uint (ps_y s)"
    have "vectl ch g s = for_to (unat dc + 1) (\<lambda>i. pset_pt ch (octant (ope g AND 7) ?x ?y (int i) (vect_off d1 dc i))) s"
      unfolding vectl_def dc_def [symmetric] d1_def [symmetric] Let_def if_not_P [OF False] ..
    also have "\<dots> = fold (pset_pt ch) (map (\<lambda>i. octant (ope g AND 7) ?x ?y (int i) (vect_off d1 dc i)) [0..<unat dc + 1]) s"
      by (rule for_to_map)
    also have "map (\<lambda>i. octant (ope g AND 7) ?x ?y (int i) (vect_off d1 dc i)) [0..<unat dc + 1] = line_points g ?x ?y"
      unfolding line_points_def u d1_def [symmetric] Let_def
      by (rule map_cong [OF refl]) (use vect_off_exact [OF b(1) False b(2)] in auto)
    finally show ?thesis .
  qed
qed

definition side_points :: "nat \<Rightarrow> int \<Rightarrow> int \<Rightarrow> int \<times> int \<Rightarrow> (int \<times> int) list" where
  "side_points n dx dy c = map (\<lambda>i. (fst c + int i * dx, snd c + int i * dy)) [0..<n]"

definition side_end :: "nat \<Rightarrow> int \<Rightarrow> int \<Rightarrow> int \<times> int \<Rightarrow> int \<times> int" where
  "side_end n dx dy c = (fst c + int n * dx, snd c + int n * dy)"

lemma side_eq: "side ch n dx dy (c, s) = (side_end n dx dy c, fold (pset_pt ch) (side_points n dx dy c) s)"
proof (induction n)
  case 0
  then show ?case by (simp add: side_def side_end_def side_points_def)
next
  case (Suc n)
  then show ?case
    by (simp add: side_def for_to_Suc side_end_def side_points_def algebra_simps)
qed

text \<open>The rectangle: four sides, each starting where the one before ended, the last one ending at
  the start.\<close>

definition rect_points :: "gdc_snap \<Rightarrow> int \<times> int \<Rightarrow> (int \<times> int) list" where
  "rect_points g c =
     (let d = unat (le16 (d_lo g) (d_hi g)) mod 0x4000;
          e = unat (le16 (d2_lo g) (d2_hi g)) mod 0x4000;
          (dx, dy, ex, ey) = vectdir ! unat (ope g AND 7);
          c1 = side_end d dx dy c;
          c2 = side_end e ex ey c1;
          c3 = side_end e ex ey c
      in side_points d dx dy c @ side_points e ex ey c1
         @ side_points d (- dx) (- dy) c2 @ side_points e (- ex) (- ey) c3)"

lemma vectr_points:
  "vectr ch g s = fold (pset_pt ch) (rect_points g (uint (ps_x s), uint (ps_y s))) s"
proof -
  obtain dx dy ex ey where v: "vectdir ! unat (ope g AND 7) = (dx, dy, ex, ey)" by (metis prod.collapse)
  have home: "side_end d (- dx) (- dy) (side_end e ex ey (side_end d dx dy c)) = side_end e ex ey c" for d e c
    by (simp add: side_end_def algebra_simps)
  show ?thesis
    by (simp add: vectr_def rect_points_def v side_eq home low14 Let_def)
qed

text \<open>What an outline is, without the order of its dots: the lattice points at \<open>a\<close> steps along the first
  direction and \<open>b\<close> along the second, on the border of the \<open>D\<close> by \<open>D2\<close> grid.\<close>

definition rect_at :: "gdc_snap \<Rightarrow> int \<times> int \<Rightarrow> nat \<times> nat \<Rightarrow> int \<times> int" where
  "rect_at g c ab =
     (let (dx, dy, ex, ey) = vectdir ! unat (ope g AND 7)
      in (fst c + int (fst ab) * dx + int (snd ab) * ex, snd c + int (fst ab) * dy + int (snd ab) * ey))"

definition border :: "nat \<Rightarrow> nat \<Rightarrow> (nat \<times> nat) set" where
  "border d e = {(a, b). a \<le> d \<and> b \<le> e \<and> (a = 0 \<or> a = d \<or> b = 0 \<or> b = e)}"

text \<open>Neighbours: one step along either direction, forwards or back.\<close>

definition one_step :: "gdc_snap \<Rightarrow> int \<times> int \<Rightarrow> int \<times> int \<Rightarrow> bool" where
  "one_step g p q \<longleftrightarrow>
     (let (dx, dy, ex, ey) = vectdir ! unat (ope g AND 7); v = (fst q - fst p, snd q - snd p)
      in v = (dx, dy) \<or> v = (ex, ey) \<or> v = (- dx, - dy) \<or> v = (- ex, - ey))"

definition rect_d :: "gdc_snap \<Rightarrow> nat" where
  "rect_d g = unat (le16 (d_lo g) (d_hi g)) mod 0x4000"

definition rect_d2 :: "gdc_snap \<Rightarrow> nat" where
  "rect_d2 g = unat (le16 (d2_lo g) (d2_hi g)) mod 0x4000"

text \<open>The grid points in drawing order.\<close>

definition outline :: "nat \<Rightarrow> nat \<Rightarrow> (nat \<times> nat) list" where
  "outline d e = map (\<lambda>i. (i, 0)) [0..<d] @ map (\<lambda>i. (d, i)) [0..<e]
     @ map (\<lambda>i. (d - i, e)) [0..<d] @ map (\<lambda>i. (0, e - i)) [0..<e]"

lemma rect_points_outline: "rect_points g c = map (rect_at g c) (outline (rect_d g) (rect_d2 g))"
proof -
  obtain dx dy ex ey where v: "vectdir ! unat (ope g AND 7) = (dx, dy, ex, ey)" by (metis prod.collapse)
  show ?thesis
    by (simp add: rect_points_def outline_def rect_at_def v rect_d_def rect_d2_def side_points_def side_end_def
        of_nat_diff algebra_simps Let_def)
qed

lemma outline_distinct: "0 < d \<Longrightarrow> 0 < e \<Longrightarrow> distinct (outline d e)"
  by (auto simp: outline_def distinct_map inj_on_def)

lemma length_outline: "length (outline d e) = 2 * (d + e)"
  by (simp add: outline_def)

lemma outline_border:
  assumes "0 < d \<or> 0 < e"
  shows "set (outline d e) = border d e"
proof -
  have "p \<in> set (outline d e)" if in_border: "p \<in> border d e" for p
  proof -
    obtain a b where p: "p = (a, b)" "a \<le> d" "b \<le> e" "a = 0 \<or> a = d \<or> b = 0 \<or> b = e"
      using in_border by (auto simp: border_def)
    consider "b = 0" "a < d" | "a = d" "b < e" | "b = e" "0 < a" | "a = 0" "0 < b"
      using p assms by linarith
    then show ?thesis
    proof cases
      case 3
      then have "p = (d - (d - a), e)" "d - a < d" using p by auto
      then show ?thesis unfolding outline_def set_append set_map by (metis UnCI image_eqI atLeastLessThan_iff set_upt zero_le)
    next
      case 4
      then have "p = (0, e - (e - b))" "e - b < e" using p by auto
      then show ?thesis unfolding outline_def set_append set_map by (metis UnCI image_eqI atLeastLessThan_iff set_upt zero_le)
    qed (use p in \<open>auto simp: outline_def\<close>)
  qed
  moreover have "set (outline d e) \<subseteq> border d e" by (auto simp: outline_def border_def)
  ultimately show ?thesis by blast
qed

lemma dirs_cases:
  assumes "vectdir ! unat (w AND 7 :: u8) = (dx, dy, ex, ey)"
  shows "dx * ey \<noteq> dy * ex"
proof -
  have "unat (w AND 7) \<le> 7" using word_and_le1 [of w 7] by (simp add: word_le_nat_alt)
  then have "unat (w AND 7) \<in> {0, 1, 2, 3, 4, 5, 6, 7}" by auto
  then show ?thesis using assms by (auto simp: vectdir_def)
qed

lemma rect_at_inj: "inj (rect_at g c)"
proof (rule injI)
  fix p q assume eq: "rect_at g c p = rect_at g c q"
  obtain dx dy ex ey where v: "vectdir ! unat (ope g AND 7) = (dx, dy, ex, ey)" by (metis prod.collapse)
  define a where "a = int (fst p) - int (fst q)"
  define b where "b = int (snd p) - int (snd q)"
  have 1: "a * dx + b * ex = 0" "a * dy + b * ey = 0"
    using eq by (simp_all add: rect_at_def v a_def b_def algebra_simps)
  define k where "k = dx * ey - dy * ex"
  have "a * k = (a * dx + b * ex) * ey - (a * dy + b * ey) * ex"
    "b * k = (a * dy + b * ey) * dx - (a * dx + b * ex) * dy" by (simp_all add: k_def algebra_simps)
  then have "a * k = 0" "b * k = 0" using 1 by simp_all
  moreover have "k \<noteq> 0" using dirs_cases [OF v] by (simp add: k_def)
  ultimately have "a = 0" "b = 0" by simp_all
  then show "p = q" by (simp add: a_def b_def prod_eq_iff)
qed

text \<open>Each side leads one step at a time to the next one's start.\<close>

lemma side_walk:
  assumes "successively R (p # ys)" "p = side_end n dx dy c"
    and "\<And>q. R q (fst q + dx, snd q + dy)"
  shows "successively R (side_points n dx dy c @ p # ys)" "hd (side_points n dx dy c @ p # ys) = c"
proof -
  show "successively R (side_points n dx dy c @ p # ys)"
    using assms(1,2)
  proof (induction n arbitrary: p ys)
    case 0
    then show ?case by (simp add: side_points_def)
  next
    case (Suc n)
    let ?q = "side_end n dx dy c"
    have "R ?q p" using assms(3) [of ?q] Suc.prems(2) by (simp add: side_end_def algebra_simps)
    then have "successively R (?q # p # ys)" using Suc.prems(1) by simp
    from Suc.IH [OF this refl] show ?case by (simp add: side_points_def side_end_def)
  qed
  show "hd (side_points n dx dy c @ p # ys) = c"
    using assms(2) by (cases n) (simp_all add: side_points_def side_end_def upt_rec)
qed

lemma rect_closed:
  "successively (one_step g) (rect_points g c @ [c])" "hd (rect_points g c @ [c]) = c"
proof -
  obtain dx dy ex ey where v: "vectdir ! unat (ope g AND 7) = (dx, dy, ex, ey)" by (metis prod.collapse)
  have st: "one_step g q (fst q + dx, snd q + dy)" "one_step g q (fst q + ex, snd q + ey)"
    "one_step g q (fst q + - dx, snd q + - dy)" "one_step g q (fst q + - ex, snd q + - ey)" for q
    by (simp_all add: one_step_def v)
  let ?d = "rect_d g" and ?e = "rect_d2 g"
  define c1 where "c1 = side_end ?d dx dy c"
  define c2 where "c2 = side_end ?e ex ey c1"
  define c3 where "c3 = side_end ?e ex ey c"
  define s4 where "s4 = side_points ?e (- ex) (- ey) c3 @ [c]"
  define s3 where "s3 = side_points ?d (- dx) (- dy) c2 @ s4"
  define s2 where "s2 = side_points ?e ex ey c1 @ s3"
  have rp: "rect_points g c @ [c] = side_points ?d dx dy c @ s2"
    by (simp add: rect_points_def v s2_def s3_def s4_def c1_def c2_def c3_def rect_d_def rect_d2_def Let_def)
  have e: "c = side_end ?e (- ex) (- ey) c3" "c3 = side_end ?d (- dx) (- dy) c2"
    by (simp_all add: c1_def c2_def c3_def side_end_def algebra_simps)
  have 4: "successively (one_step g) s4 \<and> hd s4 = c3"
    using side_walk [where R = "one_step g" and p = c and ys = "[]" and dx = "- ex" and dy = "- ey", OF _ e(1) st(4)]
    by (simp add: s4_def)
  then obtain t4 where "s4 = c3 # t4" by (cases s4) (auto simp: s4_def)
  then have 3: "successively (one_step g) s3 \<and> hd s3 = c2"
    using 4 side_walk [where R = "one_step g" and p = c3 and ys = t4 and dx = "- dx" and dy = "- dy", OF _ e(2) st(3)]
    by (simp add: s3_def)
  then obtain t3 where "s3 = c2 # t3" by (cases s3) (auto simp: s3_def s4_def)
  then have 2: "successively (one_step g) s2 \<and> hd s2 = c1"
    using 3 side_walk [where R = "one_step g" and p = c2 and ys = t3 and dx = ex and dy = ey, OF _ c2_def st(2)]
    by (simp add: s2_def)
  then obtain t2 where "s2 = c1 # t2" by (cases s2) (auto simp: s2_def s3_def s4_def)
  then show "successively (one_step g) (rect_points g c @ [c])" "hd (rect_points g c @ [c]) = c"
    using 2 side_walk [where R = "one_step g" and p = c1 and ys = t2 and dx = dx and dy = dy, OF _ c1_def st(1)]
    by (simp_all add: rp)
qed

section \<open>Block writes\<close>

text \<open>Word \<open>w\<close> of the plane at \<open>b\<close>.\<close>

definition vword :: "(u32 \<Rightarrow> u8) \<Rightarrow> u32 \<Rightarrow> nat \<Rightarrow> u16" where
  "vword m b w = ucast (m (b + of_nat (2 * w))) OR push_bit 8 (ucast (m (b + of_nat (2 * w + 1))))"

lemma word_bytes:
  fixes v :: u16
  shows "ucast (ucast v :: u8) OR push_bit 8 (ucast (ucast (drop_bit 8 v) :: u8)) = v"
proof (rule bit_word_eqI)
  fix n assume "n < LENGTH(16)"
  then show "bit (ucast (ucast v :: u8) OR push_bit 8 (ucast (ucast (drop_bit 8 v) :: u8)) :: u16) n = bit v n"
    by (cases "n < 8") (auto simp: bit_simps)
qed

lemma wdat_next_word:
  assumes "w < 0x4000"
  shows "(of_nat (2 * w) + 2 :: u32) AND 0x7FFE = of_nat (2 * ((w + 1) mod 0x4000))"
proof (cases "w + 1 = 0x4000")
  case True
  then have "(of_nat (2 * w) + 2 :: u32) = of_nat 0x8000" by (simp flip: of_nat_add)
  then show ?thesis using True by simp
next
  case False
  define x :: u32 where "x = of_nat (w + 1)"
  have ux: "unat x = w + 1" using assms by (simp add: x_def unat_of_nat del: of_nat_add of_nat_Suc)
  have "unat (take_bit 14 x) = unat x" using False assms by (simp add: unsigned_take_bit_eq ux take_bit_nat_eq_self)
  then have t: "take_bit 14 x = x" by (rule word_unat_eq_iff [THEN iffD2])
  have hb: "\<not> bit x n" if "14 \<le> n" for n using that t bit_take_bit_iff [of 14 x n] by simp
  have m: "(0x7FFE :: u32) = push_bit 1 (mask 14)" by (simp add: mask_eq_exp_minus_1)
  have "push_bit 1 x AND 0x7FFE = push_bit 1 x"
    unfolding m by (rule bit_word_eqI) (use hb in \<open>auto simp: bit_and_iff bit_push_bit_iff bit_mask_iff not_less intro: ccontr simp del: push_bit_of_1 push_bit_Suc\<close>)
  moreover have "push_bit 1 x = of_nat (2 * (w + 1))" by (simp add: x_def)
  moreover have "of_nat (2 * w) + 2 = (of_nat (2 * (w + 1)) :: u32)" by simp
  moreover have "(w + 1) mod 0x4000 = w + 1" using False assms by simp
  ultimately show ?thesis by (simp only:)
qed

context vram_channel
begin

text \<open>One round rewrites one word and moves to the next, around the plane.\<close>

lemma wdat_round:
  fixes s :: "('g, 'z) gdc_st_scheme" and msk data :: u16 and mode :: u8
  assumes b: "is_plane b" and w: "w < 0x4000"
  defines "r \<equiv> wdat_word ch b mode msk data (of_nat (2 * w), s)"
  shows "fst r = of_nat (2 * ((w + 1) mod 0x4000))"
    "i < 0x4000 \<Longrightarrow> vword (vram (vr_dev (snd r))) b i
      = (if i = w then wdat_op mode msk data (vword (vram (vr_dev s)) b i) else vword (vram (vr_dev s)) b i)"
proof -
  let ?a = "b + of_nat (2 * w)" and ?c = "b + of_nat (2 * w + 1)"
  have k: "2 * w < 0x8000" "2 * w + 1 < 0x8000" using w by simp_all
  have c: "b + of_nat (2 * w) + 1 = ?c" by simp
  obtain lo s1 where 1: "vr_read8 ch ?a s = (lo, s1)" by fastforce
  obtain hi s2 where 2: "vr_read8 ch ?c s1 = (hi, s2)" by fastforce
  note r1 = read_eq [OF b k(1) 1] and r2 = read_eq [OF b k(2) 2]
  have m2: "vram (vr_dev s2) = vram (vr_dev s)" using r1(2) r2(2) by auto
  have m1: "vram (vr_dev s1) = vram (vr_dev s)" using r1(2) by auto
  define v where "v = wdat_op mode msk data (vword (vram (vr_dev s)) b w)"
  have lohi: "ucast lo OR push_bit 8 (ucast hi) = vword (vram (vr_dev s)) b w"
    unfolding vword_def r1(1) r2(1) m1 ..
  define s3 where "s3 = vr_write8 ch ?a (ucast v) s2"
  define s4 where "s4 = vr_write8 ch ?c (ucast (drop_bit 8 v)) s3"
  have m3: "vram (vr_dev s3) = (vram (vr_dev s))(?a := ucast v)"
    using write_eq [OF b k(1), of "ucast v" s2] m2 by (auto simp: s3_def)
  have m4: "vram (vr_dev s4) = (vram (vr_dev s))(?a := ucast v, ?c := ucast (drop_bit 8 v))"
    using write_eq [OF b k(2), of "ucast (drop_bit 8 v)" s3] m3 by (auto simp: s4_def)
  have r: "r = ((of_nat (2 * w) + 2) AND 0x7FFE, s4)"
    unfolding r_def wdat_word_def Let_def prod.case 1 c 2 lohi v_def [symmetric] s3_def [symmetric] s4_def [symmetric] ..
  show "fst r = of_nat (2 * ((w + 1) mod 0x4000))" unfolding r fst_conv by (rule wdat_next_word [OF w])
  have inj: "(b + of_nat j = b + of_nat l) = (j = l)" if "j < 0x8000" "l < 0x8000" for j l
  proof
    assume "b + of_nat j = b + of_nat l"
    then have "unat (b + of_nat j) = unat (b + of_nat l)" by (rule arg_cong)
    then show "j = l" unfolding plane_offset(1) [OF b that(1)] plane_offset(1) [OF b that(2)] by simp
  qed simp
  have main: "vword (vram (vr_dev s4)) b i = (if i = w then v else vword (vram (vr_dev s)) b i)" if i: "i < 0x4000"
  proof (cases "i = w")
    case True
    then show "vword (vram (vr_dev s4)) b i = (if i = w then v else vword (vram (vr_dev s)) b i)"
      using inj [OF k] by (simp only: vword_def m4 fun_upd_apply if_True) (simp add: word_bytes)
  next
    case False
    have "2 * i < 0x8000" "2 * i + 1 < 0x8000" using i by simp_all
    moreover have "2 * i \<noteq> 2 * w" "2 * i \<noteq> 2 * w + 1" "2 * i + 1 \<noteq> 2 * w" "2 * i + 1 \<noteq> 2 * w + 1"
      using False by presburger+
    ultimately show "vword (vram (vr_dev s4)) b i = (if i = w then v else vword (vram (vr_dev s)) b i)"
      using inj k False by (simp only: vword_def m4 fun_upd_apply if_False)
  qed
  then show "i < 0x4000 \<Longrightarrow> vword (vram (vr_dev (snd r))) b i
      = (if i = w then wdat_op mode msk data (vword (vram (vr_dev s)) b i) else vword (vram (vr_dev s)) b i)"
    unfolding r snd_conv v_def by simp
qed

lemma wdat_rounds:
  fixes s :: "('g, 'z) gdc_st_scheme" and msk data :: u16 and mode :: u8
  assumes b: "is_plane b" and w: "w < 0x4000" and n: "n \<le> 0x4000"
  defines "r \<equiv> for_to n (\<lambda>_. wdat_word ch b mode msk data) (of_nat (2 * w), s)"
  shows "fst r = of_nat (2 * ((w + n) mod 0x4000)) \<and>
    (\<forall>i<0x4000. vword (vram (vr_dev (snd r))) b i
      = (if (i + 0x4000 - w) mod 0x4000 < n then wdat_op mode msk data (vword (vram (vr_dev s)) b i)
         else vword (vram (vr_dev s)) b i))"
  using n unfolding r_def
proof (induction n)
  case 0
  then show ?case using w by simp
next
  case (Suc n)
  define t where "t = for_to n (\<lambda>_. wdat_word ch b mode msk data) (of_nat (2 * w), s)"
  define p where "p = (w + n) mod 0x4000"
  have IH: "fst t = of_nat (2 * p)" "\<forall>i<0x4000. vword (vram (vr_dev (snd t))) b i
      = (if (i + 0x4000 - w) mod 0x4000 < n then wdat_op mode msk data (vword (vram (vr_dev s)) b i)
         else vword (vram (vr_dev s)) b i)"
    using Suc by (simp_all add: t_def p_def)
  have te: "t = (of_nat (2 * p), snd t)" by (simp add: prod_eq_iff IH(1))
  have p: "p < 0x4000" by (simp add: p_def)
  note r = wdat_round [OF b p, where mode = mode and msk = msk and data = data and s = "snd t", folded te]
  have s: "for_to (Suc n) (\<lambda>_. wdat_word ch b mode msk data) (of_nat (2 * w), s) = wdat_word ch b mode msk data t"
    by (simp add: for_to_Suc t_def)
  have dist: "(i + 0x4000 - w) mod 0x4000 = n \<longleftrightarrow> i = p" if "i < 0x4000" for i
  proof -
    have i: "(i + 0x4000 - w) mod 0x4000 = (if w \<le> i then i - w else i + 0x4000 - w)"
    proof (cases "w \<le> i")
      case True
      then have "i + 0x4000 - w = (i - w) + 0x4000" using w by simp
      then have "(i + 0x4000 - w) mod 0x4000 = (i - w) mod 0x4000" by (simp only: mod_add_self2)
      then show ?thesis using True that by simp
    next
      case False
      then show ?thesis using w by simp
    qed
    have "p = (if w + n < 0x4000 then w + n else w + n - 0x4000)"
      using w Suc.prems by (simp add: p_def le_mod_geq)
    then show ?thesis unfolding i using that w Suc.prems by auto
  qed
  have "(p + 1) mod 0x4000 = (w + Suc n) mod 0x4000" by (simp add: p_def mod_Suc_eq)
  then show ?case
    unfolding s using r IH(2) dist by (auto simp: less_Suc_eq)
qed

lemma wdat_effect:
  assumes "wdat_operands g = Some (msk, data)" and "wdat_count g \<le> 0x4000" and "i < 0x4000"
  defines "b \<equiv> cmd_plane g" and "w \<equiv> unat (csrw_word g) mod 0x4000"
  shows "vword (vram (vr_dev (gdc_wdat ch g s))) b i
      = (if (i + 0x4000 - w) mod 0x4000 < wdat_count g
         then wdat_op (write_mode g AND 3) msk (data AND msk) (vword (vram (vr_dev s)) b i)
         else vword (vram (vr_dev s)) b i)"
proof -
  have a: "push_bit 1 (csrw_word g AND 0x3FFF) = of_nat (2 * w)"
  proof -
    have "csrw_word g AND 0x3FFF = of_nat w" by (metis low14 w_def of_nat_unat ucast_id)
    then show ?thesis by simp
  qed
  have "is_plane b" unfolding b_def cmd_plane_def by (rule plane_sel)
  moreover have "gdc_wdat ch g s = snd (for_to (wdat_count g)
      (\<lambda>_. wdat_word ch b (write_mode g AND 3) msk (data AND msk)) (of_nat (2 * w), s))"
    unfolding gdc_wdat_def assms(1) option.case prod.case Let_def a b_def cmd_plane_def ..
  moreover have "w < 0x4000" by (simp add: w_def)
  ultimately show ?thesis
    using wdat_rounds [of b w "wdat_count g" "write_mode g AND 3" msk "data AND msk" s] assms(2,3) by simp
qed

end

end
