(* ===== verification/Gdc_Props.thy ===== *)
theory Gdc_Props
  imports Gdc_Pixels
begin

text \<open>
  The properties of the drawing processor, each with a command it applies to.
\<close>

section \<open>A machine to draw on\<close>

text \<open>Blank VRAM, no charger, and the given snapshot words pending on the slave.\<close>

definition gdc_demo :: "(nat \<Rightarrow> u32) \<Rightarrow> (u32 \<Rightarrow> u8) gdc_st" where
  "gdc_demo w = \<lparr>vr_dev = (\<lambda>_. 0), vr_log = [], st_accel = 0, gdcd_status = (\<lambda>c. if c = 1 then 0x26C else 0),
     gdcd_snapw = (\<lambda>_. w), gdcd_done = [], bitreverse = (\<lambda>_. 0), gdc_inited = False,
     ps_pattern = 0xFFFF, ps_x = 8, ps_y = 2, ps_base = 0xA8000, ps_op = 3, ps_armed = False,
     ps_rmw = False, ps_egc = False\<rparr>"

section \<open>The service loop\<close>

text \<open>C30: Whatever snapshot the guest leaves and whatever the VRAM bus answers, one pass of the
  service accesses only the 32 KB window of the plane the slave's address register selects, and
  nothing at all when the slave has no command pending.\<close>

theorem gdc_poll_confined:
  "\<exists>L. vr_log (gdc_poll ch s) = vr_log s @ L
     \<and> list_all (\<lambda>c. requested s GDC_CH_SLAVE \<and> in_plane (cmd_plane (snap_of (gdcd_snapw s GDC_CH_SLAVE))) c) L"
proof -
  define i where "i = (if \<not> gdc_inited s then (init_bitreverse s)\<lparr>gdc_inited := True\<rparr> else s)"
  define u where "u = gdc_serve ch GDC_CH_SLAVE i"
  note p = poll_served [where s = s, folded i_def]
  have r: "requested i c = requested s c" for c by (simp add: requested_def p(4))
  obtain L1 where 1: "vr_log u = vr_log s @ L1"
    "\<forall>x\<in>set L1. requested s GDC_CH_SLAVE \<and> in_plane (cmd_plane (snap_of (gdcd_snapw s GDC_CH_SLAVE))) x"
    using serve_obs(1) [of ch GDC_CH_SLAVE i] by (auto simp: u_def p(2,5) r)
  have "vr_log (gdc_serve ch GDC_CH_MASTER u) = vr_log u"
    using serve_obs(1) [of ch GDC_CH_MASTER u] by (auto simp: GDC_CH_MASTER_def GDC_CH_SLAVE_def)
  then show ?thesis using 1 by (auto simp: p(1) u_def [symmetric] list_all_iff)
qed

text \<open>C31: One pass retires every pending command exactly once, the slave's before the master's: the
  done register goes to one and back to zero, so the guest waiting on a command is released by
  the pass that sees it, and no other command is reported done.\<close>

theorem gdc_poll_retires:
  "gdcd_done (gdc_poll ch s) = gdcd_done s
     @ (if requested s GDC_CH_SLAVE then [(GDC_CH_SLAVE, 1), (GDC_CH_SLAVE, 0)] else [])
     @ (if requested s GDC_CH_MASTER then [(GDC_CH_MASTER, 1), (GDC_CH_MASTER, 0)] else [])"
proof -
  define i where "i = (if \<not> gdc_inited s then (init_bitreverse s)\<lparr>gdc_inited := True\<rparr> else s)"
  note p = poll_served [where s = s, folded i_def]
  show ?thesis
    unfolding p(1) serve_obs(2) by (simp add: p(3) requested_def serve_obs(3) p(4))
qed

section \<open>Drawing\<close>

text \<open>C28: With no charger armed, VECTL draws the line the abstract machine draws: dots at the major
  axis steps 0 to DC with the minor offset the exact rounded quotient, in that order, each under
  the rotating pattern and the raster operation, clipped to the visible area; no other visible
  pixel of the plane changes.\<close>

theorem gdc_line_refines:
  assumes "vram_channel ch vram" and "uncharged s"
  shows "screen vram (vectl ch g s)
    = fold (spec_dot (ps_op s)) (line_points g (uint (ps_x s)) (uint (ps_y s))) (screen vram s)"
  unfolding vectl_points using vram_channel.dots_refine [OF assms] by simp

definition line_cmd :: gdc_snap where
  "line_cmd = snap_of (\<lambda>i. if i = 0 then pack4 9 3 0 0 else if i = 1 then pack4 0 0 0 1 else 0)"

lemma gdc_demo_uncharged: "uncharged (gdc_demo w)"
  by (simp add: uncharged_def gdc_demo_def is_plane_def plane_base_def)

theorem gdc_line_refines_witness:
  "screen (\<lambda>m. m) (vectl mem_chan line_cmd (gdc_demo (\<lambda>_. 0)))
     = fold (spec_dot 3) (line_points line_cmd 8 2) (screen (\<lambda>m. m) (gdc_demo (\<lambda>_. 0)))"
  using gdc_line_refines [OF mem.vram_channel_axioms gdc_demo_uncharged [of "\<lambda>_. 0"], where g = line_cmd]
  by (simp add: gdc_demo_def)

text \<open>C32: With no charger armed, VECTR draws a closed outline.  The dots it makes, each under the
  pattern and the raster operation, clipped to the visible area, form a walk that begins at the
  cursor, moves one step along one of the command's two directions at a time and comes back to the
  cursor.  It makes 2 (D + D2) dots; unless both are zero they are exactly the border of the D by D2 grid
  the two directions span; and when neither is zero each border point, the corners included, is
  drawn once.\<close>

theorem gdc_rectangle_refines:
  assumes "vram_channel ch vram" and "uncharged s" and "c = (uint (ps_x s), uint (ps_y s))"
  shows "\<exists>ps. screen vram (vectr ch g s) = fold (spec_dot (ps_op s)) ps (screen vram s)
    \<and> hd (ps @ [c]) = c \<and> successively (one_step g) (ps @ [c])
    \<and> length ps = 2 * (rect_d g + rect_d2 g)
    \<and> (0 < rect_d g \<or> 0 < rect_d2 g \<longrightarrow> set ps = rect_at g c ` border (rect_d g) (rect_d2 g))
    \<and> (0 < rect_d g \<and> 0 < rect_d2 g \<longrightarrow> distinct ps)"
proof (intro exI conjI impI)
  let ?ps = "rect_points g c"
  show "screen vram (vectr ch g s) = fold (spec_dot (ps_op s)) ?ps (screen vram s)"
    unfolding vectr_points assms(3) using vram_channel.dots_refine [OF assms(1,2)] by simp
  show "hd (?ps @ [c]) = c" "successively (one_step g) (?ps @ [c])" by (rule rect_closed)+
  show "length ?ps = 2 * (rect_d g + rect_d2 g)" by (simp add: rect_points_outline length_outline)
  show "set ?ps = rect_at g c ` border (rect_d g) (rect_d2 g)" if "0 < rect_d g \<or> 0 < rect_d2 g"
    using outline_border [OF that] by (simp add: rect_points_outline)
  show "distinct ?ps" if "0 < rect_d g \<and> 0 < rect_d2 g"
    using outline_distinct [of "rect_d g" "rect_d2 g"] that inj_on_subset [OF rect_at_inj subset_UNIV]
    by (simp add: rect_points_outline distinct_map)
qed

text \<open>VECTR downwards and to the right, 2 by 3.\<close>

definition rect_cmd :: gdc_snap where
  "rect_cmd = snap_of (\<lambda>i. if i = 0 then pack4 0x40 0 0 2 else if i = 1 then pack4 0 3 0 0 else 0)"

lemma rect_cmd_fields: "rect_d rect_cmd = 2" "rect_d2 rect_cmd = 3"
  "vectdir ! unat (ope rect_cmd AND 7) = (0, 1, 1, 0)"
proof -
  have "d_lo rect_cmd = 2" "d_hi rect_cmd = 0" "d2_lo rect_cmd = 3" "d2_hi rect_cmd = 0" "ope rect_cmd = 0x40"
    by (simp_all add: rect_cmd_def snap_of_def Let_def lane_simps)
  then show "rect_d rect_cmd = 2" "rect_d2 rect_cmd = 3" "vectdir ! unat (ope rect_cmd AND 7) = (0, 1, 1, 0)"
    by (simp_all add: rect_d_def rect_d2_def le16_def vectdir_def)
qed

text \<open>A solid pattern under the OR operation lights exactly the dots.\<close>

lemma solid_dots:
  assumes "list_all visible ps" "list_all (\<lambda>p. wrap p = p) ps"
  shows "fold (spec_dot 3) ps (0xFFFF, A) = (0xFFFF, \<lambda>p. p \<in> set ps \<or> A p)"
  using assms
proof (induction ps arbitrary: A)
  case (Cons p ps)
  have "rotate_pattern 0xFFFF = 0xFFFF" by (simp add: rotate_pattern_def)
  then have "spec_dot 3 p (0xFFFF, A) = (0xFFFF, A(p := True))"
    using Cons.prems by (simp add: spec_dot_def new_pixel_def)
  then show ?case using Cons by (auto simp: fun_eq_iff)
qed simp

theorem gdc_rectangle_refines_witness:
  "snd (screen (\<lambda>m. m) (vectr mem_chan rect_cmd (gdc_demo (\<lambda>_. 0))))
     = (\<lambda>p. p \<in> {(8, 2), (8, 3), (8, 4), (9, 4), (10, 4), (11, 4), (11, 3), (11, 2), (10, 2), (9, 2)})"
proof -
  have "(8, 2) = (uint (ps_x (gdc_demo (\<lambda>_. 0))), uint (ps_y (gdc_demo (\<lambda>_. 0))))" by (simp add: gdc_demo_def)
  from gdc_rectangle_refines [OF mem.vram_channel_axioms gdc_demo_uncharged this, where g = rect_cmd]
  obtain ps where ps: "screen (\<lambda>m. m) (vectr mem_chan rect_cmd (gdc_demo (\<lambda>_. 0)))
      = fold (spec_dot 3) ps (screen (\<lambda>m. m) (gdc_demo (\<lambda>_. 0)))"
    "set ps = rect_at rect_cmd (8, 2) ` border 2 3"
    by (auto simp: rect_cmd_fields gdc_demo_def)
  have "border 2 3 = {(0, 0), (1, 0), (2, 0), (2, 1), (2, 2), (2, 3), (1, 3), (0, 3), (0, 2), (0, 1)}"
    by (auto simp: border_def)
  then have set: "set ps = {(8, 2), (8, 3), (8, 4), (9, 4), (10, 4), (11, 4), (11, 3), (11, 2), (10, 2), (9, 2)}"
    by (simp add: ps(2) rect_at_def rect_cmd_fields)
  have blank: "screen (\<lambda>m. m) (gdc_demo (\<lambda>_. 0)) = (0xFFFF, \<lambda>_. False)"
    by (simp add: screen_def gdc_demo_def pixel_def)
  have "list_all visible ps" "list_all (\<lambda>p. wrap p = p) ps"
    unfolding list_all_iff set by (simp_all add: visible_def off_screen_def wrap_def)
  from solid_dots [OF this, of "\<lambda>_. False"] show ?thesis unfolding ps(1) blank set by simp
qed

text \<open>C29: With no charger armed, a block write of at most a plane's 16384 words applies the selected
  operation, under the mask, to exactly the DC + 1 words from the cursor on, wrapping at the end
  of the plane, and leaves every other word of the plane alone.\<close>

theorem gdc_wdat_effect:
  assumes "vram_channel ch vram" and "wdat_operands g = Some (msk, data)"
    and "wdat_count g \<le> 0x4000" and "i < 0x4000"
  shows "vword (vram (vr_dev (gdc_wdat ch g s))) (cmd_plane g) i
      = (if (i + 0x4000 - unat (csrw_word g) mod 0x4000) mod 0x4000 < wdat_count g
         then wdat_op (write_mode g AND 3) msk (data AND msk) (vword (vram (vr_dev s)) (cmd_plane g) i)
         else vword (vram (vr_dev s)) (cmd_plane g) i)"
  by (rule vram_channel.wdat_effect [OF assms])

definition block_cmd :: gdc_snap where
  "block_cmd = snap_of (\<lambda>i. if i = 0 then pack4 0 1 0 0 else if i = 4 then pack4 0 0 0x20 0xFF
     else if i = 5 then pack4 0xFF 0x34 0x12 0 else 0)"

theorem gdc_wdat_effect_witness:
  "vword (vr_dev (gdc_wdat mem_chan block_cmd (gdc_demo (\<lambda>_. 0)))) (cmd_plane block_cmd) 1 = 0x1234"
proof -
  have f: "dc_lo block_cmd = 1" "dc_hi block_cmd = 0" "write_mode block_cmd = 0x20" "mask_b block_cmd 0 = 0xFF"
    "mask_b block_cmd (Suc 0) = 0xFF" "code_b block_cmd 0 = 0x34" "code_b block_cmd (Suc 0) = 0x12" "csrw_word block_cmd = 0"
    by (simp_all add: block_cmd_def snap_of_def Let_def lane_simps csrw_word_def)
      (simp_all add: byte_of_def pack4_def)
  have "wdat_operands block_cmd = Some (0xFFFF, 0x1234)" "wdat_count block_cmd = 2"
    by (simp_all add: wdat_operands_def wdat_count_def f le16_def)
  from gdc_wdat_effect [OF mem.vram_channel_axioms this(1), of 1 "gdc_demo (\<lambda>_. 0)"] this(2) show ?thesis
    by (simp add: f wdat_op_def vword_def gdc_demo_def)
qed

end
