(* ===== verification/Loop.thy ===== *)
theory Loop
  imports Prelude
begin

text \<open>
  Loops that may run forever.  A C \<open>while\<close> whose exit depends on data is \<open>loop body\<close>: the body
  answers \<open>Inl\<close> with the state of the next round or \<open>Inr\<close> with the value the loop leaves with,
  and a loop that never leaves is \<open>None\<close>.  The rules: unfolding, leaving by a measure, an
  invariant carried to the exit, and never leaving.
\<close>

partial_function (option) loop :: "('s \<Rightarrow> 's + 'r) \<Rightarrow> 's \<Rightarrow> 'r option" where
  "loop body s = (case body s of Inl t \<Rightarrow> loop body t | Inr r \<Rightarrow> Some r)"

declare loop.simps [code]

lemma loop_next: "body s = Inl t \<Longrightarrow> loop body s = loop body t"
  by (subst loop.simps) simp

lemma loop_exit: "body s = Inr r \<Longrightarrow> loop body s = Some r"
  by (subst loop.simps) simp

text \<open>The first \<open>n\<close> rounds.\<close>

fun rounds :: "('s \<Rightarrow> 's + 'r) \<Rightarrow> nat \<Rightarrow> 's \<Rightarrow> 's + 'r" where
  "rounds body 0 s = Inl s"
| "rounds body (Suc n) s = (case body s of Inl t \<Rightarrow> rounds body n t | Inr r \<Rightarrow> Inr r)"

lemma loop_rounds: "rounds body n s = Inl t \<Longrightarrow> loop body s = loop body t"
  by (induction n arbitrary: s) (auto split: sum.splits dest: loop_next)

lemma loop_rounds_exit: "rounds body n s = Inr r \<Longrightarrow> loop body s = Some r"
  by (induction n arbitrary: s) (auto split: sum.splits dest: loop_next loop_exit)

lemma loop_Some_rounds: "loop body s = Some r \<Longrightarrow> \<exists>n. rounds body n s = Inr r"
proof (rule loop.raw_induct [where P = "\<lambda>body s r. \<exists>n. rounds body n s = Inr r"])
  fix self :: "('s \<Rightarrow> 's + 'r) \<Rightarrow> 's \<Rightarrow> 'r option" and body s r
  assume IH: "\<And>body s r. self body s = Some r \<Longrightarrow> \<exists>n. rounds body n s = Inr r"
    and run: "(case body s of Inl t \<Rightarrow> self body t | Inr r \<Rightarrow> Some r) = Some r"
  show "\<exists>n. rounds body n s = Inr r"
  proof (cases "body s")
    case (Inl t)
    then have "self body t = Some r" using run by simp
    from IH [OF this] obtain n where "rounds body n t = Inr r" ..
    then have "rounds body (Suc n) s = Inr r" using Inl by simp
    then show ?thesis by blast
  next
    case (Inr q)
    then have "rounds body (Suc 0) s = Inr r" using run by simp
    then show ?thesis by blast
  qed
qed

text \<open>An invariant of the rounds holds when the loop leaves, and with a measure that falls it
  does leave.\<close>

lemma loop_total:
  assumes "I s"
    and "\<And>s t. I s \<Longrightarrow> body s = Inl t \<Longrightarrow> I t \<and> m t < (m s :: nat)"
    and "\<And>s r. I s \<Longrightarrow> body s = Inr r \<Longrightarrow> Q r"
  shows "\<exists>r. loop body s = Some r \<and> Q r"
  using assms(1)
proof (induction "m s" arbitrary: s rule: less_induct)
  case less
  show ?case
  proof (cases "body s")
    case (Inl t)
    then have "\<exists>r. loop body t = Some r \<and> Q r" using less assms(2) by blast
    then show ?thesis using Inl by (simp add: loop_next)
  next
    case (Inr r)
    then show ?thesis using less.prems assms(3) by (auto simp: loop_exit)
  qed
qed

lemma loop_partial:
  assumes "loop body s = Some r" and "I s"
    and "\<And>s t. I s \<Longrightarrow> body s = Inl t \<Longrightarrow> I t"
    and "\<And>s r. I s \<Longrightarrow> body s = Inr r \<Longrightarrow> Q r"
  shows "Q r"
proof -
  obtain n where "rounds body n s = Inr r" using loop_Some_rounds [OF assms(1)] by blast
  then show ?thesis using assms(2)
    by (induction n arbitrary: s) (auto split: sum.splits intro: assms(3,4))
qed

lemma loop_forever:
  assumes "I s" and "\<And>s. I s \<Longrightarrow> \<exists>t. body s = Inl t \<and> I t"
  shows "loop body s = None"
proof (cases "loop body s")
  case (Some r)
  then have False by (rule loop_partial [where I = I]) (use assms in force)+
  then show ?thesis ..
qed

text \<open>\<open>while (cond) s = step s\<close>, where the step itself may not return.\<close>

definition while_loop :: "('s \<Rightarrow> bool) \<Rightarrow> ('s \<Rightarrow> 's) \<Rightarrow> 's \<Rightarrow> 's option" where
  "while_loop c f = loop (\<lambda>s. if c s then Inl (f s) else Inr s)"

lemma while_loop_unfold:
  "while_loop c f s = (if c s then while_loop c f (f s) else Some s)"
  unfolding while_loop_def by (subst loop.simps) simp

lemma while_loop_total:
  assumes "I s" and "\<And>s. I s \<Longrightarrow> c s \<Longrightarrow> I (f s) \<and> m (f s) < (m s :: nat)"
  shows "\<exists>t. while_loop c f s = Some t \<and> I t \<and> \<not> c t"
  unfolding while_loop_def
  by (rule loop_total [where I = I and m = m]) (use assms in \<open>auto split: if_splits\<close>)

lemma while_loop_partial:
  assumes "while_loop c f s = Some t" "I s" "\<And>s. I s \<Longrightarrow> c s \<Longrightarrow> I (f s)"
  shows "I t" "\<not> c t"
proof -
  have "I t \<and> \<not> c t"
    by (rule loop_partial [OF assms(1) [unfolded while_loop_def], where I = I])
      (use assms(2,3) in \<open>auto split: if_splits\<close>)
  then show "I t" "\<not> c t" by auto
qed

lemma while_loop_forever:
  assumes "I s" "\<And>s. I s \<Longrightarrow> c s \<and> I (f s)"
  shows "while_loop c f s = None"
  unfolding while_loop_def by (rule loop_forever [where I = I]) (use assms in auto)

text \<open>A counting loop whose body may not return.\<close>

definition for_opt :: "nat \<Rightarrow> (nat \<Rightarrow> 's \<Rightarrow> 's option) \<Rightarrow> 's \<Rightarrow> 's option" where
  "for_opt n body s = fold (\<lambda>i r. Option.bind r (body i)) [0..<n] (Some s)"

lemma for_opt_0 [simp]: "for_opt 0 body s = Some s"
  by (simp add: for_opt_def)

lemma for_opt_Suc: "for_opt (Suc n) body s = Option.bind (for_opt n body s) (body n)"
  by (simp add: for_opt_def)

lemma for_opt_inv:
  assumes "for_opt n body s = Some t" "I s"
    and "\<And>k u v. k < n \<Longrightarrow> I u \<Longrightarrow> body k u = Some v \<Longrightarrow> I v"
  shows "I t"
proof -
  have "for_opt m body s = Some u \<Longrightarrow> m \<le> n \<Longrightarrow> I u" for m u
  proof (induction m arbitrary: u)
    case (Suc m)
    then obtain w where "for_opt m body s = Some w" "body m w = Some u"
      by (auto simp: for_opt_Suc bind_eq_Some_conv)
    then show ?case using Suc.prems Suc.IH [of w] assms(3) [of m w u] by simp
  qed (use assms(2) in simp)
  then show ?thesis using assms(1) by blast
qed

lemma for_opt_total:
  assumes "I s" and "\<And>k u. k < n \<Longrightarrow> I u \<Longrightarrow> \<exists>v. body k u = Some v \<and> I v"
  shows "\<exists>t. for_opt n body s = Some t \<and> I t"
proof -
  have "m \<le> n \<Longrightarrow> \<exists>t. for_opt m body s = Some t \<and> I t" for m
  proof (induction m)
    case (Suc m)
    then obtain w where "for_opt m body s = Some w" "I w" by auto
    then show ?case using Suc.prems assms(2) [of m w] by (auto simp: for_opt_Suc)
  qed (use assms(1) in simp)
  then show ?thesis by blast
qed

end
