(* ===== verification/Adpcm.thy ===== *)
theory Adpcm
  imports Loop Divider
begin

text \<open>
  \<open>firmware/adpcma_enc.c\<close>: the streaming ADPCM-A encoder both sample loaders use, and the
  decoder it is written against, \<open>jt10_adpcm.v\<close>.  The \<open>int32_t\<close> members are integers; the
  invariant of \<open>Adpcm_Correct\<close> keeps them inside 32 bits, so no signed overflow is lost.
  \<open>out[0 .. out_n)\<close> is the list \<open>enc_out\<close>.  \<open>on_target\<close> is \<open>NULL\<close> on the softcore.
\<close>

type_synonym sample = "16 word"

section \<open>State\<close>

record adpcm_enc =
  enc_ratio :: u32
  enc_pos :: u32
  enc_idx :: u32
  enc_prev :: sample
  enc_cur :: sample
  enc_primed :: bool
  enc_x :: int
  enc_step :: int
  last_target :: int
  enc_bytes :: u32
  enc_half :: int          \<comment> \<open>pending high nibble, -1 for none\<close>
  enc_out :: "u8 list"

definition ADPCMA_RATE_DIV :: u32 where "ADPCMA_RATE_DIV = 432"
definition ADPCMA_OUT_MAX :: nat where "ADPCMA_OUT_MAX = 8"

definition STEP_ADAPT :: "int list" where
  "STEP_ADAPT = [-1, -1, -1, -1, 2, 5, 7, 9]"

definition ADPCMA_INC :: "int list" where
  "ADPCMA_INC =
    [2, 6, 10, 14, 18, 22, 26, 30,
     2, 6, 10, 14, 19, 23, 27, 31,
     2, 7, 11, 16, 21, 26, 30, 35,
     2, 7, 13, 18, 23, 28, 34, 39,
     2, 8, 14, 20, 25, 31, 37, 43,
     3, 9, 15, 21, 28, 34, 40, 46,
     3, 10, 17, 24, 31, 38, 45, 52,
     3, 11, 19, 27, 34, 42, 50, 58,
     4, 12, 21, 29, 38, 46, 55, 63,
     4, 13, 23, 32, 41, 50, 60, 69,
     5, 15, 25, 35, 46, 56, 66, 76,
     5, 16, 28, 39, 50, 61, 73, 84,
     6, 18, 31, 43, 56, 68, 81, 93,
     6, 20, 34, 48, 61, 75, 89, 103,
     7, 22, 37, 52, 67, 82, 97, 112,
     8, 24, 41, 57, 74, 90, 107, 123,
     9, 27, 45, 63, 82, 100, 118, 136,
     10, 30, 50, 70, 90, 110, 130, 150,
     11, 33, 55, 77, 99, 121, 143, 165,
     12, 36, 60, 84, 109, 133, 157, 181,
     13, 40, 66, 93, 120, 147, 173, 200,
     14, 44, 73, 103, 132, 162, 191, 221,
     16, 48, 81, 113, 146, 178, 211, 243,
     17, 53, 89, 125, 160, 196, 232, 268,
     19, 58, 98, 137, 176, 215, 255, 294,
     21, 64, 108, 151, 194, 237, 281, 324,
     23, 71, 118, 166, 213, 261, 308, 356,
     26, 78, 130, 182, 235, 287, 339, 391,
     28, 86, 143, 201, 258, 316, 373, 431,
     31, 94, 158, 221, 284, 347, 411, 474,
     34, 104, 174, 244, 313, 383, 453, 523,
     38, 115, 191, 268, 345, 422, 498, 575,
     42, 126, 210, 294, 379, 463, 547, 631,
     46, 139, 231, 324, 417, 510, 602, 695,
     51, 153, 255, 357, 459, 561, 663, 765,
     56, 168, 280, 392, 505, 617, 729, 841,
     61, 185, 308, 432, 555, 679, 802, 926,
     68, 204, 340, 476, 612, 748, 884, 1020,
     74, 224, 373, 523, 672, 822, 971, 1121,
     82, 246, 411, 575, 740, 904, 1069, 1233,
     90, 271, 452, 633, 814, 995, 1176, 1357,
     99, 298, 497, 696, 895, 1094, 1293, 1492,
     109, 328, 547, 766, 985, 1204, 1423, 1642,
     120, 361, 601, 842, 1083, 1324, 1564, 1805,
     132, 397, 662, 927, 1192, 1457, 1722, 1987,
     145, 437, 728, 1020, 1311, 1603, 1894, 2186,
     160, 480, 801, 1121, 1442, 1762, 2083, 2047,
     176, 529, 881, 1234, 1587, 1940, 2292, 2047,
     194, 582, 970, 1358, 1746, 2134, 2047, 2047]"

definition adpcm_enc_init :: "u32 \<Rightarrow> adpcm_enc" where
  "adpcm_enc_init src_rate =
     (let src_rate = if src_rate = 0 then 8000 else src_rate;
          t = src_rate * ADPCMA_RATE_DIV;
          (q, r) = udiv32 t 62500
      in \<lparr>enc_ratio = push_bit 9 q + fst (udiv32 (push_bit 9 r) 62500), enc_pos = 0, enc_idx = 0,
          enc_prev = 0, enc_cur = 0, enc_primed = False, enc_x = 0, enc_step = 0, last_target = 0,
          enc_bytes = 0, enc_half = -1, enc_out = []\<rparr>)"

section \<open>One nibble\<close>

text \<open>The running best of the search: its error, its accumulator and its nibble.\<close>

definition try_nibble :: "int \<Rightarrow> int \<Rightarrow> int \<Rightarrow> nat \<Rightarrow> nat \<Rightarrow> int \<times> int \<times> nat \<Rightarrow> int \<times> int \<times> nat" where
  "try_nibble x inc target12 mag sign bst =
     (let cand = if sign \<noteq> 0 then x - inc else x + inc;
          err = if target12 < cand then cand - target12 else target12 - cand
      in if err < fst bst then (err, cand, 8 * sign + mag) else bst)"

definition pick_nibble :: "int \<Rightarrow> int \<Rightarrow> int \<Rightarrow> int \<times> nat" where
  "pick_nibble x stp target12 =
     snd (for_to 8
       (\<lambda>mag. let inc = ADPCMA_INC ! (nat stp * 8 + mag)
              in for_to 2 (\<lambda>sign. try_nibble x inc target12 mag sign))
       (0x7FFFFFFF, 0, 0))"

definition clamp_step :: "int \<Rightarrow> int" where
  "clamp_step s = (if s < 0 then 0 else if 48 < s then 48 else s)"

definition emit_nibble :: "int \<Rightarrow> adpcm_enc \<Rightarrow> adpcm_enc" where
  "emit_nibble target12 e =
     (let (best_x, b) = pick_nibble (enc_x e) (enc_step e) target12;
          e = e\<lparr>enc_x := best_x, enc_step := clamp_step (enc_step e + STEP_ADAPT ! (b mod 8))\<rparr>
      in if enc_half e < 0 then e\<lparr>enc_half := int b\<rparr>
         else
           let e = if length (enc_out e) < ADPCMA_OUT_MAX
                   then e\<lparr>enc_out := enc_out e @ [of_int (enc_half e * 16 + int b)], enc_bytes := enc_bytes e + 1\<rparr>
                   else e
           in e\<lparr>enc_half := -1\<rparr>)"

section \<open>One sample\<close>

text \<open>\<open>prev + ((cur - prev) * frac >> 16)\<close> from a 32-bit magnitude multiply.\<close>

definition interpolate :: "adpcm_enc \<Rightarrow> int" where
  "interpolate e =
     (let d = sint (enc_cur e) - sint (enc_prev e);
          ad = (of_int (if d < 0 then - d else d) :: u32);
          p = ad * (enc_pos e AND 0xFFFF);
          m = uint (drop_bit 16 p);
          m = if d < 0 then (if p AND 0xFFFF \<noteq> 0 then - m - 1 else - m) else m
      in drop_bit 4 (sint (enc_prev e) + m))"

definition clamp12 :: "int \<Rightarrow> int" where
  "clamp12 v = (if 2047 < v then 2047 else if v < -2048 then -2048 else v)"

definition sample_target :: "bool \<Rightarrow> adpcm_enc \<Rightarrow> int" where
  "sample_target flat e = clamp12 (if flat then drop_bit 4 (sint (enc_cur e)) else interpolate e)"

definition emit_sample :: "bool \<Rightarrow> adpcm_enc \<Rightarrow> adpcm_enc" where
  "emit_sample flat e =
     (let v = sample_target flat e;
          e = emit_nibble v (e\<lparr>last_target := v\<rparr>)
      in e\<lparr>enc_pos := enc_pos e + enc_ratio e\<rparr>)"

section \<open>Push and flush\<close>

text \<open>The loop of \<open>adpcm_enc_push\<close> runs the window out, whatever the output buffer does; with
  a zero ratio it would never end.\<close>

definition enc_window :: "adpcm_enc \<Rightarrow> bool" where
  "enc_window e \<longleftrightarrow> drop_bit 16 (enc_pos e) = enc_idx e - 1"

definition adpcm_enc_push :: "sample \<Rightarrow> adpcm_enc \<Rightarrow> adpcm_enc option" where
  "adpcm_enc_push s e =
     (let e = e\<lparr>enc_out := [], enc_prev := enc_cur e, enc_cur := s\<rparr>
      in if enc_primed e
         then while_loop enc_window (emit_sample False) (e\<lparr>enc_idx := enc_idx e + 1\<rparr>)
         else Some (e\<lparr>enc_primed := True\<rparr>))"

text \<open>Nibbles the output buffer still takes.\<close>

definition enc_room :: "adpcm_enc \<Rightarrow> nat" where
  "enc_room e = 2 * (ADPCMA_OUT_MAX - length (enc_out e)) - of_bool (0 \<le> enc_half e)"

lemma emit_nibble_room:
  assumes "length (enc_out e) < ADPCMA_OUT_MAX"
  shows "enc_room (emit_nibble t e) < enc_room e"
  using assms by (auto simp: enc_room_def emit_nibble_def Let_def split: prod.split)

lemma emit_sample_room:
  assumes "length (enc_out e) < ADPCMA_OUT_MAX"
  shows "enc_room (emit_sample flat e) < enc_room e"
  using emit_nibble_room [of "e\<lparr>last_target := sample_target flat e\<rparr>" "sample_target flat e"] assms
  by (simp add: emit_sample_def Let_def enc_room_def)

function flush_tail :: "adpcm_enc \<Rightarrow> adpcm_enc" where
  "flush_tail e =
     (if length (enc_out e) < ADPCMA_OUT_MAX \<and> drop_bit 16 (enc_pos e) \<le> enc_idx e
      then flush_tail (emit_sample True e) else e)"
  by auto
termination
  by (relation "measure enc_room") (auto simp: emit_sample_room)

function flush_pad :: "adpcm_enc \<Rightarrow> adpcm_enc" where
  "flush_pad e =
     (if length (enc_out e) < ADPCMA_OUT_MAX \<and> \<not> (enc_half e < 0 \<and> enc_bytes e AND 0xFF = 0)
      then flush_pad (emit_nibble 0 e) else e)"
  by auto
termination
  by (relation "measure enc_room") (auto simp: emit_nibble_room)

declare flush_tail.simps [simp del] flush_pad.simps [simp del]

definition adpcm_enc_flush :: "adpcm_enc \<Rightarrow> adpcm_enc" where
  "adpcm_enc_flush e = flush_pad (flush_tail (e\<lparr>enc_out := []\<rparr>))"

section \<open>The decoder\<close>

text \<open>One \<open>chon\<close> sample through the six stages of \<open>jt10_adpcm.v\<close>: a 12-bit accumulator that
  wraps, and a step index that saturates.\<close>

definition jt10_step_next :: "nat \<Rightarrow> nat \<Rightarrow> nat" where
  "jt10_step_next stp d =
     (let m = d mod 8;
          nxt = if m < 4 then stp - 1 else if m = 4 then stp + 2 else if m = 5 then stp + 5
                else if m = 6 then stp + 7 else stp + 9
      in if 48 < nxt then 48 else nxt)"

definition jt10_decode :: "nat \<Rightarrow> 12 word \<times> nat \<Rightarrow> 12 word \<times> nat" where
  "jt10_decode d xs =
     (let (x, stp) = xs; inc = of_int (ADPCMA_INC ! (stp * 8 + d mod 8))
      in (if 8 \<le> d then x - inc else x + inc, jt10_step_next stp d))"

end
