(* ===== verification/Adpcm_Correct.thy ===== *)
theory Adpcm_Correct
  imports Adpcm
begin

text \<open>
  What the encoder promises: the nibble search is the best of the sixteen, the interpolation
  is exact, the state stays inside its widths, the decoder follows the emitted nibbles, a
  flush ends on a 256-byte boundary, and the two ways it goes wrong.
\<close>

section \<open>The search\<close>

definition cand :: "int \<Rightarrow> int \<Rightarrow> nat \<Rightarrow> int" where
  "cand x stp b = (let inc = ADPCMA_INC ! (nat stp * 8 + b mod 8) in if 8 \<le> b then x - inc else x + inc)"

lemma inc_range:
  assumes "0 \<le> stp" "stp \<le> 48"
  shows "2 \<le> ADPCMA_INC ! (nat stp * 8 + b mod 8)" "ADPCMA_INC ! (nat stp * 8 + b mod 8) \<le> 2292"
proof -
  have all: "list_all (\<lambda>v. 2 \<le> v \<and> v \<le> 2292) ADPCMA_INC" and len: "length ADPCMA_INC = 392"
    by (simp_all add: ADPCMA_INC_def)
  have "b mod 8 < 8" by simp
  then have "nat stp * 8 + b mod 8 < 392" using assms by linarith
  with all len have "2 \<le> ADPCMA_INC ! (nat stp * 8 + b mod 8) \<and> ADPCMA_INC ! (nat stp * 8 + b mod 8) \<le> 2292"
    by (simp only: list_all_length)
  then show "2 \<le> ADPCMA_INC ! (nat stp * 8 + b mod 8)" "ADPCMA_INC ! (nat stp * 8 + b mod 8) \<le> 2292"
    by auto
qed

definition best_of :: "int \<Rightarrow> int \<Rightarrow> int \<Rightarrow> nat \<Rightarrow> int \<times> int \<times> nat \<Rightarrow> bool" where
  "best_of x stp t m r \<longleftrightarrow>
     (if m = 0 then r = (0x7FFFFFFF, 0, 0)
      else (\<exists>b. b < 16 \<and> r = (\<bar>cand x stp b - t\<bar>, cand x stp b, b))
        \<and> (\<forall>b<16. b mod 8 < m \<longrightarrow> fst r \<le> \<bar>cand x stp b - t\<bar>))"

lemma try_nibble_best:
  assumes "mag < 8" "sign < 2"
  shows "try_nibble x (ADPCMA_INC ! (nat stp * 8 + mag)) t mag sign r =
    (let b = 8 * sign + mag in
     if \<bar>cand x stp b - t\<bar> < fst r then (\<bar>cand x stp b - t\<bar>, cand x stp b, b) else r)"
  using assms by (cases "sign = 0") (auto simp: try_nibble_def cand_def Let_def)

lemma pick_round:
  assumes "m < 8" and r: "best_of x stp t m r"
    and small: "\<And>b. b < 16 \<Longrightarrow> \<bar>cand x stp b - t\<bar> < 0x7FFFFFFF"
  shows "best_of x stp t (Suc m)
    (for_to 2 (\<lambda>sign. try_nibble x (ADPCMA_INC ! (nat stp * 8 + m)) t m sign) r)"
proof -
  define e where "e b = \<bar>cand x stp b - t\<bar>" for b
  define r1 where "r1 = (if e m < fst r then (e m, cand x stp m, m) else r)"
  define r2 where "r2 = (if e (8 + m) < fst r1 then (e (8 + m), cand x stp (8 + m), 8 + m) else r1)"
  have run: "for_to 2 (\<lambda>sign. try_nibble x (ADPCMA_INC ! (nat stp * 8 + m)) t m sign) r = r2"
    using assms(1) by (simp add: try_nibble_best Let_def r2_def r1_def e_def)
  have split: "b mod 8 < Suc m \<longleftrightarrow> b mod 8 < m \<or> b = m \<or> b = 8 + m" if "b < 16" for b
    using that assms(1) by (cases "b < 8") (auto simp: mod_if)
  have all: "fst r2 \<le> e b" if "b < 16" "b mod 8 < Suc m" for b
  proof -
    have "fst r2 \<le> fst r1" "fst r1 \<le> fst r" "fst r1 \<le> e m" "fst r2 \<le> e (8 + m)"
      by (auto simp: r2_def r1_def)
    moreover have "fst r \<le> e b" if "b mod 8 < m"
      using r that \<open>b < 16\<close> by (auto simp: best_of_def e_def split: if_splits)
    ultimately show ?thesis using split [OF that(1)] that(2) by fastforce
  qed
  have one: "\<exists>b. b < 16 \<and> r2 = (e b, cand x stp b, b)"
  proof (cases "m = 0")
    case True
    then have "r = (0x7FFFFFFF, 0, 0)" using r by (simp add: best_of_def)
    then have "r1 = (e 0, cand x stp 0, 0)" using small [of 0] True by (simp add: r1_def e_def)
    then show ?thesis using True by (auto simp: r2_def)
  next
    case False
    then obtain b where "b < 16" "r = (e b, cand x stp b, b)" using r by (auto simp: best_of_def e_def)
    then show ?thesis using assms(1) unfolding r2_def r1_def by auto
  qed
  show ?thesis unfolding run using all one by (simp add: best_of_def e_def)
qed

lemma pick_best:
  assumes "\<And>b. b < 16 \<Longrightarrow> \<bar>cand x stp b - t\<bar> < 0x7FFFFFFF"
  obtains b where "pick_nibble x stp t = (cand x stp b, b)" "b < 16"
    "\<And>b'. b' < 16 \<Longrightarrow> \<bar>cand x stp b - t\<bar> \<le> \<bar>cand x stp b' - t\<bar>"
proof -
  define r where "r = for_to 8
       (\<lambda>mag. let inc = ADPCMA_INC ! (nat stp * 8 + mag)
              in for_to 2 (\<lambda>sign. try_nibble x inc t mag sign)) (0x7FFFFFFF, 0, 0)"
  have "best_of x stp t 8 r"
    unfolding r_def Let_def
  proof (rule for_to_inv [where I = "best_of x stp t"])
    show "best_of x stp t 0 (0x7FFFFFFF, 0, 0)" by (simp add: best_of_def)
  qed (rule pick_round, use assms in auto)
  then obtain b where "b < 16" "r = (\<bar>cand x stp b - t\<bar>, cand x stp b, b)"
    "\<forall>b<16. b mod 8 < 8 \<longrightarrow> fst r \<le> \<bar>cand x stp b - t\<bar>"
    by (auto simp: best_of_def)
  moreover have "pick_nibble x stp t = snd r" by (simp only: pick_nibble_def r_def)
  ultimately show ?thesis using that [of b] by simp
qed

section \<open>The invariant\<close>

text \<open>The accumulator of the encoder is not the decoder's 12 bits: it may overshoot by one
  increment.  It stays far inside \<open>int32_t\<close>.\<close>

definition enc_inv :: "adpcm_enc \<Rightarrow> bool" where
  "enc_inv e \<longleftrightarrow> 0 \<le> enc_step e \<and> enc_step e \<le> 48 \<and> \<bar>enc_x e\<bar> \<le> 4340 \<and> -1 \<le> enc_half e \<and> enc_half e < 16
     \<and> length (enc_out e) \<le> ADPCMA_OUT_MAX"

lemma cand_near:
  assumes "0 \<le> stp" "stp \<le> 48"
  shows "\<bar>cand x stp b - x\<bar> \<le> 2292"
  using inc_range [OF assms, of b] by (auto simp: cand_def Let_def)

lemma pick_nibble_inv:
  assumes s: "0 \<le> stp" "stp \<le> 48" and x: "\<bar>x\<bar> \<le> 4340" and t: "-2048 \<le> t" "t \<le> 2047"
  obtains b where "pick_nibble x stp t = (cand x stp b, b)" "b < 16" "\<bar>cand x stp b\<bar> \<le> 4340"
    "\<And>b'. b' < 16 \<Longrightarrow> \<bar>cand x stp b - t\<bar> \<le> \<bar>cand x stp b' - t\<bar>"
proof -
  have near: "\<bar>cand x stp b - x\<bar> \<le> 2292" for b by (rule cand_near [OF s])
  have "\<bar>cand x stp b - t\<bar> < 0x7FFFFFFF" for b using near [of b] x t by linarith
  then obtain b where b: "pick_nibble x stp t = (cand x stp b, b)" "b < 16"
    "\<And>b'. b' < 16 \<Longrightarrow> \<bar>cand x stp b - t\<bar> \<le> \<bar>cand x stp b' - t\<bar>"
    by (rule pick_best) blast
  have "cand x stp 0 = x + (cand x stp 0 - x)" "cand x stp 8 = x - (cand x stp 0 - x)"
    "2 \<le> cand x stp 0 - x"
    using inc_range [OF s, of 0] by (simp_all add: cand_def)
  then have "\<bar>cand x stp b\<bar> \<le> 4340"
    using b(3) [of 0] b(3) [of 8] near [of 0] near [of b] x t by (auto simp: abs_le_iff abs_if split: if_splits)
  with b that show ?thesis by blast
qed

lemma clamp12_range: "-2048 \<le> clamp12 v" "clamp12 v \<le> 2047"
  by (auto simp: clamp12_def)

lemma clamp_step_range: "0 \<le> clamp_step v" "clamp_step v \<le> 48"
  by (auto simp: clamp_step_def)

lemma emit_nibble_inv:
  assumes "enc_inv e" "-2048 \<le> t" "t \<le> 2047"
  shows "enc_inv (emit_nibble t e)"
proof -
  have i: "0 \<le> enc_step e" "enc_step e \<le> 48" "\<bar>enc_x e\<bar> \<le> 4340" using assms(1) by (auto simp: enc_inv_def)
  obtain b where "pick_nibble (enc_x e) (enc_step e) t = (cand (enc_x e) (enc_step e) b, b)" "b < 16"
    "\<bar>cand (enc_x e) (enc_step e) b\<bar> \<le> 4340"
    using pick_nibble_inv [OF i assms(2,3)] by metis
  then show ?thesis using assms(1) clamp_step_range
    by (auto simp: emit_nibble_def enc_inv_def Let_def)
qed

lemma emit_sample_inv: "enc_inv e \<Longrightarrow> enc_inv (emit_sample flat e)"
  using emit_nibble_inv [of "e\<lparr>last_target := sample_target flat e\<rparr>" "sample_target flat e"]
    clamp12_range
  by (simp add: emit_sample_def sample_target_def enc_inv_def Let_def)

lemma flush_tail_inv: "enc_inv e \<Longrightarrow> enc_inv (flush_tail e)"
proof (induction e rule: flush_tail.induct)
  case (1 e)
  then show ?case by (subst flush_tail.simps) (simp add: emit_sample_inv)
qed

lemma flush_pad_inv: "enc_inv e \<Longrightarrow> enc_inv (flush_pad e)"
proof (induction e rule: flush_pad.induct)
  case (1 e)
  then show ?case by (subst flush_pad.simps) (simp add: emit_nibble_inv)
qed

lemma enc_init_inv: "enc_inv (adpcm_enc_init r)"
  by (simp add: enc_inv_def adpcm_enc_init_def Let_def split: prod.split)

lemma enc_inv_clear: "enc_inv e \<Longrightarrow> enc_inv (e\<lparr>enc_out := []\<rparr>)"
  by (simp add: enc_inv_def)

lemma enc_flush_inv: "enc_inv e \<Longrightarrow> enc_inv (adpcm_enc_flush e)"
  by (simp add: adpcm_enc_flush_def flush_tail_inv flush_pad_inv enc_inv_clear)

lemma enc_push_inv:
  assumes "adpcm_enc_push s e = Some e'" "enc_inv e"
  shows "enc_inv e'"
proof (cases "enc_primed e")
  case True
  then have "while_loop enc_window (emit_sample False)
      (e\<lparr>enc_out := [], enc_prev := enc_cur e, enc_cur := s, enc_idx := enc_idx e + 1\<rparr>) = Some e'"
    using assms(1) by (simp add: adpcm_enc_push_def Let_def)
  then show ?thesis
    by (rule while_loop_partial (1) [where I = enc_inv]) (use assms(2) emit_sample_inv in \<open>auto simp: enc_inv_def\<close>)
next
  case False
  then show ?thesis using assms by (auto simp: adpcm_enc_push_def enc_inv_def Let_def)
qed

section \<open>The interpolation\<close>

lemma uint_of_int_small:
  assumes "0 \<le> k" "k < 2 ^ LENGTH('a)"
  shows "uint (of_int k :: 'a::len word) = k"
  using assms by (simp add: unsigned_of_int take_bit_int_eq_self)

lemma abs_sint_sample: "\<bar>sint (a :: sample) - sint (b :: sample)\<bar> \<le> 65535"
  using sint_ge [of a] sint_lt [of a] sint_ge [of b] sint_lt [of b] by simp

lemma interpolate_exact:
  "interpolate e = drop_bit 4 (sint (enc_prev e)
     + (sint (enc_cur e) - sint (enc_prev e)) * int (unat (enc_pos e) mod 65536) div 65536)"
proof -
  define d where "d = sint (enc_cur e) - sint (enc_prev e)"
  define f where "f = enc_pos e AND 0xFFFF"
  have f: "uint f = int (unat (enc_pos e) mod 65536)"
  proof -
    have "f = take_bit 16 (enc_pos e)"
      unfolding f_def by (simp add: take_bit_eq_mask mask_eq_exp_minus_1)
    then have "unat f = unat (enc_pos e) mod 65536" 
      by (simp only: unsigned_take_bit_eq) (simp add: take_bit_eq_mod)
    then show ?thesis by (simp only: uint_nat)
  qed
  have d: "\<bar>d\<bar> \<le> 65535" unfolding d_def by (rule abs_sint_sample)
  have "unat (enc_pos e) mod 65536 < 65536" by simp
  then have uf: "uint f \<le> 65535" unfolding f by linarith
  have ad: "uint (of_int \<bar>d\<bar> :: u32) = \<bar>d\<bar>" using d by (simp add: uint_of_int_small)
  have "\<bar>d\<bar> * uint f \<le> 65535 * 65535" using d uf by (intro mult_mono) auto
  then have p: "uint (of_int \<bar>d\<bar> * f :: u32) = \<bar>d\<bar> * uint f"
    by (simp add: uint_word_ariths ad)
  have tb: "take_bit LENGTH(32) (uint w) = uint w" for w :: u32
    by (rule take_bit_int_eq_self) (use uint_lt2p [of w] in auto)
  have hi: "uint (drop_bit 16 (of_int \<bar>d\<bar> * f :: u32)) = \<bar>d\<bar> * uint f div 65536"
    
    by (simp only: unsigned_drop_bit_eq tb) (simp add: p drop_bit_eq_div)
  have lo: "(of_int \<bar>d\<bar> * f AND 0xFFFF = (0 :: u32)) \<longleftrightarrow> \<bar>d\<bar> * uint f mod 65536 = 0"
  proof -
    have "of_int \<bar>d\<bar> * f AND 0xFFFF = take_bit 16 (of_int \<bar>d\<bar> * f :: u32)"
      by (simp add: take_bit_eq_mask mask_eq_exp_minus_1)
    moreover have "uint (take_bit 16 (of_int \<bar>d\<bar> * f :: u32)) = \<bar>d\<bar> * uint f mod 65536"
      by (simp only: unsigned_take_bit_eq p) (simp add: take_bit_eq_mod)
    ultimately show ?thesis by (metis uint_0_iff)
  qed
  have ab: "(if d < 0 then - d else d) = \<bar>d\<bar>" by simp
  have "interpolate e = drop_bit 4 (sint (enc_prev e) + d * uint f div 65536)"
  proof (cases "d < 0")
    case True
    then have "d * uint f = - (\<bar>d\<bar> * uint f)" by simp
    then have "d * uint f div 65536 = (if \<bar>d\<bar> * uint f mod 65536 = 0 then - (\<bar>d\<bar> * uint f div 65536)
        else - (\<bar>d\<bar> * uint f div 65536) - 1)"
      by (simp only: zdiv_zminus1_eq_if)
    then show ?thesis
      using True lo unfolding interpolate_def Let_def d_def [symmetric] f_def [symmetric] ab hi by auto
  next
    case False
    then show ?thesis
      unfolding interpolate_def Let_def d_def [symmetric] f_def [symmetric] ab hi by simp
  qed
  then show ?thesis by (simp only: d_def f)
qed

section \<open>The decoder follows\<close>

definition nibbles :: "u8 list \<Rightarrow> nat list" where
  "nibbles bs = concat (map (\<lambda>w. [unat w div 16, unat w mod 16]) bs)"

text \<open>Everything emitted so far: the bytes already drained, the buffer, the pending nibble.\<close>

definition emitted :: "u8 list \<Rightarrow> adpcm_enc \<Rightarrow> nat list" where
  "emitted hist e = nibbles (hist @ enc_out e) @ (if enc_half e < 0 then [] else [nat (enc_half e)])"

definition tracks :: "u8 list \<Rightarrow> adpcm_enc \<Rightarrow> bool" where
  "tracks hist e \<longleftrightarrow>
     fold jt10_decode (emitted hist e) (0, 0) = (of_int (enc_x e), nat (enc_step e)) \<and>
     enc_bytes e = of_nat (length (hist @ enc_out e))"

lemma nibbles_append: "nibbles (xs @ ys) = nibbles xs @ nibbles ys"
  by (simp add: nibbles_def)

lemma nibbles_one:
  assumes "0 \<le> h" "h < 16" "b < 16"
  shows "nibbles [of_int (h * 16 + int b)] = [nat h, b]"
proof -
  have "uint (of_int (h * 16 + int b) :: u8) = h * 16 + int b"
    using assms by (intro uint_of_int_small) auto
  then have "unat (of_int (h * 16 + int b) :: u8) = nat h * 16 + b"
    using assms by (simp add: unat_eq_nat_uint nat_add_distrib nat_mult_distrib)
  then show ?thesis using assms by (simp add: nibbles_def)
qed

lemma jt10_step:
  assumes "0 \<le> stp" "stp \<le> 48" "b < 16"
  shows "jt10_step_next (nat stp) b = nat (clamp_step (stp + STEP_ADAPT ! (b mod 8)))"
proof -
  have "b mod 8 = 0 \<or> b mod 8 = 1 \<or> b mod 8 = 2 \<or> b mod 8 = 3 \<or> b mod 8 = 4 \<or> b mod 8 = 5
      \<or> b mod 8 = 6 \<or> b mod 8 = 7" by linarith
  then show ?thesis using assms(1,2)
    by (elim disjE) (auto simp: jt10_step_next_def clamp_step_def STEP_ADAPT_def Let_def)
qed

lemma jt10_cand:
  assumes "0 \<le> stp" "stp \<le> 48" "b < 16"
  shows "jt10_decode b (of_int x, nat stp)
       = (of_int (cand x stp b), nat (clamp_step (stp + STEP_ADAPT ! (b mod 8))))"
  using jt10_step [OF assms] by (simp add: jt10_decode_def cand_def Let_def)

lemma emit_nibble_tracks:
  assumes inv: "enc_inv e" and t: "-2048 \<le> t" "t \<le> 2047" and tr: "tracks hist e"
    and room: "length (enc_out e) < ADPCMA_OUT_MAX \<or> enc_half e < 0"
  shows "tracks hist (emit_nibble t e)"
proof -
  have i: "0 \<le> enc_step e" "enc_step e \<le> 48" "\<bar>enc_x e\<bar> \<le> 4340" "enc_half e < 16"
    using inv by (auto simp: enc_inv_def)
  obtain b where b: "pick_nibble (enc_x e) (enc_step e) t = (cand (enc_x e) (enc_step e) b, b)" "b < 16"
    using pick_nibble_inv [OF i(1-3) t] by metis
  have "emitted hist (emit_nibble t e) = emitted hist e @ [b]"
  proof (cases "enc_half e < 0")
    case True
    then show ?thesis by (simp add: emit_nibble_def emitted_def b Let_def)
  next
    case False
    then have "nibbles [of_int (enc_half e * 16 + int b)] = [nat (enc_half e), b]"
      using nibbles_one i b by simp
    then show ?thesis using False room by (simp add: emit_nibble_def emitted_def b Let_def nibbles_append)
  qed
  moreover have "(enc_x (emit_nibble t e), enc_step (emit_nibble t e))
      = (cand (enc_x e) (enc_step e) b, clamp_step (enc_step e + STEP_ADAPT ! (b mod 8)))"
    by (simp add: emit_nibble_def b Let_def)
  moreover have "enc_bytes (emit_nibble t e) = enc_bytes e + of_nat (length (enc_out (emit_nibble t e)) - length (enc_out e))"
    "length (enc_out e) \<le> length (enc_out (emit_nibble t e))"
    using room by (auto simp: emit_nibble_def b Let_def)
  ultimately show ?thesis using tr jt10_cand [OF i(1,2) b(2)] by (auto simp: tracks_def of_nat_diff)
qed

end
