(* ===== verification/Adpcm_Voice.thy ===== *)
theory Adpcm_Voice
  imports Adpcm_Correct
begin

text \<open>
  A whole voice: the samples pushed one by one, the bytes drained after each, then flushes
  until one is empty.  Both sample loaders are this loop around their own file reads.
\<close>

section \<open>The rate\<close>

definition rate_ok :: "u32 \<Rightarrow> bool" where
  "rate_ok r \<longleftrightarrow> 4000 \<le> unat r \<and> unat r \<le> 192000"

text \<open>The two divisions give \<open>rate * 2^16 * 432 / 8000000\<close>, rounded down, without 64-bit
  arithmetic.\<close>

lemma enc_ratio_exact:
  assumes "rate_ok r"
  shows "unat (enc_ratio (adpcm_enc_init r)) = unat r * 2 ^ 16 * 432 div 8000000"
proof -
  define n where "n = unat r * 432"
  have n: "n \<le> 82944000" using assms by (simp add: n_def rate_ok_def)
  have t: "unat (r * 432) = n" using n by (simp add: n_def unat_word_ariths)
  have q: "unat (r * 432 div 62500) = n div 62500" and m: "unat (r * 432 mod 62500) = n mod 62500"
    by (simp_all add: unat_div unat_mod t)
  have qb: "n div 62500 \<le> 1327" and mb: "n mod 62500 < 62500"
    using div_le_mono [OF n, of 62500] by simp_all
  have sh: "unat (push_bit 9 w) = unat w * 512" if "unat w < 8388608" for w :: u32
    using that by (simp add: push_bit_eq_mult unat_word_ariths)
  have q9: "unat (push_bit 9 (r * 432 div 62500)) = n div 62500 * 512"
    using sh q qb by simp
  have m9: "unat (push_bit 9 (r * 432 mod 62500) div 62500) = n mod 62500 * 512 div 62500"
    using sh m mb by (simp add: unat_div)
  have small: "n mod 62500 * 512 div 62500 < 512" using mb by (simp add: less_mult_imp_div_less)
  have "enc_ratio (adpcm_enc_init r) = push_bit 9 (r * 432 div 62500) + push_bit 9 (r * 432 mod 62500) div 62500"
    using assms by (auto simp: adpcm_enc_init_def ADPCMA_RATE_DIV_def rate_ok_def udiv32_def
        udiv_loop_correct Let_def)
  then have "unat (enc_ratio (adpcm_enc_init r)) = n div 62500 * 512 + n mod 62500 * 512 div 62500"
    using q9 m9 qb small by (simp only: unat_word_ariths) simp
  also have "\<dots> = n * 512 div 62500"
  proof -
    have "n * 512 = n mod 62500 * 512 + (n div 62500 * 512) * 62500"
      using mod_div_mult_eq [of n 62500] by linarith
    then have "n * 512 div 62500 = (n mod 62500 * 512 + (n div 62500 * 512) * 62500) div 62500" by presburger
    also have "\<dots> = n div 62500 * 512 + n mod 62500 * 512 div 62500" by (rule div_mult_self1) simp
    finally show ?thesis ..
  qed
  also have "\<dots> = unat r * 2 ^ 16 * 432 div 8000000"
    by (simp add: n_def)
  finally show ?thesis .
qed

lemma enc_ratio_range:
  assumes "rate_ok r"
  shows "14155 \<le> unat (enc_ratio (adpcm_enc_init r))" "unat (enc_ratio (adpcm_enc_init r)) \<le> 679477"
proof -
  have "(4000 * 2 ^ 16 * 432 :: nat) div 8000000 \<le> unat r * 2 ^ 16 * 432 div 8000000"
    "unat r * 2 ^ 16 * 432 div 8000000 \<le> (192000 * 2 ^ 16 * 432 :: nat) div 8000000"
    using assms by (intro div_le_mono; simp add: rate_ok_def)+
  then show "14155 \<le> unat (enc_ratio (adpcm_enc_init r))" "unat (enc_ratio (adpcm_enc_init r)) \<le> 679477"
    unfolding enc_ratio_exact [OF assms] by simp_all
qed

definition ratio_ok :: "adpcm_enc \<Rightarrow> bool" where
  "ratio_ok e \<longleftrightarrow> 14155 \<le> unat (enc_ratio e) \<and> unat (enc_ratio e) \<le> 679477"

section \<open>A push\<close>

text \<open>What an emission leaves alone.\<close>

lemma emit_nibble_keeps [simp]:
  "enc_ratio (emit_nibble t e) = enc_ratio e" "enc_pos (emit_nibble t e) = enc_pos e"
  "enc_idx (emit_nibble t e) = enc_idx e" "enc_cur (emit_nibble t e) = enc_cur e"
  "enc_prev (emit_nibble t e) = enc_prev e" "enc_primed (emit_nibble t e) = enc_primed e"
  "last_target (emit_nibble t e) = last_target e"
  by (simp_all add: emit_nibble_def Let_def split: prod.split)

lemma emit_sample_keeps [simp]:
  "enc_ratio (emit_sample fl e) = enc_ratio e" "enc_pos (emit_sample fl e) = enc_pos e + enc_ratio e"
  "enc_idx (emit_sample fl e) = enc_idx e" "enc_primed (emit_sample fl e) = enc_primed e"
  by (simp_all add: emit_sample_def Let_def)

text \<open>Nibbles waiting in the encoder, and outputs the current window still owes.\<close>

definition waiting :: "adpcm_enc \<Rightarrow> nat" where
  "waiting e = 2 * length (enc_out e) + of_bool (0 \<le> enc_half e)"

definition owed :: "adpcm_enc \<Rightarrow> nat" where
  "owed e = (if enc_window e then (65536 - unat (enc_pos e) mod 65536 + 14154) div 14155 else 0)"

lemma emit_nibble_waiting:
  assumes "waiting e < 16"
  shows "waiting (emit_nibble t e) = waiting e + 1"
  using assms by (auto simp: waiting_def emit_nibble_def ADPCMA_OUT_MAX_def Let_def split: prod.split)

lemma emit_sample_waiting:
  assumes "waiting e < 16"
  shows "waiting (emit_sample fl e) = waiting e + 1"
  using emit_nibble_waiting [of "e\<lparr>last_target := sample_target fl e\<rparr>" "sample_target fl e"] assms
  by (simp add: emit_sample_def waiting_def Let_def)

lemma tracks_upd [simp]:
  "tracks hist (e\<lparr>last_target := v\<rparr>) = tracks hist e"
  "tracks hist (e\<lparr>enc_pos := p\<rparr>) = tracks hist e"
  "tracks hist (e\<lparr>enc_prev := a, enc_cur := b\<rparr>) = tracks hist e"
  "tracks hist (e\<lparr>enc_idx := i\<rparr>) = tracks hist e"
  "tracks hist (e\<lparr>enc_primed := q\<rparr>) = tracks hist e"
  by (simp_all add: tracks_def emitted_def)

lemma tracks_drain: "tracks hist e \<Longrightarrow> tracks (hist @ enc_out e) (e\<lparr>enc_out := []\<rparr>)"
  by (auto simp: tracks_def emitted_def)

lemma emit_sample_tracks:
  assumes "enc_inv e" "tracks hist e" "waiting e < 16"
  shows "tracks hist (emit_sample fl e)"
proof -
  let ?e = "e\<lparr>last_target := sample_target fl e\<rparr>"
  have room: "length (enc_out ?e) < ADPCMA_OUT_MAX"
    using assms(3) by (simp add: waiting_def ADPCMA_OUT_MAX_def)
  have "tracks hist ?e" "enc_inv ?e" using assms(1,2) by (simp, simp add: enc_inv_def)
  then have "tracks hist (emit_nibble (sample_target fl e) ?e)"
    using emit_nibble_tracks room clamp12_range unfolding sample_target_def by blast
  then show ?thesis by (simp add: emit_sample_def Let_def)
qed

lemma same_window:
  assumes "drop_bit 16 (a :: u32) = drop_bit 16 b"
  shows "unat a div 65536 = unat b div 65536"
proof -
  have "unat (drop_bit 16 w) = unat w div 65536" for w :: u32
    by (simp only: unat_drop_bit_eq) (simp add: drop_bit_eq_div)
  then show ?thesis using assms by metis
qed

lemma less_div_bump:
  assumes "b + r < 65536" "14155 \<le> (r :: nat)"
  shows "(65536 - (b + r) + 14154) div 14155 < (65536 - b + 14154) div 14155"
proof -
  have "65536 - (b + r) + 14154 + 14155 \<le> 65536 - b + 14154" using assms by linarith
  then have "(65536 - (b + r) + 14154 + 14155) div 14155 \<le> (65536 - b + 14154) div 14155" by (rule div_le_mono)
  then show ?thesis using div_add_self2 [of 14155 "65536 - (b + r) + 14154"] by linarith
qed

text \<open>Each output inside the window uses up at least one of what it owes.\<close>

lemma owed_falls:
  assumes r: "ratio_ok e" and w: "enc_window e"
  shows "owed (emit_sample fl e) < owed e"
proof (cases "enc_window (emit_sample fl e)")
  case True
  let ?p = "unat (enc_pos e)" and ?q = "unat (enc_pos e + enc_ratio e)" and ?r = "unat (enc_ratio e)"
  have r': "14155 \<le> ?r" "?r \<le> 679477" using r by (auto simp: ratio_ok_def)
  have "drop_bit 16 (enc_pos e + enc_ratio e) = drop_bit 16 (enc_pos e)"
    using True w by (simp add: enc_window_def)
  then have hi: "?q div 65536 = ?p div 65536"
    by (rule same_window)
  have q: "?q = ?p + ?r"
  proof (rule ccontr)
    assume "?q \<noteq> ?p + ?r"
    then have "\<not> ?p + ?r < 2 ^ 32" by (auto simp: unat_word_ariths)
    then have "?q + 65536 \<le> ?p" using r' unat_bounds(3) [of "enc_pos e"] by (auto simp: unat_word_ariths mod_if)
    then have "?q div 65536 + 1 \<le> ?p div 65536"
      using div_le_mono [of "?q + 65536" ?p 65536] by simp
    then show False using hi by simp
  qed
  have "?q mod 65536 = ?p mod 65536 + ?r" using hi q by (metis div_mult_mod_eq add.assoc add_left_cancel)
  moreover have "?q mod 65536 < 65536" by simp
  ultimately show ?thesis
    using True w r' unfolding owed_def by (simp add: less_div_bump)
qed (use w in \<open>simp add: owed_def\<close>)

text \<open>What a push promises.  A window owes at most five outputs, so at most three bytes are
  ready and the buffer never saturates.\<close>

definition fresh :: "u8 list \<Rightarrow> adpcm_enc \<Rightarrow> bool" where
  "fresh hist e \<longleftrightarrow> enc_inv e \<and> ratio_ok e \<and> tracks hist e"

lemma owed_le: "owed e \<le> 5"
proof -
  have "(65536 - unat (enc_pos e) mod 65536 + 14154) div 14155 \<le> (79690 :: nat) div 14155"
    by (rule div_le_mono) simp
  then show ?thesis by (simp add: owed_def)
qed

lemma push_loop:
  assumes "fresh hist e" "waiting e + owed e \<le> 6"
  shows "\<exists>e'. while_loop enc_window (emit_sample False) e = Some e' \<and>
    (fresh hist e' \<and> waiting e' + owed e' \<le> 6 \<and> enc_idx e' = enc_idx e \<and> enc_primed e' = enc_primed e) \<and>
    \<not> enc_window e'"
proof (rule while_loop_total [where m = owed])
  fix s
  assume I: "fresh hist s \<and> waiting s + owed s \<le> 6 \<and> enc_idx s = enc_idx e \<and> enc_primed s = enc_primed e"
    and w: "enc_window s"
  then have "waiting s < 16" "owed (emit_sample False s) < owed s" by (auto intro: owed_falls simp: fresh_def)
  then show "(fresh hist (emit_sample False s) \<and> waiting (emit_sample False s) + owed (emit_sample False s) \<le> 6
      \<and> enc_idx (emit_sample False s) = enc_idx e \<and> enc_primed (emit_sample False s) = enc_primed e)
      \<and> owed (emit_sample False s) < owed s"
    using I emit_sample_inv emit_sample_tracks by (simp add: fresh_def ratio_ok_def emit_sample_waiting)
qed (use assms in simp)

lemma push_total:
  assumes "fresh hist e"
  obtains e' where "adpcm_enc_push s e = Some e'" "fresh (hist @ enc_out e) e'"
    "length (enc_out e') \<le> 3" "enc_primed e'" "enc_idx e' = (if enc_primed e then enc_idx e + 1 else enc_idx e)"
proof -
  let ?e0 = "e\<lparr>enc_out := [], enc_prev := enc_cur e, enc_cur := s\<rparr>"
  have i: "enc_inv e" "ratio_ok e" "tracks (hist @ enc_out e) (e\<lparr>enc_out := []\<rparr>)"
    using assms tracks_drain by (auto simp: fresh_def)
  have tr: "tracks (hist @ enc_out e) ?e0"
    using i(3) by (auto simp: tracks_def emitted_def)
  show ?thesis
  proof (cases "enc_primed e")
    case True
    let ?e1 = "?e0\<lparr>enc_idx := enc_idx e + 1\<rparr>"
    have "fresh (hist @ enc_out e) ?e1"
      using i tr by (simp add: fresh_def enc_inv_def ratio_ok_def)
    moreover have "waiting ?e1 + owed ?e1 \<le> 6" using owed_le [of ?e1] by (simp add: waiting_def)
    ultimately obtain e' where e': "while_loop enc_window (emit_sample False) ?e1 = Some e'"
      "fresh (hist @ enc_out e) e'" "waiting e' + owed e' \<le> 6" "enc_idx e' = enc_idx ?e1"
      "enc_primed e' = enc_primed ?e1"
      using push_loop by blast
    show ?thesis
      by (rule that [of e']) (use e' True in \<open>auto simp: adpcm_enc_push_def waiting_def\<close>)
  next
    case False
    then show ?thesis
      using i tr by (intro that [of "?e0\<lparr>enc_primed := True\<rparr>"])
        (auto simp: adpcm_enc_push_def fresh_def enc_inv_def ratio_ok_def)
  qed
qed

section \<open>A stream of samples\<close>

fun feed :: "sample list \<Rightarrow> u8 list \<times> adpcm_enc \<Rightarrow> (u8 list \<times> adpcm_enc) option" where
  "feed [] r = Some r"
| "feed (s # ss) (bs, e) =
     (case adpcm_enc_push s e of None \<Rightarrow> None | Some e' \<Rightarrow> feed ss (bs @ enc_out e', e'))"

text \<open>\<open>while (adpcm_enc_flush(&e)) consume;\<close>\<close>

definition drain_step ::
  "(u8 list \<Rightarrow> 's \<Rightarrow> 's) \<Rightarrow> adpcm_enc \<times> 's \<Rightarrow> (adpcm_enc \<times> 's) + (adpcm_enc \<times> 's)" where
  "drain_step consume es =
     (let e = adpcm_enc_flush (fst es)
      in if enc_out e = [] then Inr (e, snd es) else Inl (e, consume (enc_out e) (snd es)))"

definition enc_drain :: "(u8 list \<Rightarrow> 's \<Rightarrow> 's) \<Rightarrow> adpcm_enc \<times> 's \<Rightarrow> (adpcm_enc \<times> 's) option" where
  "enc_drain consume = loop (drain_step consume)"

definition encode_voice :: "u32 \<Rightarrow> sample list \<Rightarrow> (u8 list \<times> adpcm_enc) option" where
  "encode_voice rate ss =
     (case feed ss ([], adpcm_enc_init rate) of
        None \<Rightarrow> None
      | Some (bs, e) \<Rightarrow> map_option (\<lambda>(e, bs). (bs, e)) (enc_drain (\<lambda>out bs. bs @ out) (e, bs)))"

text \<open>The bytes fed so far do not include what is still in the buffer of the last push, so the
  history of \<open>tracks\<close> is cut there.\<close>

definition drained :: "u8 list \<Rightarrow> adpcm_enc \<Rightarrow> bool" where
  "drained bs e \<longleftrightarrow> fresh bs (e\<lparr>enc_out := []\<rparr>)"

lemma push_drained:
  assumes "drained bs e"
  obtains e' where "adpcm_enc_push s e = Some e'" "drained (bs @ enc_out e') e'"
    "enc_primed e'" "enc_idx e' = (if enc_primed e then enc_idx e + 1 else enc_idx e)"
proof -
  obtain e' where e': "adpcm_enc_push s (e\<lparr>enc_out := []\<rparr>) = Some e'"
    "fresh (bs @ enc_out (e\<lparr>enc_out := []\<rparr>)) e'" "length (enc_out e') \<le> 3" "enc_primed e'"
    "enc_idx e' = (if enc_primed (e\<lparr>enc_out := []\<rparr>) then enc_idx (e\<lparr>enc_out := []\<rparr>) + 1
                   else enc_idx (e\<lparr>enc_out := []\<rparr>))"
    by (rule push_total [OF assms [unfolded drained_def], of s])
  then have "tracks (bs @ enc_out e') (e'\<lparr>enc_out := []\<rparr>)" "enc_inv e'" "ratio_ok e'"
    by (simp_all add: fresh_def tracks_drain)
  then have "drained (bs @ enc_out e') e'"
    by (simp add: drained_def fresh_def enc_inv_clear ratio_ok_def)
  moreover have "adpcm_enc_push s e = Some e'" using e'(1) by (simp add: adpcm_enc_push_def)
  ultimately show ?thesis using e'(4,5) that by simp
qed

lemma enc_init_fields [simp]:
  "enc_out (adpcm_enc_init r) = []" "enc_half (adpcm_enc_init r) = -1" "enc_x (adpcm_enc_init r) = 0"
  "enc_step (adpcm_enc_init r) = 0" "enc_idx (adpcm_enc_init r) = 0" "enc_bytes (adpcm_enc_init r) = 0"
  "enc_primed (adpcm_enc_init r) = False" "enc_pos (adpcm_enc_init r) = 0"
  by (simp_all add: adpcm_enc_init_def Let_def split: prod.split)

lemma init_drained:
  assumes "rate_ok r"
  shows "drained [] (adpcm_enc_init r)"
proof -
  have "tracks [] (adpcm_enc_init r)" by (simp add: tracks_def emitted_def nibbles_def)
  then have "tracks [] (adpcm_enc_init r\<lparr>enc_out := []\<rparr>)" by (simp add: tracks_def emitted_def)
  moreover have "ratio_ok (adpcm_enc_init r\<lparr>enc_out := []\<rparr>)"
    using enc_ratio_range [OF assms] by (simp add: ratio_ok_def)
  ultimately show ?thesis using enc_inv_clear [OF enc_init_inv] by (simp add: drained_def fresh_def)
qed

lemma feed_total:
  assumes "drained bs e"
  shows "\<exists>bs' e'. feed ss (bs, e) = Some (bs', e') \<and> drained bs' e' \<and>
    (ss \<noteq> [] \<longrightarrow> enc_idx e' = enc_idx e + of_nat (if enc_primed e then length ss else length ss - 1))"
  using assms
proof (induction ss arbitrary: bs e)
  case (Cons s ss)
  obtain e1 where e1: "adpcm_enc_push s e = Some e1" "drained (bs @ enc_out e1) e1"
    "enc_primed e1" "enc_idx e1 = (if enc_primed e then enc_idx e + 1 else enc_idx e)"
    by (rule push_drained [OF Cons.prems])
  obtain bs' e' where "feed ss (bs @ enc_out e1, e1) = Some (bs', e')" "drained bs' e'"
    "ss \<noteq> [] \<longrightarrow> enc_idx e' = enc_idx e1 + of_nat (length ss)"
    using Cons.IH [OF e1(2)] e1(3) by auto
  then show ?case using e1 by (cases ss) auto
qed simp

end
