(* ===== verification/Adpcm_Flush.thy ===== *)
theory Adpcm_Flush
  imports Adpcm_Voice
begin

text \<open>
  The flush: it ends, on a 256-byte boundary, for a voice of up to 65521 source samples, and
  it never ends for one of 65536 or more, because the 16.16 position wraps before it passes
  the last sample.
\<close>

section \<open>Progress\<close>

text \<open>Nibbles already in the current 256-byte block, and what a flush has left to do.\<close>

definition in_block :: "adpcm_enc \<Rightarrow> nat" where
  "in_block e = 2 * (unat (enc_bytes e) mod 256) + of_bool (0 \<le> enc_half e)"

definition flush_left :: "adpcm_enc \<Rightarrow> nat" where
  "flush_left e = 512 * ((unat (enc_idx e) + 1) * 65536 - unat (enc_pos e)) + (512 - in_block e) mod 512"

lemma in_block_less: "in_block e < 512"
proof -
  have "unat (enc_bytes e) mod 256 < 256" by simp
  moreover have "of_bool (0 \<le> enc_half e) \<le> (1 :: nat)" by simp
  ultimately show ?thesis unfolding in_block_def by linarith
qed

lemma in_block_0: "in_block e = 0 \<longleftrightarrow> enc_half e < 0 \<and> enc_bytes e AND 0xFF = 0"
proof -
  have "enc_bytes e AND 0xFF = take_bit 8 (enc_bytes e)"
    by (simp add: take_bit_eq_mask mask_eq_exp_minus_1)
  moreover have "unat (take_bit 8 (enc_bytes e)) = unat (enc_bytes e) mod 256"
    by (simp only: unsigned_take_bit_eq) (simp add: take_bit_eq_mod)
  ultimately have "enc_bytes e AND 0xFF = 0 \<longleftrightarrow> unat (enc_bytes e) mod 256 = 0"
    by (metis unat_eq_zero)
  then show ?thesis unfolding in_block_def by auto
qed

lemma waiting_room: "length (enc_out e) < ADPCMA_OUT_MAX \<Longrightarrow> waiting e < 16"
  by (simp add: waiting_def ADPCMA_OUT_MAX_def)

lemma byte_wrap: "(unat (b + 1 :: u32)) mod 256 = (unat b mod 256 + 1) mod 256"
  by (simp add: unat_word_ariths mod_mod_cancel mod_Suc_eq)

lemma emit_nibble_block:
  assumes "length (enc_out e) < ADPCMA_OUT_MAX"
  shows "in_block (emit_nibble t e) = (in_block e + 1) mod 512"
proof (cases "enc_half e < 0")
  case True
  then show ?thesis
    using in_block_less [of e]
    by (auto simp: in_block_def emit_nibble_def Let_def split: prod.split)
next
  case False
  define m where "m = unat (enc_bytes e) mod 256"
  have h: "enc_half (emit_nibble t e) = -1" "enc_bytes (emit_nibble t e) = enc_bytes e + 1"
    using False assms by (auto simp: emit_nibble_def Let_def split: prod.split)
  have "m < 256" by (simp add: m_def)
  then have "2 * ((m + 1) mod 256) = (2 * m + 1 + 1) mod 512" by (cases "m = 255") auto
  moreover have "in_block e = 2 * m + 1" using False by (simp add: in_block_def m_def)
  ultimately show ?thesis unfolding in_block_def [of "emit_nibble t e"] h byte_wrap m_def [symmetric] by simp
qed

lemma emit_sample_block:
  assumes "length (enc_out e) < ADPCMA_OUT_MAX"
  shows "in_block (emit_sample fl e) = (in_block e + 1) mod 512"
proof -
  have "in_block (emit_sample fl e) = in_block (emit_nibble (sample_target fl e) (e\<lparr>last_target := sample_target fl e\<rparr>))"
    by (simp add: emit_sample_def in_block_def Let_def)
  then show ?thesis using emit_nibble_block assms by (simp add: in_block_def)
qed

text \<open>One padding nibble.\<close>

lemma pad_left:
  assumes "length (enc_out e) < ADPCMA_OUT_MAX" "\<not> (enc_half e < 0 \<and> enc_bytes e AND 0xFF = 0)"
  shows "flush_left (emit_nibble t e) + 1 \<le> flush_left e"
proof -
  have "in_block e \<noteq> 0" using assms(2) in_block_0 by simp
  then have "(512 - (in_block e + 1) mod 512) mod 512 + 1 \<le> (512 - in_block e) mod 512"
    using in_block_less [of e] by (auto simp: mod_if)
  then show ?thesis by (simp add: flush_left_def emit_nibble_block [OF assms(1)])
qed

text \<open>One sample of the flat tail: the position moves on and does not wrap.\<close>

lemma tail_left:
  assumes "length (enc_out e) < ADPCMA_OUT_MAX" "drop_bit 16 (enc_pos e) \<le> enc_idx e"
    and "unat (enc_idx e) \<le> 65520" "ratio_ok e"
  shows "flush_left (emit_sample fl e) + 1 \<le> flush_left e"
proof -
  define i p r where "i = unat (enc_idx e)" and "p = unat (enc_pos e)" and "r = unat (enc_ratio e)"
  have "unat (drop_bit 16 (enc_pos e)) \<le> i" using assms(2) by (simp only: word_le_nat_alt i_def)
  then have "p div 65536 \<le> i"
    unfolding p_def by (simp only: unat_drop_bit_eq) (simp add: drop_bit_eq_div)
  moreover have "p mod 65536 < 65536" by simp
  ultimately have p: "p < (i + 1) * 65536"
    by (simp add: div_less_iff_less_mult [symmetric] less_Suc_eq_le)
  have r: "14155 \<le> r" "r \<le> 679477" using assms(4) by (auto simp: ratio_ok_def r_def)
  have "p + r < 2 ^ 32" using p r assms(3) by (simp add: i_def)
  then have q: "unat (enc_pos e + enc_ratio e) = p + r" by (simp add: unat_word_ariths p_def r_def)
  have "(i + 1) * 65536 - (p + r) + 1 \<le> (i + 1) * 65536 - p" using p r by linarith
  moreover have "(512 - in_block (emit_sample fl e)) mod 512 < 512" by simp
  ultimately show ?thesis
    unfolding flush_left_def emit_sample_keeps q unfolding i_def [symmetric] p_def [symmetric] by linarith
qed

section \<open>The two loops\<close>

definition flushing :: "u8 list \<Rightarrow> adpcm_enc \<Rightarrow> bool" where
  "flushing hist e \<longleftrightarrow> fresh hist e \<and> unat (enc_idx e) \<le> 65520"

lemma emit_sample_flushing:
  assumes "flushing hist e" "length (enc_out e) < ADPCMA_OUT_MAX"
  shows "flushing hist (emit_sample fl e)"
  using assms emit_sample_inv emit_sample_tracks [OF _ _ waiting_room]
  by (simp add: flushing_def fresh_def ratio_ok_def)

lemma emit_nibble_flushing:
  assumes "flushing hist e" "length (enc_out e) < ADPCMA_OUT_MAX"
  shows "flushing hist (emit_nibble 0 e)"
  using assms emit_nibble_inv emit_nibble_tracks
  by (simp add: flushing_def fresh_def ratio_ok_def)

lemma flush_tail_left:
  assumes "flushing hist e"
  shows "flushing hist (flush_tail e) \<and> flush_left (flush_tail e) + waiting (flush_tail e) \<le> flush_left e + waiting e"
  using assms
proof (induction e rule: flush_tail.induct)
  case (1 e)
  show ?case
  proof (cases "length (enc_out e) < ADPCMA_OUT_MAX \<and> drop_bit 16 (enc_pos e) \<le> enc_idx e")
    case True
    then have "flush_left (emit_sample True e) + 1 \<le> flush_left e"
      using 1(2) by (intro tail_left) (auto simp: flushing_def fresh_def)
    moreover have "waiting (emit_sample True e) = waiting e + 1"
      using True by (simp add: emit_sample_waiting waiting_room)
    moreover have "flush_tail e = flush_tail (emit_sample True e)" using True by (subst flush_tail.simps) simp
    ultimately show ?thesis using 1(1) [OF True] emit_sample_flushing [OF 1(2)] True by fastforce
  next
    case False
    then have "flush_tail e = e" by (subst flush_tail.simps) (rule if_not_P)
    then show ?thesis using 1(2) by simp
  qed
qed

lemma flush_pad_left:
  assumes "flushing hist e"
  shows "flushing hist (flush_pad e) \<and> flush_left (flush_pad e) + waiting (flush_pad e) \<le> flush_left e + waiting e"
  using assms
proof (induction e rule: flush_pad.induct)
  case (1 e)
  show ?case
  proof (cases "length (enc_out e) < ADPCMA_OUT_MAX \<and> \<not> (enc_half e < 0 \<and> enc_bytes e AND 0xFF = 0)")
    case True
    then have "flush_left (emit_nibble 0 e) + 1 \<le> flush_left e" by (intro pad_left) auto
    moreover have "waiting (emit_nibble 0 e) = waiting e + 1"
      using True by (simp add: emit_nibble_waiting waiting_room)
    moreover have "flush_pad e = flush_pad (emit_nibble 0 e)" using True by (subst flush_pad.simps) simp
    ultimately show ?thesis using 1(1) [OF True] emit_nibble_flushing [OF 1(2)] True by fastforce
  next
    case False
    then have "flush_pad e = e" by (subst flush_pad.simps) (rule if_not_P)
    then show ?thesis using 1(2) by simp
  qed
qed

section \<open>The drain\<close>

text \<open>Where the two loops stop.\<close>

lemma flush_tail_stop:
  "ADPCMA_OUT_MAX \<le> length (enc_out (flush_tail e))
    \<or> \<not> drop_bit 16 (enc_pos (flush_tail e)) \<le> enc_idx (flush_tail e)"
proof (induction e rule: flush_tail.induct)
  case (1 e)
  then show ?case by (subst (1 2 3) flush_tail.simps) auto
qed

lemma flush_pad_stop:
  "ADPCMA_OUT_MAX \<le> length (enc_out (flush_pad e)) \<or> in_block (flush_pad e) = 0"
proof (induction e rule: flush_pad.induct)
  case (1 e)
  then show ?case unfolding in_block_0 by (subst (1 2 3) flush_pad.simps) auto
qed

lemma flush_step:
  assumes "flushing hist (e\<lparr>enc_out := []\<rparr>)"
  shows "flushing hist (adpcm_enc_flush e)"
    "enc_out (adpcm_enc_flush e) = [] \<Longrightarrow> in_block (adpcm_enc_flush e) = 0"
    "enc_out (adpcm_enc_flush e) \<noteq> [] \<Longrightarrow> flush_left (adpcm_enc_flush e) < flush_left e"
proof -
  let ?a = "e\<lparr>enc_out := []\<rparr>" and ?f = "adpcm_enc_flush e"
  have "flushing hist (flush_tail ?a) \<and> flush_left (flush_tail ?a) + waiting (flush_tail ?a) \<le> flush_left ?a + waiting ?a"
    using assms by (rule flush_tail_left)
  then have "flushing hist ?f \<and> flush_left ?f + waiting ?f \<le> flush_left ?a + waiting ?a"
    using flush_pad_left [of hist "flush_tail ?a"] by (auto simp: adpcm_enc_flush_def)
  moreover have "flush_left ?a = flush_left e" "waiting ?a \<le> 1"
    by (simp_all add: flush_left_def in_block_def waiting_def)
  moreover have "enc_out ?f \<noteq> [] \<Longrightarrow> 2 \<le> waiting ?f" by (cases "enc_out ?f") (auto simp: waiting_def)
  ultimately show "flushing hist ?f" "enc_out ?f \<noteq> [] \<Longrightarrow> flush_left ?f < flush_left e" by auto
  show "enc_out ?f = [] \<Longrightarrow> in_block ?f = 0"
    using flush_pad_stop [of "flush_tail ?a"] by (auto simp: adpcm_enc_flush_def ADPCMA_OUT_MAX_def)
qed

text \<open>Draining into any consumer ends, and appending collects what every consumer is given.\<close>

lemma drain_ends:
  assumes "drained bs e" "unat (enc_idx e) \<le> 65520"
  shows "\<exists>e' out s'. enc_drain consume (e, s) = Some (e', s')
    \<and> enc_drain (\<lambda>out bs. bs @ out) (e, bs) = Some (e', bs @ out)
    \<and> drained (bs @ out) e' \<and> in_block e' = 0 \<and> enc_out e' = []"
  using assms
proof (induction "flush_left e" arbitrary: e bs s rule: less_induct)
  case less
  let ?f = "adpcm_enc_flush e"
  have fl: "flushing bs (e\<lparr>enc_out := []\<rparr>)"
    using less.prems by (simp add: flushing_def drained_def)
  then have f: "flushing bs ?f" by (rule flush_step)
  then have tr: "tracks (bs @ enc_out ?f) (?f\<lparr>enc_out := []\<rparr>)" "enc_inv ?f" "ratio_ok ?f" "unat (enc_idx ?f) \<le> 65520"
    by (auto simp: flushing_def fresh_def tracks_drain)
  then have d: "drained (bs @ enc_out ?f) ?f"
    by (simp add: drained_def fresh_def enc_inv_clear ratio_ok_def)
  show ?case
  proof (cases "enc_out ?f = []")
    case True
    then have "enc_drain consume (e, s) = Some (?f, s)" "enc_drain (\<lambda>out bs. bs @ out) (e, bs) = Some (?f, bs @ [])"
      unfolding enc_drain_def by (subst loop_exit; simp add: drain_step_def Let_def)+
    then show ?thesis using d True flush_step(2) [OF fl True] by (intro exI [of _ ?f]) auto
  next
    case False
    then have "enc_drain consume (e, s) = enc_drain consume (?f, consume (enc_out ?f) s)"
      "enc_drain (\<lambda>out bs. bs @ out) (e, bs) = enc_drain (\<lambda>out bs. bs @ out) (?f, bs @ enc_out ?f)"
      unfolding enc_drain_def by (intro loop_next; simp add: drain_step_def Let_def)+
    moreover have "flush_left ?f < flush_left e" using flush_step(3) [OF fl False] .
    ultimately show ?thesis
      using less.hyps [OF _ d tr(4), of "consume (enc_out ?f) s"] by (metis append.assoc)
  qed
qed

text \<open>From source index 65535 on, the position can no longer pass the last sample.\<close>

lemma flush_never_empty:
  assumes "65535 \<le> enc_idx e"
  shows "enc_out (adpcm_enc_flush e) \<noteq> []" "enc_idx (adpcm_enc_flush e) = enc_idx e"
proof -
  have idx_t: "enc_idx (flush_tail a) = enc_idx a" for a
  proof (induction a rule: flush_tail.induct)
    case (1 a)
    then show ?case by (subst flush_tail.simps) simp
  qed
  have idx_p: "enc_idx (flush_pad a) = enc_idx a" for a
  proof (induction a rule: flush_pad.induct)
    case (1 a)
    then show ?case by (subst flush_pad.simps) simp
  qed
  show idx: "enc_idx (adpcm_enc_flush e) = enc_idx e" by (simp add: adpcm_enc_flush_def idx_t idx_p)
  let ?t = "flush_tail (e\<lparr>enc_out := []\<rparr>)"
  have "unat (drop_bit 16 (enc_pos ?t)) \<le> 65535"
    using unat_bounds(3) [of "enc_pos ?t"] by (simp only: unat_drop_bit_eq) (simp add: drop_bit_eq_div)
  then have "drop_bit 16 (enc_pos ?t) \<le> enc_idx ?t"
    using assms by (simp add: idx_t word_le_nat_alt)
  then have full: "ADPCMA_OUT_MAX \<le> length (enc_out ?t)" using flush_tail_stop by blast
  then have "flush_pad ?t = ?t" by (subst flush_pad.simps) simp
  then show "enc_out (adpcm_enc_flush e) \<noteq> []"
    using full by (auto simp: adpcm_enc_flush_def ADPCMA_OUT_MAX_def)
qed

lemma drain_forever:
  assumes "65535 \<le> enc_idx e"
  shows "enc_drain consume (e, s) = None"
  unfolding enc_drain_def
proof (rule loop_forever [where I = "\<lambda>es. 65535 \<le> enc_idx (fst es)"])
  fix es :: "adpcm_enc \<times> 'a"
  assume "65535 \<le> enc_idx (fst es)"
  then show "\<exists>t. drain_step consume es = Inl t \<and> 65535 \<le> enc_idx (fst t)"
    using flush_never_empty by (auto simp: drain_step_def Let_def)
qed (use assms in simp)

end
