(* ===== verification/Adpcm_Props.thy ===== *)
theory Adpcm_Props
  imports Adpcm_Flush
begin

text \<open>The properties of the ADPCM-A encoder.\<close>

section \<open>Widths\<close>

lemma feed_inv:
  assumes "feed ss (bs, e) = Some (bs', e')" "enc_inv e"
  shows "enc_inv e'"
  using assms
  by (induction ss arbitrary: bs e) (auto split: option.splits dest: enc_push_inv)

text \<open>C36: The encoder's signed members never leave their C types and never index outside a table,
  whatever the rate and the samples: the step index is 0 to 48, the accumulator stays within
  4340 of zero (so no \<open>int32_t\<close> sum overflows), the pending nibble is -1 to 15 and \<open>out\<close> never
  holds more than its eight bytes.\<close>

theorem encoder_widths:
  assumes "feed ss ([], adpcm_enc_init rate) = Some (bs, e)"
  shows "0 \<le> enc_step e \<and> enc_step e \<le> 48 \<and> \<bar>enc_x e\<bar> \<le> 4340 \<and> -1 \<le> enc_half e \<and> enc_half e < 16
    \<and> length (enc_out e) \<le> 8"
  using feed_inv [OF assms enc_init_inv] by (simp add: enc_inv_def ADPCMA_OUT_MAX_def)

theorem encoder_widths_witness:
  "feed [100] ([], adpcm_enc_init 8000) = Some ([], adpcm_enc_init 8000\<lparr>enc_cur := 100, enc_primed := True\<rparr>) \<and>
   \<bar>enc_x (adpcm_enc_init 8000\<lparr>enc_cur := 100, enc_primed := True\<rparr>)\<bar> \<le> 4340"
proof -
  have run: "feed [100] ([], adpcm_enc_init 8000)
      = Some ([], adpcm_enc_init 8000\<lparr>enc_cur := 100, enc_primed := True\<rparr>)"
    by (simp add: adpcm_enc_push_def adpcm_enc_init_def Let_def split: prod.split)
  then show ?thesis using encoder_widths [OF run] by simp
qed

section \<open>One output sample\<close>

text \<open>C35: One output sample is right: its target is the linear interpolation of the two source
  samples at the 16.16 position, floored, in the 12-bit domain and clamped there (so the 32-bit
  magnitude multiply loses nothing), and the accumulator it leaves is one increment away from
  the old one and at least as close to the target as any of the sixteen nibbles would get.\<close>

theorem emit_sample_best:
  assumes "enc_inv e" "b < 16"
  defines "t \<equiv> clamp12 (drop_bit 4 (sint (enc_prev e)
     + (sint (enc_cur e) - sint (enc_prev e)) * int (unat (enc_pos e) mod 65536) div 65536))"
  shows "last_target (emit_sample False e) = t
    \<and> (\<exists>n<16. enc_x (emit_sample False e) = cand (enc_x e) (enc_step e) n)
    \<and> \<bar>enc_x (emit_sample False e) - t\<bar> \<le> \<bar>cand (enc_x e) (enc_step e) b - t\<bar>"
proof -
  have t: "sample_target False e = t" "-2048 \<le> t" "t \<le> 2047"
    using clamp12_range by (simp_all add: t_def sample_target_def interpolate_exact)
  have i: "0 \<le> enc_step e" "enc_step e \<le> 48" "\<bar>enc_x e\<bar> \<le> 4340" using assms(1) by (auto simp: enc_inv_def)
  obtain n where n: "pick_nibble (enc_x e) (enc_step e) t = (cand (enc_x e) (enc_step e) n, n)" "n < 16"
    "\<And>b'. b' < 16 \<Longrightarrow> \<bar>cand (enc_x e) (enc_step e) n - t\<bar> \<le> \<bar>cand (enc_x e) (enc_step e) b' - t\<bar>"
    using pick_nibble_inv [OF i t(2,3)] by metis
  have "enc_x (emit_sample False e) = cand (enc_x e) (enc_step e) n" "last_target (emit_sample False e) = t"
    using n(1) t(1) by (simp_all add: emit_sample_def emit_nibble_def Let_def)
  with n(2,3) assms(2) show ?thesis by auto
qed

text \<open>An encoder between the samples 0 and 1600, half-way.\<close>

definition halfway :: adpcm_enc where
  "halfway = adpcm_enc_init 8000\<lparr>enc_cur := 1600, enc_pos := 0x8000, enc_primed := True\<rparr>"

theorem emit_sample_best_witness:
  "last_target (emit_sample False halfway) = 50 \<and> \<bar>enc_x (emit_sample False halfway) - 50\<bar> \<le> 20"
proof -
  have f: "enc_prev halfway = 0" "enc_cur halfway = 1600" "enc_pos halfway = 0x8000"
    "enc_x halfway = 0" "enc_step halfway = 0" "enc_inv halfway"
    using enc_init_inv [of 8000]
    by (simp_all add: halfway_def enc_inv_def adpcm_enc_init_def Let_def split: prod.split)
  have c: "cand 0 0 7 = 30" by (simp add: cand_def ADPCMA_INC_def)
  have "sint (1600 :: sample) = 1600" by simp
  then show ?thesis
    using emit_sample_best [OF f(6), of 7] by (simp add: f c clamp12_def drop_bit_eq_div)
qed

section \<open>A whole voice\<close>

lemma feed_voice:
  assumes "rate_ok rate"
  obtains bs e where "feed ss ([], adpcm_enc_init rate) = Some (bs, e)" "drained bs e"
    "enc_idx e = of_nat (length ss - 1)"
proof -
  obtain bs e where r: "feed ss ([], adpcm_enc_init rate) = Some (bs, e)" "drained bs e"
    "ss \<noteq> [] \<longrightarrow> enc_idx e = of_nat (length ss - 1)"
    using feed_total [OF init_drained [OF assms], of ss] by auto
  moreover have "ss = [] \<Longrightarrow> enc_idx e = 0" using r(1) by auto
  ultimately show ?thesis using that by (cases "ss = []") auto
qed

lemma block_dvd:
  assumes "drained bs e" "in_block e = 0" "enc_out e = []"
  shows "256 dvd length bs" "emitted bs e = nibbles bs"
proof -
  have "enc_half e < 0" "enc_bytes e = of_nat (length bs)" "unat (enc_bytes e) mod 256 = 0"
    using assms by (auto simp: drained_def fresh_def tracks_def in_block_def split: if_splits)
  then show "256 dvd length bs" "emitted bs e = nibbles bs"
    using assms(3) by (auto simp: emitted_def unat_of_nat mod_mod_cancel dvd_eq_mod_eq_0)
qed

text \<open>C33: The hardware plays what the encoder meant.  For every source rate the loaders accept
  and every voice of up to 65521 samples, the encoder returns a whole number of 256-byte blocks
  with no nibble left over, and the decoder of \<open>jt10_adpcm.v\<close>, fed those nibbles from reset,
  ends with the encoder's step index and its accumulator, modulo the 12 bits the hardware
  keeps.\<close>

theorem voice_decodes:
  assumes "rate_ok rate" "length ss \<le> 65521"
  shows "\<exists>B e. encode_voice rate ss = Some (B, e) \<and> 256 dvd length B \<and>
    fold jt10_decode (nibbles B) (0, 0) = (of_int (enc_x e), nat (enc_step e))"
proof -
  obtain bs e where r: "feed ss ([], adpcm_enc_init rate) = Some (bs, e)" "drained bs e"
    "enc_idx e = of_nat (length ss - 1)"
    using feed_voice [OF assms(1)] .
  have "unat (enc_idx e) \<le> 65520" using assms(2) by (simp add: r(3) unat_of_nat)
  then obtain e' out where d: "enc_drain (\<lambda>out bs. bs @ out) (e, bs) = Some (e', bs @ out)"
    "drained (bs @ out) e'" "in_block e' = 0" "enc_out e' = []"
    using drain_ends [OF r(2), where consume = "\<lambda>out bs. bs @ out" and s = bs] by blast
  then have "tracks (bs @ out) e'" by (auto simp: drained_def fresh_def tracks_def emitted_def)
  then have "fold jt10_decode (nibbles (bs @ out)) (0, 0) = (of_int (enc_x e'), nat (enc_step e'))"
    using block_dvd(2) [OF d(2-4)] by (simp add: tracks_def)
  then show ?thesis using block_dvd(1) [OF d(2-4)] d(1) r(1) by (auto simp: encode_voice_def)
qed

theorem voice_decodes_witness:
  "\<exists>B e. encode_voice 44100 (replicate 1000 0x4000) = Some (B, e) \<and> 256 dvd length B \<and>
    fold jt10_decode (nibbles B) (0, 0) = (of_int (enc_x e), nat (enc_step e))"
  by (rule voice_decodes) (simp_all add: rate_ok_def)

text \<open>C34: At every source rate the loaders accept (4 to 192 kHz), for an encoder started at that rate
  and fed at most 65521 samples, \<open>while (adpcm_enc_flush(&e)) ...\<close> ends, whatever the loop does with
  the bytes, and it ends with no nibble pending and
  the byte count on a 256-byte boundary.\<close>

theorem flush_terminates:
  assumes "rate_ok rate" "length ss \<le> 65521" "feed ss ([], adpcm_enc_init rate) = Some (bs, e)"
  shows "\<exists>e' s'. enc_drain consume (e, s) = Some (e', s') \<and> enc_half e' = -1 \<and> enc_bytes e' AND 0xFF = 0"
proof -
  obtain bs' a where r: "feed ss ([], adpcm_enc_init rate) = Some (bs', a)" "drained bs' a"
    "enc_idx a = of_nat (length ss - 1)"
    using feed_voice [OF assms(1)] .
  then have e: "drained bs e" "enc_idx e = of_nat (length ss - 1)" using assms(3) by auto
  have "unat (enc_idx e) \<le> 65520" using assms(2) by (simp add: e(2) unat_of_nat)
  then obtain e' out s' where d: "enc_drain consume (e, s) = Some (e', s')" "drained (bs @ out) e'" "in_block e' = 0"
    using drain_ends [OF e(1), where consume = consume and s = s] by blast
  then have "enc_half e' < 0" "enc_bytes e' AND 0xFF = 0" "-1 \<le> enc_half e'"
    using in_block_0 by (auto simp: drained_def fresh_def enc_inv_def)
  then show ?thesis using d(1) by force
qed

theorem flush_terminates_witness:
  "\<exists>bs e e' n. feed (replicate 1000 0x4000) ([], adpcm_enc_init 44100) = Some (bs, e)
     \<and> enc_drain (\<lambda>out n. n + length out) (e, 0) = Some (e', n) \<and> enc_half e' = -1 \<and> enc_bytes e' AND 0xFF = 0"
proof -
  have ok: "rate_ok 44100" by (simp add: rate_ok_def)
  obtain bs e where r: "feed (replicate 1000 0x4000) ([], adpcm_enc_init 44100) = Some (bs, e)"
    using feed_voice [OF ok] by metis
  have "\<exists>e' n. enc_drain (\<lambda>out n. n + length out) (e, 0 :: nat) = Some (e', n) \<and> enc_half e' = -1 \<and> enc_bytes e' AND 0xFF = 0"
    by (rule flush_terminates [OF ok _ r]) simp
  then show ?thesis using r by blast
qed

text \<open>C37: At every source rate the loaders accept, a voice of 65536 or more source samples hangs the
  firmware.  The 16.16 position wraps
  at 65536 samples, so no flush is ever empty and the loop around it never ends, whatever it
  does with the bytes.\<close>

theorem long_voice_hangs:
  assumes "rate_ok rate" "65536 \<le> length ss" "length ss < 2 ^ 32"
    "feed ss ([], adpcm_enc_init rate) = Some (bs, e)"
  shows "enc_drain consume (e, s) = None"
proof (rule drain_forever)
  obtain bs' a where "feed ss ([], adpcm_enc_init rate) = Some (bs', a)"
    "enc_idx a = of_nat (length ss - 1)"
    using feed_voice [OF assms(1)] by metis
  then have "enc_idx e = of_nat (length ss - 1)" using assms(4) by auto
  then have "unat (enc_idx e) = length ss - 1" using assms(3) by (simp only: unat_of_nat) simp
  then show "65535 \<le> enc_idx e" using assms(2) by (simp add: word_le_nat_alt)
qed

theorem long_voice_hangs_witness:
  "\<exists>bs e. feed (replicate 70000 0) ([], adpcm_enc_init 44100) = Some (bs, e) \<and>
     enc_drain (\<lambda>out n. n + length out) (e, 0) = None"
proof -
  have ok: "rate_ok 44100" by (simp add: rate_ok_def)
  obtain bs e where r: "feed (replicate 70000 0) ([], adpcm_enc_init 44100) = Some (bs, e)"
    using feed_voice [OF ok] by metis
  then have "enc_drain (\<lambda>out n. n + length out) (e, 0) = None"
    by (rule long_voice_hangs [OF ok, rotated 2]) simp_all
  then show ?thesis using r by blast
qed

section \<open>The overshoot\<close>

text \<open>Nothing keeps the accumulator inside the 12 bits the decoder has: eight full-scale samples
  take it to 2150, which the hardware plays as -1946.\<close>

lemma full_scale_wraps:
  "map_option (\<lambda>(bs, e). (last_target e, enc_x e, sint (of_int (enc_x e) :: 12 word)))
     (feed (replicate 8 0x7FFF) ([], adpcm_enc_init 18519)) = Some (2047, 2150, -1946)"
  by code_simp

end
