(* ===== verification/Rhythm.thy ===== *)
theory Rhythm
  imports Adpcm_Voice Fdd
begin

text \<open>
  \<open>firmware/rhythm.c\<close>: the loader of the OPNA's rhythm store, from \<open>rhythm.bin\<close> or from the
  six per-voice WAV slots, one bounded step per call.  Everything that can fail to return
  (\<open>wav_probe\<close>'s chunk walk, the encoder's loops) is an option.
\<close>

section \<open>State\<close>

definition RHYTHM_SLOT_ID :: u16 where "RHYTHM_SLOT_ID = 13"
definition RHY_WAV_SLOT_BASE :: u16 where "RHY_WAV_SLOT_BASE = 14"
definition RHYTHM_MAGIC :: u32 where "RHYTHM_MAGIC = 0x31415952"
definition RHYTHM_HDR_WORDS :: u32 where "RHYTHM_HDR_WORDS = 8"
definition RHY_STORE_BYTES :: u32 where "RHY_STORE_BYTES = 16384"
definition RIFF_RIFF :: u32 where "RIFF_RIFF = 0x46464952"
definition RIFF_WAVE :: u32 where "RIFF_WAVE = 0x45564157"
definition RIFF_FMT :: u32 where "RIFF_FMT = 0x20746D66"
definition RIFF_DATA :: u32 where "RIFF_DATA = 0x61746164"

definition OMGMT_RHYADDR :: u32 where "OMGMT_RHYADDR = 0"
definition OMGMT_RHYDATA :: u32 where "OMGMT_RHYDATA = 1"
definition OMGMT_INJ_P0 :: u32 where "OMGMT_INJ_P0 = 2"
definition OMGMT_INJ_P1 :: u32 where "OMGMT_INJ_P1 = 3"
definition OMGMT_BUSY :: u32 where "OMGMT_BUSY = 4"
definition OMGMT_STATUS1 :: u32 where "OMGMT_STATUS1 = 6"
definition OMGMT_CAPS :: u32 where "OMGMT_CAPS = 8"
definition OMGMT_LR0 :: u32 where "OMGMT_LR0 = 9"

lemmas omgmt_regs = OMGMT_RHYADDR_def OMGMT_RHYDATA_def OMGMT_INJ_P0_def OMGMT_INJ_P1_def
  OMGMT_BUSY_def OMGMT_STATUS1_def OMGMT_CAPS_def OMGMT_LR0_def

lemmas rhy_consts = RHYTHM_SLOT_ID_def RHY_WAV_SLOT_BASE_def RHYTHM_MAGIC_def RHYTHM_HDR_WORDS_def
  RHY_STORE_BYTES_def RIFF_RIFF_def RIFF_WAVE_def RIFF_FMT_def RIFF_DATA_def

record 'h rhy_st = "'h fdd_st" +
  wav_voice :: u32
  wav_cursor :: u32
  wav_done :: "nat \<Rightarrow> bool"
  rhythm_start :: "nat \<Rightarrow> u16"
  rhythm_end :: "nat \<Rightarrow> u16"
  wav_enc :: adpcm_enc
  wav_slot :: u16
  wav_pos :: u32
  wav_left :: u32
  wav_written :: u32
  wav_ch :: u16
  wav_bits :: u16
  wav_open :: bool
  wav_failed :: bool
  rhy_mode :: u32

section \<open>The OPNA window\<close>

definition opna_mgmt_write :: "u32 \<Rightarrow> u32 \<Rightarrow> ('h, 'z) bus_scheme \<Rightarrow> ('h, 'z) bus_scheme" where
  "opna_mgmt_write reg data s = mgmt_wr (OPNA_TARGET OR (reg AND 0xF)) data s"

definition opna_mgmt_read :: "u32 \<Rightarrow> ('h, 'z) bus_scheme \<Rightarrow> u32 \<times> ('h, 'z) bus_scheme" where
  "opna_mgmt_read reg s = (let (v, s) = mgmt_rd (OPNA_TARGET OR (reg AND 0xF)) s in (v AND 0xFFFF, s))"

text \<open>\<open>while ((opna_mgmt_read(OMGMT_BUSY) & 1) && --to) ;\<close>\<close>

fun busy_spin :: "nat \<Rightarrow> ('h, 'z) bus_scheme \<Rightarrow> ('h, 'z) bus_scheme" where
  "busy_spin 0 s = s"
| "busy_spin (Suc t) s =
     (let (v, s) = opna_mgmt_read OMGMT_BUSY s in if v AND 1 \<noteq> 0 then busy_spin t s else s)"

definition inject :: "u32 \<Rightarrow> u32 \<Rightarrow> ('h, 'z) bus_scheme \<Rightarrow> ('h, 'z) bus_scheme" where
  "inject port v s = opna_mgmt_write port v (busy_spin DISK_SPIN_LIMIT s)"

definition inject_pair :: "u32 \<Rightarrow> u32 \<Rightarrow> u32 \<Rightarrow> ('h, 'z) bus_scheme \<Rightarrow> ('h, 'z) bus_scheme" where
  "inject_pair ch start256 end256 s =
     fold (inject OMGMT_INJ_P1)
       [push_bit 8 (0x10 + ch) OR (start256 AND 0xFF),
        push_bit 8 (0x18 + ch) OR (drop_bit 8 start256 AND 0xF),
        push_bit 8 (0x20 + ch) OR (end256 AND 0xFF),
        push_bit 8 (0x28 + ch) OR (drop_bit 8 end256 AND 0xF)] s"

section \<open>The packed file\<close>

definition clamp_start :: "u32 \<Rightarrow> u16" where
  "clamp_start v = (if drop_bit 8 RHY_STORE_BYTES \<le> v then 0 else ucast v)"

definition clamp_end :: "u32 \<Rightarrow> u16" where
  "clamp_end v = (if drop_bit 8 RHY_STORE_BYTES \<le> v then ucast (drop_bit 8 RHY_STORE_BYTES - 1) else ucast v)"

definition bin_pair :: "nat \<Rightarrow> ('h, 'z) rhy_st_scheme \<Rightarrow> ('h, 'z) rhy_st_scheme" where
  "bin_pair i s =
     (let (w, s) = bram_read s
      in s\<lparr>rhythm_start := (rhythm_start s)(i := clamp_start (w AND 0xFFFF)),
           rhythm_end := (rhythm_end s)(i := clamp_end (drop_bit 16 w))\<rparr>)"

text \<open>One word of a chunk: the bytes that lie inside it.\<close>

definition bin_word :: "u32 \<Rightarrow> nat \<Rightarrow> ('h, 'z) bus_scheme \<Rightarrow> ('h, 'z) bus_scheme" where
  "bin_word n wi s =
     (let (w, s) = bram_read s
      in for_to 4 (\<lambda>b s. if of_nat (wi * 4 + b) < n
                        then opna_mgmt_write OMGMT_RHYDATA (drop_bit (8 * b) w AND 0xFF) s else s) s)"

fun bin_chunks :: "'h apf \<Rightarrow> u32 \<Rightarrow> u32 \<Rightarrow> nat list \<Rightarrow> ('h, 'z) bus_scheme \<Rightarrow> bool \<times> ('h, 'z) bus_scheme" where
  "bin_chunks apf payload len [] s = (True, s)"
| "bin_chunks apf payload len (k # ks) s =
     (let off = of_nat (512 * k);
          n = if SECTOR_BYTES < len - off then SECTOR_BYTES else len - off;
          (ok, s) = tds_transfer apf RHYTHM_SLOT_ID (payload + off) FDD_TDS_READ n s
      in if \<not> ok then (False, s)
         else bin_chunks apf payload len ks
                (for_to (unat ((n + 3) div 4)) (bin_word n) (bram_seek 0 s)))"

definition bin_payload :: "u32 \<Rightarrow> u32" where
  "bin_payload n = (if RHY_STORE_BYTES < n then RHY_STORE_BYTES else n)"

definition bin_load :: "'h apf \<Rightarrow> ('h, 'z) rhy_st_scheme \<Rightarrow> bool \<times> ('h, 'z) rhy_st_scheme" where
  "bin_load apf s =
     (let (total, s) = slot_bytes RHYTHM_SLOT_ID s
      in if total < RHYTHM_HDR_WORDS * 4 + 256 then (False, s)
         else
           let (ok, s) = tds_transfer apf RHYTHM_SLOT_ID 0 FDD_TDS_READ (RHYTHM_HDR_WORDS * 4) s
           in if \<not> ok then (False, s)
              else
                let (magic, s) = bram_read (bram_seek 0 s)
                in if magic \<noteq> RHYTHM_MAGIC then (False, s)
                   else
                     let (payload, s) = bram_read s
                     in if payload < RHYTHM_HDR_WORDS * 4 \<or> total \<le> payload then (False, s)
                        else
                          let s = for_to 6 bin_pair s;
                              len = bin_payload (total - payload);
                              s = opna_mgmt_write OMGMT_RHYADDR 0 s;
                              (ok, s) = bin_chunks apf payload len [0..<(unat len + 511) div 512] s
                          in if \<not> ok then (False, s)
                             else (True, for_to 6 (\<lambda>ch s. inject_pair (of_nat ch)
                                     (ucast (rhythm_start s ch)) (ucast (rhythm_end s ch)) s) s))"

section \<open>The WAV probe\<close>

definition wav_read :: "'h apf \<Rightarrow> u16 \<Rightarrow> u32 \<Rightarrow> u32 \<Rightarrow> ('h, 'z) hw_scheme \<Rightarrow> u32 \<times> ('h, 'z) hw_scheme" where
  "wav_read apf slot off n s =
     (let (ok, s) = tds_transfer apf slot off FDD_TDS_READ n s
      in if \<not> ok then (0, s) else ((n + 3) div 4, bram_seek 0 s))"

text \<open>What a probe answers: where the samples start, how many bytes, and the rate.\<close>

type_synonym wav_info = "u32 \<times> u32 \<times> u32"

text \<open>One round of the chunk walk over \<open>(off, got_fmt, rate)\<close>.\<close>

definition wav_chunk ::
  "'h apf \<Rightarrow> u16 \<Rightarrow> u32 \<Rightarrow> (u32 \<times> bool \<times> u32) \<times> ('h, 'z) rhy_st_scheme \<Rightarrow>
   (u32 \<times> bool \<times> u32) \<times> ('h, 'z) rhy_st_scheme + wav_info option \<times> ('h, 'z) rhy_st_scheme" where
  "wav_chunk apf slot fin r =
     (let ((off, got_fmt, rate), s) = r
      in if \<not> (off + 8 \<le> fin \<and> off < 4096) then Inr (None, s)
         else
           let (n, s) = wav_read apf slot off 8 s
           in if n = 0 then Inr (None, s)
              else
                let (cid, s) = bram_read s; (sz, s) = bram_read s
                in if cid = RIFF_FMT \<and> 16 \<le> sz then
                     let (n, s) = wav_read apf slot (off + 8) 16 s
                     in if n = 0 then Inr (None, s)
                        else
                          let (w0, s) = bram_read s; (rate, s) = bram_read s;
                              (_, s) = bram_read s; (w3, s) = bram_read s
                          in if w0 AND 0xFFFF \<noteq> 1 then Inr (None, s)
                             else Inl ((off + (8 + sz + (sz AND 1)), True, rate),
                                       s\<lparr>wav_ch := ucast (drop_bit 16 w0), wav_bits := ucast (drop_bit 16 w3)\<rparr>)
                   else if cid = RIFF_DATA then
                     Inr (if got_fmt then Some (off + 8, if sz \<le> fin - off - 8 then sz else fin - off - 8, rate)
                          else None, s)
                   else Inl ((off + (8 + sz + (sz AND 1)), got_fmt, rate), s))"

definition wav_probe ::
  "'h apf \<Rightarrow> u16 \<Rightarrow> ('h, 'z) rhy_st_scheme \<Rightarrow> (wav_info option \<times> ('h, 'z) rhy_st_scheme) option" where
  "wav_probe apf slot s =
     (let (n, s) = wav_read apf slot 0 12 s
      in if n = 0 then Some (None, s)
         else
           let (w, s) = bram_read s
           in if w \<noteq> RIFF_RIFF then Some (None, s)
              else
                let (w, s) = bram_read (bram_seek 2 s)
                in if w \<noteq> RIFF_WAVE then Some (None, s)
                   else let (fin, s) = slot_bytes slot s
                        in loop (wav_chunk apf slot fin) ((12, False, 0), s))"

section \<open>The WAV stream\<close>

definition wav_emit :: "u8 list \<Rightarrow> ('h, 'z) rhy_st_scheme \<Rightarrow> ('h, 'z) rhy_st_scheme" where
  "wav_emit out s =
     fold (\<lambda>b s. if wav_cursor s + wav_written s < RHY_STORE_BYTES
                 then (opna_mgmt_write OMGMT_RHYDATA (ucast b) s)\<lparr>wav_written := wav_written s + 1\<rparr>
                 else s) out s"

definition wav_emit_bytes :: "('h, 'z) rhy_st_scheme \<Rightarrow> ('h, 'z) rhy_st_scheme" where
  "wav_emit_bytes s = wav_emit (enc_out (wav_enc s)) s"

definition wav_frame :: "('h, 'z) rhy_st_scheme \<Rightarrow> u32" where
  "wav_frame s = ucast (wav_ch s) * (if wav_bits s = 16 then 2 else 1)"

definition wav_sample :: "bool \<Rightarrow> bool \<Rightarrow> u32 \<Rightarrow> nat \<Rightarrow> sample" where
  "wav_sample wide stereo w b =
     (if wide then
        let s = sint (ucast (drop_bit (8 * b) w) :: sample)
        in of_int (if stereo then drop_bit 1 (s + sint (ucast (drop_bit (8 * b + 16) w) :: sample)) else s)
      else
        let s = uint (drop_bit (8 * b) w AND 0xFF);
            s = if stereo then drop_bit 1 (s + uint (drop_bit (8 * b + 8) w AND 0xFF)) else s
        in of_int (push_bit 8 (s - 128)))"

definition wav_push :: "sample \<Rightarrow> ('h, 'z) rhy_st_scheme \<Rightarrow> ('h, 'z) rhy_st_scheme option" where
  "wav_push x s =
     map_option (\<lambda>e. let s = s\<lparr>wav_enc := e\<rparr> in if enc_out e \<noteq> [] then wav_emit_bytes s else s)
       (adpcm_enc_push x (wav_enc s))"

definition wav_byte :: "u32 \<Rightarrow> nat \<Rightarrow> u32 \<Rightarrow> nat \<Rightarrow> ('h, 'z) rhy_st_scheme \<Rightarrow> ('h, 'z) rhy_st_scheme option" where
  "wav_byte n wi w b s =
     (let byte_i = of_nat (wi * 4 + b)
      in if byte_i AND (wav_frame s - 1) \<noteq> 0 \<or> n \<le> byte_i then Some s
         else wav_push (wav_sample (wav_bits s = 16) (wav_ch s = 2) w b) s)"

definition wav_word :: "u32 \<Rightarrow> nat \<Rightarrow> ('h, 'z) rhy_st_scheme \<Rightarrow> ('h, 'z) rhy_st_scheme option" where
  "wav_word n wi s = (let (w, s) = bram_read s in for_opt 4 (wav_byte n wi w) s)"

section \<open>A step\<close>

definition skip_done :: "('h, 'z) rhy_st_scheme \<Rightarrow> ('h, 'z) rhy_st_scheme" where
  "skip_done s =
     for_to 6 (\<lambda>_ s. if wav_voice s < 6 \<and> wav_done s (unat (wav_voice s))
                     then s\<lparr>wav_voice := wav_voice s + 1\<rparr> else s) s"

definition wav_resolve :: "('h, 'z) rhy_st_scheme \<Rightarrow> ('h, 'z) rhy_st_scheme" where
  "wav_resolve s =
     s\<lparr>wav_done := (wav_done s)(unat (wav_voice s) := True), wav_voice := wav_voice s + 1\<rparr>"

definition wav_usable :: "wav_info \<Rightarrow> ('h, 'z) rhy_st_scheme \<Rightarrow> bool" where
  "wav_usable i s \<longleftrightarrow>
     (let (off, len, rate) = i
      in (wav_ch s = 1 \<or> wav_ch s = 2) \<and> (wav_bits s = 16 \<or> wav_bits s = 8)
         \<and> 4000 \<le> rate \<and> rate \<le> 192000 \<and> len \<noteq> 0)"

definition wav_start :: "wav_info \<Rightarrow> ('h, 'z) rhy_st_scheme \<Rightarrow> ('h, 'z) rhy_st_scheme" where
  "wav_start i s =
     (let (off, len, rate) = i;
          s = opna_mgmt_write OMGMT_RHYADDR (wav_cursor s) (s\<lparr>wav_enc := adpcm_enc_init rate\<rparr>)
      in s\<lparr>wav_pos := off, wav_left := len AND NOT (wav_frame s - 1), wav_written := 0,
           wav_failed := False, wav_open := True\<rparr>)"

text \<open>Opening a voice: \<open>False\<close> when its slot is unbound or unusable.\<close>

definition wav_begin :: "'h apf \<Rightarrow> ('h, 'z) rhy_st_scheme \<Rightarrow> (bool \<times> ('h, 'z) rhy_st_scheme) option" where
  "wav_begin apf s =
     (let s = s\<lparr>wav_slot := RHY_WAV_SLOT_BASE + ucast (wav_voice s)\<rparr>;
          (sz, s) = slot_bytes (wav_slot s) s
      in if sz = 0 then Some (False, s)
         else map_option (\<lambda>(i, s). case i of None \<Rightarrow> (False, s)
                | Some i \<Rightarrow> if wav_usable i s then (True, wav_start i s) else (False, s))
              (wav_probe apf (wav_slot s) s))"

definition wav_take :: "('h, 'z) rhy_st_scheme \<Rightarrow> u32" where
  "wav_take s =
     (let n = if SECTOR_BYTES < wav_left s then SECTOR_BYTES else wav_left s
      in n - (n AND (wav_frame s - 1)))"

definition wav_pull :: "'h apf \<Rightarrow> ('h, 'z) rhy_st_scheme \<Rightarrow> ('h, 'z) rhy_st_scheme option" where
  "wav_pull apf s =
     (let s = if RHY_STORE_BYTES \<le> wav_cursor s + wav_written s then s\<lparr>wav_left := 0\<rparr> else s;
          s = opna_mgmt_write OMGMT_RHYADDR (wav_cursor s + wav_written s) s;
          n = wav_take s
      in if n = 0 then Some s
         else
           let (k, s) = wav_read apf (wav_slot s) (wav_pos s) n s
           in if k = 0 then Some (s\<lparr>wav_failed := True\<rparr>)
              else for_opt (unat ((n + 3) div 4)) (wav_word n)
                     (s\<lparr>wav_pos := wav_pos s + n, wav_left := wav_left s - n\<rparr>))"

definition wav_close :: "('h, 'z) rhy_st_scheme \<Rightarrow> ('h, 'z) rhy_st_scheme" where
  "wav_close s =
     (let s = if \<not> wav_failed s \<and> wav_written s \<noteq> 0
              then
                let a = drop_bit 8 (wav_cursor s); b = drop_bit 8 (wav_cursor s + wav_written s - 1);
                    v = unat (wav_voice s); s = inject_pair (wav_voice s) a b s
                in s\<lparr>rhythm_start := (rhythm_start s)(v := ucast a), rhythm_end := (rhythm_end s)(v := ucast b),
                     wav_cursor := wav_cursor s + wav_written s\<rparr>
              else s
      in (wav_resolve s)\<lparr>wav_open := False\<rparr>)"

definition wav_finish :: "('h, 'z) rhy_st_scheme \<Rightarrow> ('h, 'z) rhy_st_scheme option" where
  "wav_finish s =
     (if wav_failed s \<or> wav_left s = 0
      then map_option (\<lambda>(e, s). wav_close (s\<lparr>wav_enc := e\<rparr>)) (enc_drain wav_emit (wav_enc s, s))
      else Some s)"

definition wav_step :: "'h apf \<Rightarrow> ('h, 'z) rhy_st_scheme \<Rightarrow> (bool \<times> ('h, 'z) rhy_st_scheme) option" where
  "wav_step apf s =
     (let s = skip_done s
      in if 6 \<le> wav_voice s then Some (True, s)
         else
           case (if wav_open s then Some (True, s) else wav_begin apf s) of
             None \<Rightarrow> None
           | Some (False, s) \<Rightarrow> Some (False, wav_resolve s)
           | Some (True, s) \<Rightarrow> map_option (Pair False) (Option.bind (wav_pull apf s) wav_finish))"

definition pick_mode :: "('h, 'z) rhy_st_scheme \<Rightarrow> ('h, 'z) rhy_st_scheme" where
  "pick_mode s =
     (let s = for_to 6 (\<lambda>v s. let (n, s) = slot_bytes (RHY_WAV_SLOT_BASE + of_nat v) s
                             in if n \<noteq> 0 then s\<lparr>rhy_mode := 2\<rparr> else s) s
      in if rhy_mode s = 0
         then let (n, s) = slot_bytes RHYTHM_SLOT_ID s in s\<lparr>rhy_mode := if n \<noteq> 0 then 1 else 0\<rparr>
         else s)"

definition rhythm_load :: "'h apf \<Rightarrow> ('h, 'z) rhy_st_scheme \<Rightarrow> (bool \<times> ('h, 'z) rhy_st_scheme) option" where
  "rhythm_load apf s =
     (let (caps, s) = opna_mgmt_read OMGMT_CAPS s
      in if caps AND 1 = 0 then Some (False, s)
         else
           let s = if rhy_mode s = 0 then pick_mode s else s
           in if rhy_mode s = 0 then Some (False, s)
              else if rhy_mode s = 1 then Some (bin_load apf s)
              else wav_step apf s)"

end
