(* ===== verification/Drive_Sound.thy ===== *)
theory Drive_Sound
  imports Rhythm
begin

text \<open>
  \<open>firmware/drive_sound.c\<close> and \<open>fddsnd_hdr.h\<close>: the drive-noise kit, encoded into the upper
  half of the rhythm store, and the poll that borrows ADPCM-A channels to play it.
\<close>

section \<open>State\<close>

definition FDDSND_SLOT_ID :: u16 where "FDDSND_SLOT_ID = 20"
definition FMGMT_SNDEV :: u32 where "FMGMT_SNDEV = 0xE"
definition FDDSND_HDR_BYTES :: u32 where "FDDSND_HDR_BYTES = 28"
definition FDDSND_RATE :: u32 where "FDDSND_RATE = 24000"
definition DRV_STORE_BASE :: u32 where "DRV_STORE_BASE = 16384"
definition DRV_STORE_END :: u32 where "DRV_STORE_END = 32768"
definition DRV_SEGS :: nat where "DRV_SEGS = 5"
definition SEG_TICK :: nat where "SEG_TICK = 0"
definition SEG_CLUNK :: nat where "SEG_CLUNK = 1"
definition SEG_SEEK :: nat where "SEG_SEEK = 2"
definition SEG_READ :: nat where "SEG_READ = 3"
definition SEG_MOTOR :: nat where "SEG_MOTOR = 4"
definition INJ_KEY :: u32 where "INJ_KEY = 0"
definition INJ_LR_BASE :: u32 where "INJ_LR_BASE = 8"
definition CH_AGE_MAX :: u16 where "CH_AGE_MAX = 4096"

lemmas drv_consts = FDDSND_SLOT_ID_def FMGMT_SNDEV_def FDDSND_HDR_BYTES_def FDDSND_RATE_def
  DRV_STORE_BASE_def DRV_STORE_END_def DRV_SEGS_def SEG_TICK_def SEG_CLUNK_def SEG_SEEK_def
  SEG_READ_def SEG_MOTOR_def INJ_KEY_def INJ_LR_BASE_def CH_AGE_MAX_def

record 'h drv_st = "'h rhy_st" +
  drv_start :: "nat \<Rightarrow> u16"
  drv_end :: "nat \<Rightarrow> u16"
  drv_loaded :: bool
  dl_hdr_done :: bool
  dl_failed :: bool
  dl_open :: bool
  dl_seg :: nat
  dl_cursor :: u32
  dl_seg_base :: u32
  dl_enc :: adpcm_enc
  dl_src_off :: u32
  dl_src_left :: u32
  seg_off :: "nat \<Rightarrow> u16"
  seg_len :: "nat \<Rightarrow> u16"
  ch_seg :: "nat \<Rightarrow> int"     \<comment> \<open>-1 free, else the segment playing\<close>
  ch_age :: "nat \<Rightarrow> u16"
  last_step_cnt :: u8
  last_head :: bool
  seek_hold :: u16

section \<open>The kit header\<close>

text \<open>The loop over the five segment words: it stops at the first one that runs past the file.\<close>

fun hdr_segments :: "u32 list \<Rightarrow> u32 \<Rightarrow> nat list \<Rightarrow> ('h, 'z) drv_st_scheme \<Rightarrow> bool \<times> ('h, 'z) drv_st_scheme" where
  "hdr_segments words file_bytes [] s = (True, s)"
| "hdr_segments words file_bytes (i # is) s =
     (let p = words ! (2 + i) AND 0xFFFF; l = drop_bit 16 (words ! (2 + i))
      in if file_bytes < p * 2 + l * 2 then (False, s)
         else hdr_segments words file_bytes is
                (s\<lparr>seg_off := (seg_off s)(i := ucast p), seg_len := (seg_len s)(i := ucast l)\<rparr>))"

definition fddsnd_hdr_parse :: "u32 list \<Rightarrow> u32 \<Rightarrow> ('h, 'z) drv_st_scheme \<Rightarrow> bool \<times> ('h, 'z) drv_st_scheme" where
  "fddsnd_hdr_parse words file_bytes s =
     (if words ! 0 \<noteq> 0x31534446 then (False, s)
      else if drop_bit 16 (words ! 1) < of_nat DRV_SEGS then (False, s)
      else hdr_segments words file_bytes [0..<DRV_SEGS] s)"

section \<open>The loader\<close>

definition drive_sound_present :: "('h, 'z) bus_scheme \<Rightarrow> bool \<times> ('h, 'z) bus_scheme" where
  "drive_sound_present s = (let (v, s) = opna_mgmt_read OMGMT_CAPS s in (v AND 1 \<noteq> 0, s))"

definition drv_header :: "'h apf \<Rightarrow> ('h, 'z) drv_st_scheme \<Rightarrow> bool \<times> ('h, 'z) drv_st_scheme" where
  "drv_header apf s =
     (let (fbytes, s) = slot_bytes FDDSND_SLOT_ID s
      in if fbytes = 0 then (False, s)
         else
           let (ok, s) = tds_transfer apf FDDSND_SLOT_ID 0 FDD_TDS_READ FDDSND_HDR_BYTES s
           in if \<not> ok then (False, s)
              else
                let (hdr, s) = collect 7 bram_read (bram_seek 0 s);
                    (good, s) = fddsnd_hdr_parse hdr fbytes s
                in if \<not> good then (True, s)
                   else (False, s\<lparr>dl_cursor := DRV_STORE_BASE, dl_seg := 0, dl_hdr_done := True\<rparr>))"

definition drv_emit :: "u8 list \<Rightarrow> ('h, 'z) drv_st_scheme \<Rightarrow> ('h, 'z) drv_st_scheme" where
  "drv_emit out s =
     fold (\<lambda>b s. if dl_cursor s < DRV_STORE_END
                 then (opna_mgmt_write OMGMT_RHYDATA (ucast b) s)\<lparr>dl_cursor := dl_cursor s + 1\<rparr>
                 else s) out s"

text \<open>\<open>(int16_t)((int8_t)(w >> (b * 8))) << 8\<close>\<close>

definition drv_sample :: "u32 \<Rightarrow> nat \<Rightarrow> sample" where
  "drv_sample w b = of_int (push_bit 8 (sint (byte_of w b)))"

definition drv_byte :: "u32 \<Rightarrow> nat \<Rightarrow> u32 \<Rightarrow> nat \<Rightarrow> ('h, 'z) drv_st_scheme \<Rightarrow> ('h, 'z) drv_st_scheme option" where
  "drv_byte n wi w b s =
     (if of_nat (wi * 4 + b) < n
      then map_option (\<lambda>e. let s = s\<lparr>dl_enc := e\<rparr> in if enc_out e \<noteq> [] then drv_emit (enc_out e) s else s)
             (adpcm_enc_push (drv_sample w b) (dl_enc s))
      else Some s)"

definition drv_word :: "u32 \<Rightarrow> nat \<Rightarrow> ('h, 'z) drv_st_scheme \<Rightarrow> ('h, 'z) drv_st_scheme option" where
  "drv_word n wi s = (let (w, s) = bram_read s in for_opt 4 (drv_byte n wi w) s)"

definition drv_open :: "('h, 'z) drv_st_scheme \<Rightarrow> ('h, 'z) drv_st_scheme" where
  "drv_open s =
     s\<lparr>dl_enc := adpcm_enc_init FDDSND_RATE, dl_src_off := ucast (seg_off s (dl_seg s)) * 2,
       dl_src_left := ucast (seg_len s (dl_seg s)) * 2, dl_seg_base := dl_cursor s,
       dl_failed := False, dl_open := True\<rparr>"

definition drv_pull :: "'h apf \<Rightarrow> ('h, 'z) drv_st_scheme \<Rightarrow> ('h, 'z) drv_st_scheme option" where
  "drv_pull apf s =
     (let s = opna_mgmt_write OMGMT_RHYADDR (dl_cursor s) s;
          n = if SECTOR_BYTES < dl_src_left s then SECTOR_BYTES else dl_src_left s
      in if n = 0 then Some s
         else
           let (ok, s) = tds_transfer apf FDDSND_SLOT_ID (dl_src_off s) FDD_TDS_READ n s
           in if \<not> ok then Some (s\<lparr>dl_failed := True\<rparr>)
              else for_opt (unat ((n + 3) div 4)) (drv_word n)
                     (bram_seek 0 (s\<lparr>dl_src_off := dl_src_off s + n, dl_src_left := dl_src_left s - n\<rparr>)))"

definition drv_close :: "('h, 'z) drv_st_scheme \<Rightarrow> ('h, 'z) drv_st_scheme" where
  "drv_close s =
     (let i = dl_seg s;
          (a, b) = if \<not> dl_failed s \<and> dl_seg_base s < dl_cursor s
                   then (ucast (drop_bit 8 (dl_seg_base s)), ucast (drop_bit 8 (dl_cursor s - 1)))
                   else (0, 0)
      in s\<lparr>drv_start := (drv_start s)(i := a), drv_end := (drv_end s)(i := b),
           dl_cursor := (dl_cursor s + 255) AND NOT 255, dl_seg := i + 1, dl_open := False\<rparr>)"

definition drv_finish :: "('h, 'z) drv_st_scheme \<Rightarrow> ('h, 'z) drv_st_scheme option" where
  "drv_finish s =
     (if dl_failed s \<or> dl_src_left s = 0
      then map_option (\<lambda>(e, s). drv_close (s\<lparr>dl_enc := e\<rparr>)) (enc_drain drv_emit (dl_enc s, s))
      else Some s)"

definition drive_sound_load :: "'h apf \<Rightarrow> ('h, 'z) drv_st_scheme \<Rightarrow> (bool \<times> ('h, 'z) drv_st_scheme) option" where
  "drive_sound_load apf s =
     (let (present, s) = drive_sound_present s
      in if \<not> present then Some (True, s)
         else if \<not> dl_hdr_done s then Some (drv_header apf s)
         else if \<not> dl_open s \<and> DRV_SEGS \<le> dl_seg s then Some (True, s\<lparr>drv_loaded := True\<rparr>)
         else
           let s = if dl_open s then s else drv_open s
           in map_option (Pair False) (Option.bind (drv_pull apf s) drv_finish))"

section \<open>Channels\<close>

definition mgmt_fdd_rd :: "u32 \<Rightarrow> ('h, 'z) bus_scheme \<Rightarrow> u32 \<times> ('h, 'z) bus_scheme" where
  "mgmt_fdd_rd reg s = (let (v, s) = mgmt_rd (reg AND 0xF) s in (v AND 0xFFFF, s))"

definition inj_p1 :: "u32 \<Rightarrow> u32 \<Rightarrow> ('h, 'z) bus_scheme \<Rightarrow> ('h, 'z) bus_scheme" where
  "inj_p1 reg data s = inject OMGMT_INJ_P1 (push_bit 8 reg OR data) s"

definition inj_p0 :: "u32 \<Rightarrow> u32 \<Rightarrow> ('h, 'z) bus_scheme \<Rightarrow> ('h, 'z) bus_scheme" where
  "inj_p0 reg data s = inject OMGMT_INJ_P0 (push_bit 8 reg OR data) s"

definition flag_clear :: "nat \<Rightarrow> ('h, 'z) bus_scheme \<Rightarrow> ('h, 'z) bus_scheme" where
  "flag_clear ch s = inj_p0 0x1C 0 (inj_p0 0x1C (push_bit ch 1) s)"

definition inj_pair :: "nat \<Rightarrow> u32 \<Rightarrow> u32 \<Rightarrow> ('h, 'z) bus_scheme \<Rightarrow> ('h, 'z) bus_scheme" where
  "inj_pair ch start256 end256 s =
     (let s = inj_p1 (0x10 + of_nat ch) (start256 AND 0xFF) s;
          s = inj_p1 (0x18 + of_nat ch) (drop_bit 8 start256 AND 0xF) s;
          s = inj_p1 (0x20 + of_nat ch) (end256 AND 0xFF) s
      in inj_p1 (0x28 + of_nat ch) (drop_bit 8 end256 AND 0xF) s)"

definition mode_al :: "('h, 'z) drv_st_scheme \<Rightarrow> u32" where
  "mode_al s = (if settings_drive_sound s = 2 then 6 else 14)"

definition chan_restore :: "nat \<Rightarrow> ('h, 'z) drv_st_scheme \<Rightarrow> ('h, 'z) drv_st_scheme" where
  "chan_restore ch s =
     (let s = inj_pair ch (ucast (rhythm_start s ch)) (ucast (rhythm_end s ch)) s;
          (lr, s) = opna_mgmt_read (OMGMT_LR0 + of_nat ch) s;
          s = inj_p1 (INJ_LR_BASE + of_nat ch) (lr AND 0xFF) s
      in s\<lparr>ch_seg := (ch_seg s)(ch := -1), ch_age := (ch_age s)(ch := 0)\<rparr>)"

text \<open>The two passes over channels 5 down to 0: ended ones first.\<close>

definition pick_chan :: "u32 \<Rightarrow> (nat \<Rightarrow> int) \<Rightarrow> nat option" where
  "pick_chan flags seg =
     (case find (\<lambda>i. seg i < 0 \<and> flags AND push_bit i 1 \<noteq> 0) (rev [0..<6]) of
        Some i \<Rightarrow> Some i
      | None \<Rightarrow> find (\<lambda>i. seg i < 0 \<and> flags AND push_bit i 1 = 0) (rev [0..<6]))"

definition chan_play :: "nat \<Rightarrow> ('h, 'z) drv_st_scheme \<Rightarrow> ('h, 'z) drv_st_scheme" where
  "chan_play seg s =
     (let (flags, s) = opna_mgmt_read OMGMT_STATUS1 s
      in case pick_chan (flags AND 0x3F) (ch_seg s) of
           None \<Rightarrow> s
         | Some ch \<Rightarrow>
             let s = flag_clear ch s;
                 s = inj_pair ch (ucast (drv_start s seg)) (ucast (drv_end s seg)) s;
                 s = inj_p1 (INJ_LR_BASE + of_nat ch) (0xC0 OR mode_al s) s;
                 s = inj_p1 INJ_KEY (push_bit ch 1) s
             in s\<lparr>ch_seg := (ch_seg s)(ch := int seg), ch_age := (ch_age s)(ch := 0)\<rparr>)"

definition seg_chan :: "nat \<Rightarrow> ('h, 'z) drv_st_scheme \<Rightarrow> nat option" where
  "seg_chan seg s = find (\<lambda>ch. ch_seg s ch = int seg) [0..<6]"

section \<open>The poll\<close>

definition play_if :: "bool \<Rightarrow> nat \<Rightarrow> ('h, 'z) drv_st_scheme \<Rightarrow> ('h, 'z) drv_st_scheme" where
  "play_if c seg s = (if c then chan_play seg s else s)"

text \<open>New plays: the edges, then the levels no channel is playing.\<close>

definition drv_events :: "u32 \<Rightarrow> bool \<Rightarrow> bool \<Rightarrow> bool \<Rightarrow> ('h, 'z) drv_st_scheme \<Rightarrow> ('h, 'z) drv_st_scheme" where
  "drv_events cnt head xfer motor s =
     (let s = if cnt \<noteq> ucast (last_step_cnt s) then (chan_play SEG_TICK s)\<lparr>seek_hold := 60\<rparr> else s;
          s = play_if (head \<and> \<not> last_head s) SEG_CLUNK s;
          s = play_if (seek_hold s \<noteq> 0 \<and> seg_chan SEG_SEEK s = None) SEG_SEEK s;
          s = play_if (xfer \<and> seg_chan SEG_READ s = None) SEG_READ s
      in play_if (motor \<and> seg_chan SEG_MOTOR s = None) SEG_MOTOR s)"

definition drv_keep :: "bool \<Rightarrow> bool \<Rightarrow> bool \<Rightarrow> nat \<Rightarrow> ('h, 'z) drv_st_scheme \<Rightarrow> bool" where
  "drv_keep on xfer motor ch s \<longleftrightarrow> on \<and>
     (ch_seg s ch = int SEG_SEEK \<and> seek_hold s \<noteq> 0 \<or> ch_seg s ch = int SEG_READ \<and> xfer
      \<or> ch_seg s ch = int SEG_MOTOR \<and> motor)"

definition drv_sweep :: "bool \<Rightarrow> bool \<Rightarrow> bool \<Rightarrow> u32 \<Rightarrow> nat \<Rightarrow> ('h, 'z) drv_st_scheme \<Rightarrow> ('h, 'z) drv_st_scheme" where
  "drv_sweep on xfer motor flags ch s =
     (if ch_seg s ch < 0 then s
      else
        let s = if ch_age s ch < CH_AGE_MAX then s\<lparr>ch_age := (ch_age s)(ch := ch_age s ch + 1)\<rparr> else s
        in if flags AND push_bit ch 1 = 0 \<and> ch_age s ch < CH_AGE_MAX then s
           else if drv_keep on xfer motor ch s
           then let s = inj_p1 INJ_KEY (push_bit ch 1) (flag_clear ch s)
                in s\<lparr>ch_age := (ch_age s)(ch := 0)\<rparr>
           else chan_restore ch s)"

definition drive_sound_poll :: "('h, 'z) drv_st_scheme \<Rightarrow> ('h, 'z) drv_st_scheme" where
  "drive_sound_poll s =
     (if \<not> drv_loaded s then s
      else
        let (v, s) = mgmt_fdd_rd FMGMT_SNDEV s;
            cnt = drop_bit 8 v AND 0xFF; head = bit v 2; xfer = bit v 1; motor = bit v 0;
            on = settings_drive_sound s \<noteq> 0;
            s = if on then drv_events cnt head xfer motor s else s;
            s = s\<lparr>last_step_cnt := ucast cnt, last_head := head\<rparr>;
            s = if seek_hold s \<noteq> 0 then s\<lparr>seek_hold := seek_hold s - 1\<rparr> else s;
            (flags, s) = opna_mgmt_read OMGMT_STATUS1 s
        in for_to 6 (drv_sweep on xfer motor (flags AND 0x3F)) s)"

end
