(* ===== verification/Sound_Store.thy ===== *)
theory Sound_Store
  imports Drive_Sound Fdd_Correct
begin

text \<open>
  What the two sample loaders and the drive-noise poll leave alone: the other half of the
  rhythm store, the other devices, the datatable, and the bridge RAM above the first sector.
\<close>

section \<open>The OPNA window\<close>

lemma opna_addr_bits:
  fixes r :: u32
  shows "bit (OPNA_TARGET OR (r AND 0xF)) 10" "(OPNA_TARGET OR (r AND 0xF)) AND 0xF = r AND 0xF"
proof -
  show "bit (OPNA_TARGET OR (r AND 0xF)) 10"
    unfolding OPNA_TARGET_def by (simp only: bit_or_iff bit_push_bit_iff bit_1_iff) simp
  show "(OPNA_TARGET OR (r AND 0xF)) AND 0xF = r AND 0xF"
  proof (rule bit_word_eqI)
    fix n
    show "bit ((OPNA_TARGET OR (r AND 0xF)) AND 0xF) n = bit (r AND 0xF) n"
      unfolding OPNA_TARGET_def
      by (auto simp only: bit_and_iff bit_or_iff bit_push_bit_iff bit_1_iff mask_bits)
  qed
qed

lemma opna_mgmt_write_eq:
  "opna_mgmt_write r v s = s\<lparr>mgmt_addr := OPNA_TARGET OR (r AND 0xF), mgmt_wdata := ucast (v AND 0xFFFF),
     opna := opna_write (r AND 0xF) (ucast (v AND 0xFFFF)) (opna s)\<rparr>"
  using opna_addr_bits [of r]
  by (simp add: opna_mgmt_write_def mgmt_wr_def mgmt_strobe_wr_def Let_def)

lemma opna_mgmt_read_eq:
  "opna_mgmt_read r s =
    (let (v, d) = opna_read (r AND 0xF) (opna s)
     in (ucast v AND 0xFFFF, s\<lparr>mgmt_addr := OPNA_TARGET OR (r AND 0xF), mgmt_rdata := v, opna := d\<rparr>))"
  using opna_addr_bits [of r]
  by (simp add: opna_mgmt_read_def mgmt_rd_def mgmt_strobe_rd_def Let_def split: prod.split)

text \<open>A read moves one stream on.\<close>

lemma opna_read_store [simp]:
  "rhy_mem (snd (opna_read r d)) = rhy_mem d" "rhy_addr (snd (opna_read r d)) = rhy_addr d"
  by (simp_all add: opna_read_def)

section \<open>The frame\<close>

definition sound_rq :: "tds_req \<Rightarrow> bool" where
  "sound_rq rq \<longleftrightarrow> rq_dir rq = FDD_TDS_READ \<and> 13 \<le> unat (rq_slot rq) \<and> unat (rq_slot rq) \<le> 20
     \<and> unat (rq_length rq) \<le> 512"

definition snd_ok :: "(15 word \<Rightarrow> bool) \<Rightarrow> ('h, 'z) bus_scheme \<Rightarrow> ('h, 'z) bus_scheme \<Rightarrow> bool" where
  "snd_ok A s t \<longleftrightarrow> (\<forall>a. \<not> A a \<longrightarrow> rhy_mem (opna t) a = rhy_mem (opna s) a)
     \<and> scsi t = scsi s \<and> fdd t = fdd s \<and> dtbl t = dtbl s \<and> outs t = outs s
     \<and> log_ext sound_rq s t \<and> bram_keeps (\<lambda>a. 128 \<le> unat a) s t"

lemma snd_ok_refl [simp]: "snd_ok A s s"
  by (simp add: snd_ok_def log_ext_refl bram_keeps_refl)

lemma snd_ok_trans: "snd_ok A s t \<Longrightarrow> snd_ok A t u \<Longrightarrow> snd_ok A s u"
  unfolding snd_ok_def using log_ext_trans bram_keeps_trans by auto

lemma snd_okI:
  assumes "rhy_mem (opna t) = rhy_mem (opna s)" "scsi t = scsi s" "fdd t = fdd s" "dtbl t = dtbl s"
    "outs t = outs s" "tds_log t = tds_log s" "bram t = bram s"
  shows "snd_ok A s t"
  using assms by (simp add: snd_ok_def log_ext_refl bram_keeps_refl)

text \<open>A step that keeps what the frame sees may be put after any run.\<close>

lemma snd_ok_step:
  assumes "snd_ok A s t" "rhy_mem (opna u) = rhy_mem (opna t)" "scsi u = scsi t" "fdd u = fdd t"
    "dtbl u = dtbl t" "outs u = outs t" "tds_log u = tds_log t" "bram u = bram t"
  shows "snd_ok A s u"
  using snd_ok_trans [OF assms(1) snd_okI [OF assms(2-8)]] .

lemma opna_read_ok:
  "snd_ok A s (snd (opna_mgmt_read r s))" "rhy_addr (opna (snd (opna_mgmt_read r s))) = rhy_addr (opna s)"
  by (auto simp: opna_mgmt_read_eq opna_read_def Let_def intro: snd_okI)

lemma opna_reg_ok:
  assumes "r AND 0xF \<noteq> 1"
  shows "snd_ok A s (opna_mgmt_write r v s)"
  by (rule snd_okI) (use assms in \<open>simp_all add: opna_mgmt_write_eq opna_write_def\<close>)

lemma busy_spin_ok: "snd_ok A s (busy_spin n s) \<and> rhy_addr (opna (busy_spin n s)) = rhy_addr (opna s)"
proof (induction n arbitrary: s)
  case (Suc n)
  show ?case
    using Suc.IH [of "snd (opna_mgmt_read OMGMT_BUSY s)"] opna_read_ok(1) [of A s OMGMT_BUSY] opna_read_ok(2) [of OMGMT_BUSY s]
      snd_ok_trans
    by (auto simp: Let_def case_prod_beta)
qed simp

lemma inject_ok:
  assumes "port = OMGMT_INJ_P0 \<or> port = OMGMT_INJ_P1"
  shows "snd_ok A s (inject port v s) \<and> rhy_addr (opna (inject port v s)) = rhy_addr (opna s)"
proof -
  have "snd_ok A (busy_spin DISK_SPIN_LIMIT s) (inject port v s)"
    using assms unfolding inject_def by (intro opna_reg_ok) (auto simp: omgmt_regs)
  moreover have "rhy_addr (opna (inject port v s)) = rhy_addr (opna (busy_spin DISK_SPIN_LIMIT s))"
    using assms by (auto simp: inject_def opna_mgmt_write_eq opna_write_def omgmt_regs)
  ultimately show ?thesis using busy_spin_ok snd_ok_trans by metis
qed

lemma inject_pair_ok: "snd_ok A s (inject_pair ch a b s)"
proof -
  have "snd_ok A s (fold (inject OMGMT_INJ_P1) vs s)" for vs
    by (induction vs arbitrary: s) (auto intro: snd_ok_trans inject_ok [THEN conjunct1])
  then show ?thesis unfolding inject_pair_def .
qed

lemma slot_bytes_ok: "snd_ok A s (snd (slot_bytes i s))"
proof -
  have scan: "\<exists>x. snd (dtbl_scan i ks s) = s\<lparr>dtbl_addr := x\<rparr>" for ks
  proof (induction ks arbitrary: s)
    case Nil
    show ?case by (simp add: exI [of _ "dtbl_addr s"])
  next
    case (Cons k ks)
    obtain x where "snd (dtbl_scan i ks (s\<lparr>dtbl_addr := of_nat (2 * k)\<rparr>))
        = s\<lparr>dtbl_addr := of_nat (2 * k), dtbl_addr := x\<rparr>"
      using Cons.IH [of "s\<lparr>dtbl_addr := of_nat (2 * k)\<rparr>"] by blast
    then show ?case by (auto simp: Let_def)
  qed
  obtain x where "snd (dtbl_size_word i s) = s\<lparr>dtbl_addr := x\<rparr>"
    using scan by (auto simp: dtbl_size_word_def)
  then show ?thesis
    by (auto simp: slot_bytes_def Let_def case_prod_beta intro!: snd_okI)
qed

lemma bram_port_ok: "snd_ok A s (snd (bram_read s))" "snd_ok A s (bram_seek a s)"
  by (auto simp: bram_read_def bram_seek_def intro: snd_okI)

text \<open>What the operations of the bus do not own: everything a record that extends it adds.\<close>

definition bus_quiet :: "('h, 'z) bus_scheme \<Rightarrow> ('h, 'z) bus_scheme \<Rightarrow> bool" where
  "bus_quiet s t \<longleftrightarrow> (\<forall>A. snd_ok A s t) \<and> bus.more t = bus.more s"

lemma bus_quiet_refl [simp]: "bus_quiet s s"
  by (simp add: bus_quiet_def)

lemma bus_quiet_trans: "bus_quiet s t \<Longrightarrow> bus_quiet t u \<Longrightarrow> bus_quiet s u"
  unfolding bus_quiet_def using snd_ok_trans by metis

lemma quiet_ok: "bus_quiet s t \<Longrightarrow> snd_ok A s t"
  by (simp add: bus_quiet_def)

lemma busy_spin_more: "bus.more (busy_spin n s) = bus.more s"
  by (induction n arbitrary: s) (simp_all add: opna_mgmt_read_eq Let_def case_prod_beta)

lemma opna_read_quiet: "bus_quiet s (snd (opna_mgmt_read r s))"
  by (simp add: bus_quiet_def opna_read_ok) (simp add: opna_mgmt_read_eq Let_def case_prod_beta)

lemma opna_reg_quiet: "r AND 0xF \<noteq> 1 \<Longrightarrow> bus_quiet s (opna_mgmt_write r v s)"
  by (simp add: bus_quiet_def opna_reg_ok) (simp add: opna_mgmt_write_eq)

lemma inject_quiet:
  assumes "port = OMGMT_INJ_P0 \<or> port = OMGMT_INJ_P1"
  shows "bus_quiet s (inject port v s)"
proof -
  have "bus.more (inject port v s) = bus.more s" by (simp add: inject_def opna_mgmt_write_eq busy_spin_more)
  then show ?thesis using inject_ok [OF assms] unfolding bus_quiet_def by blast
qed

lemma inject_pair_quiet: "bus_quiet s (inject_pair ch a b s)"
proof -
  have "bus_quiet s (fold (inject OMGMT_INJ_P1) vs s)" for vs
    by (induction vs arbitrary: s) (auto intro: bus_quiet_trans inject_quiet)
  then show ?thesis unfolding inject_pair_def .
qed

lemma slot_bytes_more: "bus.more (snd (slot_bytes i s)) = bus.more s"
proof -
  have "bus.more (snd (dtbl_scan i ks s)) = bus.more s" for ks
    by (induction ks arbitrary: s) (simp_all add: Let_def)
  then show ?thesis by (simp add: slot_bytes_def dtbl_size_word_def Let_def case_prod_beta)
qed

lemma slot_bytes_quiet: "bus_quiet s (snd (slot_bytes i s))"
  unfolding bus_quiet_def using slot_bytes_ok slot_bytes_more by blast

lemma bram_port_quiet: "bus_quiet s (snd (bram_read s))" "bus_quiet s (bram_seek a s)"
  using bram_port_ok by (auto simp: bus_quiet_def bram_read_def bram_seek_def)

context dataslot
begin

lemma sound_read_ok:
  assumes "tds_transfer apf slot off FDD_TDS_READ n s = (ok, t)"
    and "13 \<le> unat slot" "unat slot \<le> 20" "unat n \<le> 512"
  shows "snd_ok A s t" "opna t = opna s"
proof -
  have t: "tds_transfer_to apf slot off FDD_TDS_READ n FDD_BRIDGE_BASE s = (ok, t)"
    using assms(1) by (simp add: tds_transfer_def)
  have "bram t a = bram s a" if "128 \<le> unat a" for a
  proof (rule transfer_ram_frame [OF t])
    have base: "ucast (drop_bit 2 FDD_BRIDGE_BASE) = (0 :: 10 word)"
      by (simp add: FDD_BRIDGE_BASE_def)
    have "(unat n + 3) div 4 \<le> 128" using assms(4) by simp
    then show "\<not> in_span (tds_rq slot off FDD_TDS_READ n FDD_BRIDGE_BASE) a"
      using that base by (simp only: in_span_def rq_word_def tds_req.simps) simp
  qed
  then have "bram_keeps (\<lambda>a. 128 \<le> unat a) s t" by (simp add: bram_keeps_def)
  moreover have "log_ext sound_rq s t"
    using tds_transfer_to_frame(5) [OF t] assms(2-4) by (auto intro: log_ext_one simp: sound_rq_def)
  ultimately show "snd_ok A s t" "opna t = opna s"
    using tds_transfer_to_frame(1-3) [OF t] t
    by (auto simp: snd_ok_def tds_transfer_to_eq split: prod.splits)
qed

lemma sound_read_quiet:
  fixes s t :: "('h, 'z) bus_scheme"
  assumes "tds_transfer apf slot off FDD_TDS_READ n s = (ok, t)"
    and "13 \<le> unat slot" "unat slot \<le> 20" "unat n \<le> 512"
  shows "bus_quiet s t"
proof -
  have t: "tds_transfer_to apf slot off FDD_TDS_READ n FDD_BRIDGE_BASE s = (ok, t)"
    using assms(1) by (simp add: tds_transfer_def)
  then have "bus.more t = bus.more s" by (auto simp: tds_transfer_to_eq split: prod.splits)
  then show ?thesis using sound_read_ok(1) [OF assms] by (simp add: bus_quiet_def)
qed

end

end
