(* ===== verification/Sound_Correct.thy ===== *)
theory Sound_Correct
  imports Sound_Store
begin

text \<open>
  The two loaders step by step: where each puts its bytes in the rhythm store.  \<open>fits\<close> ties
  the store's address register to a loader's cursor.
\<close>

section \<open>Writing the store\<close>

abbreviation drums :: "15 word \<Rightarrow> bool" where
  "drums a \<equiv> unat a < 16384"

abbreviation kit :: "15 word \<Rightarrow> bool" where
  "kit a \<equiv> 16384 \<le> unat a"

lemma store_byte_ok:
  assumes "A (rhy_addr (opna s))"
  shows "snd_ok A s (opna_mgmt_write OMGMT_RHYDATA v s)"
    "rhy_addr (opna (opna_mgmt_write OMGMT_RHYDATA v s)) = rhy_addr (opna s) + 1"
  using assms
  by (auto simp: opna_mgmt_write_eq opna_write_def OMGMT_RHYDATA_def snd_ok_def log_ext_refl bram_keeps_refl)

lemma rhyaddr_ok:
  "snd_ok A s (opna_mgmt_write OMGMT_RHYADDR v s)"
  "rhy_addr (opna (opna_mgmt_write OMGMT_RHYADDR v s)) = ucast v"
proof -
  show "snd_ok A s (opna_mgmt_write OMGMT_RHYADDR v s)"
    by (rule opna_reg_ok) (simp add: OMGMT_RHYADDR_def)
  have "(ucast (ucast (v AND 0xFFFF) :: u16) :: 15 word) = ucast v"
  proof -
    have m: "(0xFFFF :: u32) = mask 16" by (simp add: mask_eq_exp_minus_1)
    show ?thesis unfolding m by (rule bit_word_eqI) (auto simp: bit_simps)
  qed
  then show "rhy_addr (opna (opna_mgmt_write OMGMT_RHYADDR v s)) = ucast v"
    by (simp add: opna_mgmt_write_eq opna_write_def OMGMT_RHYADDR_def)
qed

text \<open>A cursor below 32768 and the 15-bit address agree.\<close>

lemma unat_store_addr: "unat (c :: u32) < 32768 \<Longrightarrow> unat (ucast c :: 15 word) = unat c"
  by (simp add: unsigned_ucast_eq take_bit_eq_mod)

lemma ucast_store_Suc: "(ucast (c + 1 :: u32) :: 15 word) = ucast c + 1"
proof -
  have "(unat c + 1) mod 4294967296 mod 32768 = (unat c mod 32768 + 1) mod (32768 :: nat)"
    by (simp add: mod_mod_cancel mod_simps)
  then show ?thesis by (intro word_unat_eq_iff [THEN iffD2]) (simp add: unsigned_ucast_eq take_bit_eq_mod unat_word_ariths)
qed

section \<open>The rhythm loader\<close>

text \<open>Inside the drum half, and nothing that extends the loader's own record.\<close>

definition rhy_ok :: "('h, 'z) rhy_st_scheme \<Rightarrow> ('h, 'z) rhy_st_scheme \<Rightarrow> bool" where
  "rhy_ok s t \<longleftrightarrow> snd_ok drums s t \<and> rhy_st.more t = rhy_st.more s"

lemma rhy_ok_refl [simp]: "rhy_ok s s"
  by (simp add: rhy_ok_def)

lemma rhy_ok_trans: "rhy_ok s t \<Longrightarrow> rhy_ok t u \<Longrightarrow> rhy_ok s u"
  by (auto simp: rhy_ok_def intro: snd_ok_trans)

lemma rhy_okI:
  assumes "rhy_mem (opna t) = rhy_mem (opna s)" "scsi t = scsi s" "fdd t = fdd s" "dtbl t = dtbl s"
    "outs t = outs s" "tds_log t = tds_log s" "bram t = bram s" "rhy_st.more t = rhy_st.more s"
  shows "rhy_ok s t"
  using snd_okI [OF assms(1-7)] assms(8) by (simp add: rhy_ok_def)

lemma rhy_ok_step:
  assumes "rhy_ok s t" "rhy_mem (opna u) = rhy_mem (opna t)" "scsi u = scsi t" "fdd u = fdd t"
    "dtbl u = dtbl t" "outs u = outs t" "tds_log u = tds_log t" "bram u = bram t"
    "rhy_st.more u = rhy_st.more t"
  shows "rhy_ok s u"
  using rhy_ok_trans [OF assms(1) rhy_okI [OF assms(2-9)]] .

lemma rhy_vars_cong:
  fixes s t :: "('h, 'z) rhy_st_scheme"
  assumes "bus.more t = bus.more s"
  shows "wav_cursor t = wav_cursor s" "wav_written t = wav_written s" "wav_voice t = wav_voice s"
    "wav_open t = wav_open s" "wav_slot t = wav_slot s" "wav_done t = wav_done s"
    "rhy_mode t = rhy_mode s" "wav_left t = wav_left s" "wav_failed t = wav_failed s"
    "wav_enc t = wav_enc s" "wav_ch t = wav_ch s" "wav_bits t = wav_bits s" "wav_pos t = wav_pos s"
    "rhythm_start t = rhythm_start s" "rhythm_end t = rhythm_end s" "rhy_st.more t = rhy_st.more s"
  using assms by (cases s; cases t; simp)+

lemma quiet_rhy_ok:
  fixes s t :: "('h, 'z) rhy_st_scheme"
  assumes "bus_quiet s t"
  shows "rhy_ok s t"
  using assms rhy_vars_cong(16) [of t s] by (simp add: rhy_ok_def bus_quiet_def)

lemma rhyaddr_rhy:
  fixes s :: "('h, 'z) rhy_st_scheme"
  shows "rhy_ok s (opna_mgmt_write OMGMT_RHYADDR v s)"
  by (rule quiet_rhy_ok, rule opna_reg_quiet) (simp add: OMGMT_RHYADDR_def)

lemma store_byte_rhy:
  fixes s :: "('h, 'z) rhy_st_scheme"
  assumes "drums (rhy_addr (opna s))"
  shows "rhy_ok s (opna_mgmt_write OMGMT_RHYDATA v s)"
    "rhy_addr (opna (opna_mgmt_write OMGMT_RHYDATA v s)) = rhy_addr (opna s) + 1"
  using store_byte_ok [of drums s, OF assms] by (simp_all add: rhy_ok_def) (simp add: opna_mgmt_write_eq)

definition wav_sync :: "('h, 'z) rhy_st_scheme \<Rightarrow> bool" where
  "wav_sync s \<longleftrightarrow> rhy_addr (opna s) = ucast (wav_cursor s + wav_written s)
     \<and> unat (wav_cursor s) + unat (wav_written s) \<le> 16384"

definition wav_fits :: "('h, 'z) rhy_st_scheme \<Rightarrow> ('h, 'z) rhy_st_scheme \<Rightarrow> bool" where
  "wav_fits s t \<longleftrightarrow> rhy_ok s t \<and> wav_sync t \<and> wav_cursor t = wav_cursor s
     \<and> wav_voice t = wav_voice s \<and> wav_open t = wav_open s \<and> wav_slot t = wav_slot s"

lemma wav_fits_step:
  assumes "wav_fits s t" "opna u = opna t" "scsi u = scsi t" "fdd u = fdd t"
    "dtbl u = dtbl t" "outs u = outs t" "tds_log u = tds_log t" "bram u = bram t"
    "wav_cursor u = wav_cursor t" "wav_written u = wav_written t" "wav_voice u = wav_voice t"
    "wav_open u = wav_open t" "wav_slot u = wav_slot t" "rhy_st.more u = rhy_st.more t"
  shows "wav_fits s u"
  using assms rhy_ok_step [of s t u] by (auto simp: wav_fits_def wav_sync_def)

lemma wav_emit_fits: "wav_fits s t \<Longrightarrow> wav_fits s (wav_emit out t)"
proof (induction out arbitrary: t)
  case (Cons b out)
  show ?case
  proof (cases "wav_cursor t + wav_written t < RHY_STORE_BYTES")
    case True
    define u where "u = opna_mgmt_write OMGMT_RHYDATA (ucast b) t"
    have sync: "rhy_addr (opna t) = ucast (wav_cursor t + wav_written t)"
      "unat (wav_cursor t) + unat (wav_written t) \<le> 16384" and ok: "rhy_ok s t" "wav_cursor t = wav_cursor s"
      "wav_voice t = wav_voice s" "wav_open t = wav_open s" "wav_slot t = wav_slot s"
      using Cons.prems by (auto simp: wav_fits_def wav_sync_def)
    have sum: "unat (wav_cursor t + wav_written t) = unat (wav_cursor t) + unat (wav_written t)"
      using sync(2) by (simp add: unat_word_ariths)
    then have less: "unat (wav_cursor t) + unat (wav_written t) < 16384"
      using True by (simp add: word_less_nat_alt RHY_STORE_BYTES_def)
    then have "drums (rhy_addr (opna t))" using sync(1) sum unat_store_addr by simp
    then have u: "rhy_ok t u" "rhy_addr (opna u) = ucast (wav_cursor t + wav_written t) + 1"
      using store_byte_rhy [of t] sync(1) by (simp_all add: u_def)
    have same: "wav_cursor u = wav_cursor t" "wav_written u = wav_written t" "wav_voice u = wav_voice t"
      "wav_open u = wav_open t" "wav_slot u = wav_slot t"
      by (simp_all add: u_def opna_mgmt_write_eq)
    have "unat (wav_written t + 1) = unat (wav_written t) + 1" using less by (simp add: unat_word_ariths)
    then have "wav_sync (u\<lparr>wav_written := wav_written t + 1\<rparr>)"
      using u(2) less by (simp add: wav_sync_def same ucast_store_Suc [symmetric] add.assoc)
    moreover have "rhy_ok s (u\<lparr>wav_written := wav_written t + 1\<rparr>)"
      by (rule rhy_ok_step [OF rhy_ok_trans [OF ok(1) u(1)]]) simp_all
    ultimately have "wav_fits s (u\<lparr>wav_written := wav_written t + 1\<rparr>)"
      using ok(2-5) by (simp add: wav_fits_def same)
    then have "wav_fits s (wav_emit out (u\<lparr>wav_written := wav_written t + 1\<rparr>))" by (rule Cons.IH)
    then show ?thesis using True by (simp add: wav_emit_def u_def)
  next
    case False
    then show ?thesis using Cons by (simp add: wav_emit_def)
  qed
qed (simp add: wav_emit_def)

lemma wav_byte_fits:
  assumes "wav_byte n wi w b t = Some u" "wav_fits s t"
  shows "wav_fits s u"
proof -
  have "wav_fits s (t\<lparr>wav_enc := e\<rparr>)" for e by (rule wav_fits_step [OF assms(2)]) simp_all
  then have "wav_fits s (wav_emit_bytes (t\<lparr>wav_enc := e\<rparr>))" "wav_fits s (t\<lparr>wav_enc := e\<rparr>)" for e
    by (simp_all add: wav_emit_bytes_def wav_emit_fits)
  then show ?thesis
    using assms by (auto simp: wav_byte_def wav_push_def Let_def split: if_splits)
qed

lemma wav_word_fits:
  assumes "wav_word n wi t = Some u" "wav_fits s t"
  shows "wav_fits s u"
proof -
  have "wav_fits s (snd (bram_read t))"
    by (rule wav_fits_step [OF assms(2)]) (simp_all add: bram_read_def)
  moreover obtain w where "for_opt 4 (wav_byte n wi w) (snd (bram_read t)) = Some u"
    using assms(1) by (auto simp: wav_word_def Let_def case_prod_beta)
  ultimately show ?thesis using for_opt_inv [where I = "wav_fits s"] wav_byte_fits by metis
qed

lemma drain_fits:
  assumes "enc_drain wav_emit (e, t) = Some (e', u)" "wav_fits s t"
  shows "wav_fits s u"
proof -
  have "wav_fits s (snd (e', u))"
    by (rule loop_partial [OF assms(1) [unfolded enc_drain_def], where I = "\<lambda>es. wav_fits s (snd es)"])
      (use assms(2) in \<open>auto simp: drain_step_def Let_def wav_emit_fits split: if_splits\<close>)
  then show ?thesis by simp
qed

text \<open>What a rhythm call may assume and keeps between calls.\<close>

definition rhy_inv :: "('h, 'z) rhy_st_scheme \<Rightarrow> bool" where
  "rhy_inv s \<longleftrightarrow> unat (wav_cursor s) \<le> 16384 \<and> unat (wav_voice s) \<le> 6
     \<and> (wav_open s \<longrightarrow> unat (wav_cursor s) + unat (wav_written s) \<le> 16384
          \<and> 14 \<le> unat (wav_slot s) \<and> unat (wav_slot s) \<le> 19)"

text \<open>Placed: inside the drum half so far, and the call's bookkeeping as at its start.\<close>

definition placed :: "('h, 'z) rhy_st_scheme \<Rightarrow> ('h, 'z) rhy_st_scheme \<Rightarrow> bool" where
  "placed s t \<longleftrightarrow> rhy_ok s t \<and> wav_cursor t = wav_cursor s \<and> wav_voice t = wav_voice s
     \<and> wav_written t = wav_written s \<and> wav_open t = wav_open s \<and> wav_slot t = wav_slot s"

lemma placed_refl [simp]: "placed s s"
  by (simp add: placed_def)

lemma placed_quiet:
  fixes s t u :: "('h, 'z) rhy_st_scheme"
  assumes "placed s t" "bus_quiet t u"
  shows "placed s u"
proof -
  have "bus.more u = bus.more t" "rhy_ok t u" using assms(2) quiet_rhy_ok by (auto simp: bus_quiet_def)
  then show ?thesis
    using assms(1) rhy_vars_cong [of u t] rhy_ok_trans by (auto simp: placed_def)
qed

lemma placed_upd:
  assumes "placed s t"
  shows "placed s (t\<lparr>wav_ch := a, wav_bits := b\<rparr>)"
  using assms rhy_ok_step [of s t "t\<lparr>wav_ch := a, wav_bits := b\<rparr>"] by (simp add: placed_def)

context dataslot
begin

lemma wav_read_quiet:
  fixes s :: "('h, 'z) bus_scheme"
  assumes "14 \<le> unat slot" "unat slot \<le> 19" "unat n \<le> 512"
  shows "bus_quiet s (snd (wav_read apf slot off n s))"
proof -
  obtain ok t where t: "tds_transfer apf slot off FDD_TDS_READ n s = (ok, t)" by fastforce
  have "bus_quiet s t" using sound_read_quiet [OF t] assms by simp
  then show ?thesis
    by (simp add: wav_read_def t bus_quiet_trans [OF _ bram_port_quiet(2)])
qed

lemma wav_chunk_placed:
  assumes slot: "14 \<le> unat slot" "unat slot \<le> 19" and p: "placed s (snd r)"
  shows "wav_chunk apf slot fin r = Inl r' \<Longrightarrow> placed s (snd r')"
    and "wav_chunk apf slot fin r = Inr q \<Longrightarrow> placed s (snd q)"
proof -
  obtain off got rate t where r: "r = ((off, got, rate), t)" by (metis prod.exhaust)
  have rd: "bus_quiet u (snd (wav_read apf slot o' 8 u))" "bus_quiet u (snd (wav_read apf slot o' 16 u))"
    for o' and u :: "('h, 'z) rhy_st_scheme"
    by (simp_all add: wav_read_quiet [OF slot])
  define t1 where "t1 = snd (wav_read apf slot off 8 t)"
  define t2 where "t2 = snd (bram_read t1)"
  define t3 where "t3 = snd (bram_read t2)"
  define t4 where "t4 = snd (wav_read apf slot (off + 8) 16 t3)"
  define t5 where "t5 = snd (bram_read (snd (bram_read (snd (bram_read (snd (bram_read t4)))))))"
  have "placed s t" using p r by simp
  then have t1: "placed s t1" unfolding t1_def by (rule placed_quiet) (rule rd)
  then have t3: "placed s t3" unfolding t3_def t2_def by (intro placed_quiet [OF _ bram_port_quiet(1)])
  then have t4: "placed s t4" unfolding t4_def by (rule placed_quiet) (rule rd)
  then have t5: "placed s t5" unfolding t5_def by (intro placed_quiet [OF _ bram_port_quiet(1)])
  note fold_defs = t1_def [symmetric] t2_def [symmetric] t3_def [symmetric] t4_def [symmetric] t5_def [symmetric]
  show "wav_chunk apf slot fin r = Inl r' \<Longrightarrow> placed s (snd r')"
    using t3 t5 unfolding r wav_chunk_def Let_def case_prod_beta prod.sel fold_defs
    by (auto split: if_splits intro: placed_upd)
  show "wav_chunk apf slot fin r = Inr q \<Longrightarrow> placed s (snd q)"
    using \<open>placed s t\<close> t1 t3 t4 t5 unfolding r wav_chunk_def Let_def case_prod_beta prod.sel fold_defs
    by (auto split: if_splits)
qed

lemma wav_probe_placed:
  assumes "14 \<le> unat slot" "unat slot \<le> 19" "wav_probe apf slot s = Some q"
  shows "placed s (snd q)"
proof -
  define t1 where "t1 = snd (wav_read apf slot 0 12 s)"
  define t2 where "t2 = snd (bram_read t1)"
  define t3 where "t3 = snd (bram_read (bram_seek 2 t2))"
  define t4 where "t4 = snd (slot_bytes slot t3)"
  have t1: "placed s t1" unfolding t1_def
    by (rule placed_quiet [OF placed_refl]) (use assms(1,2) in \<open>simp add: wav_read_quiet\<close>)
  then have t2: "placed s t2" unfolding t2_def by (intro placed_quiet [OF _ bram_port_quiet(1)])
  then have t3: "placed s t3" unfolding t3_def
    by (intro placed_quiet [OF _ bram_port_quiet(1)] placed_quiet [OF _ bram_port_quiet(2)])
  then have t4: "placed s t4" unfolding t4_def by (intro placed_quiet [OF _ slot_bytes_quiet])
  have walk: "placed s (snd q')" if "loop (wav_chunk apf slot fin) ((12, False, 0), t4) = Some q'" for fin q'
    by (rule loop_partial [OF that, where I = "\<lambda>r. placed s (snd r)"])
      (use t4 wav_chunk_placed [OF assms(1,2)] in auto)
  note fold_defs = t1_def [symmetric] t2_def [symmetric] t3_def [symmetric] t4_def [symmetric]
  show ?thesis
    using assms(3) t1 t2 t3 walk unfolding wav_probe_def Let_def case_prod_beta prod.sel fold_defs
    by (auto split: if_splits)
qed

lemma wav_begin_ok:
  assumes inv: "rhy_inv s" "unat (wav_voice s) < 6" "\<not> wav_open s" and run: "wav_begin apf s = Some (b, t)"
  shows "rhy_ok s t \<and> wav_voice t = wav_voice s \<and> wav_open t = b \<and> rhy_inv t"
proof -
  define i where "i = RHY_WAV_SLOT_BASE + ucast (wav_voice s)"
  define s0 where "s0 = s\<lparr>wav_slot := i\<rparr>"
  define s1 where "s1 = snd (slot_bytes i s0)"
  have "unat (ucast (wav_voice s) :: u16) < 6"
    using inv(2) by (simp add: unsigned_ucast_eq take_bit_eq_mod)
  then have i: "14 \<le> unat i" "unat i \<le> 19"
    unfolding i_def RHY_WAV_SLOT_BASE_def by (simp_all add: unat_word_ariths)
  have ok0: "rhy_ok s s0" by (rule rhy_okI) (simp_all add: s0_def)
  have s1: "placed s0 s1" unfolding s1_def by (rule placed_quiet [OF placed_refl slot_bytes_quiet])
  have keep: "rhy_ok s u \<and> wav_voice u = wav_voice s \<and> wav_open u = wav_open s
      \<and> wav_cursor u = wav_cursor s \<and> wav_slot u = i" if "placed s0 u" for u
    using that rhy_ok_trans [OF ok0] by (simp add: placed_def s0_def)
  have slot1: "wav_slot s1 = i" "wav_slot s0 = i" using keep [OF s1] by (simp_all add: s0_def)
  have eq: "wav_begin apf s = (if fst (slot_bytes i s0) = 0 then Some (False, s1)
      else map_option (\<lambda>(q, u). case q of None \<Rightarrow> (False, u)
             | Some w \<Rightarrow> if wav_usable w u then (True, wav_start w u) else (False, u)) (wav_probe apf i s1))"
    unfolding wav_begin_def Let_def case_prod_beta i_def [symmetric] s0_def [symmetric]
    unfolding slot1(2) unfolding s1_def [symmetric] slot1(1) by simp
  show ?thesis
  proof (cases "fst (slot_bytes i s0) = 0")
    case True
    then have "b = False" "t = s1"
      using run eq by simp_all
    then show ?thesis using keep [OF s1] inv by (simp add: rhy_inv_def)
  next
    case False
    then obtain q u where q: "wav_probe apf i s1 = Some (q, u)"
      and r: "(b, t) = (case q of None \<Rightarrow> (False, u) | Some i \<Rightarrow> if wav_usable i u then (True, wav_start i u) else (False, u))"
      using run unfolding eq by auto
    have "placed s1 u" using wav_probe_placed [OF i q] by simp
    then have u: "placed s0 u" using s1 rhy_ok_trans by (auto simp: placed_def)
    show ?thesis
    proof (cases "b")
      case False
      then have "t = u" using r by (auto split: option.splits if_splits)
      then show ?thesis using keep [OF u] inv False by (simp add: rhy_inv_def)
    next
      case True
      then obtain w where t: "t = wav_start w u" using r by (auto split: option.splits if_splits)
      obtain off len rate where w: "w = (off, len, rate)" by (metis prod.exhaust)
      define v where "v = opna_mgmt_write OMGMT_RHYADDR (wav_cursor u) (u\<lparr>wav_enc := adpcm_enc_init rate\<rparr>)"
      have "rhy_ok u (u\<lparr>wav_enc := adpcm_enc_init rate\<rparr>)" by (rule rhy_okI) simp_all
      then have v: "rhy_ok s v" unfolding v_def
        using keep [OF u] rhyaddr_rhy rhy_ok_trans by blast
      have "rhy_ok s t"
        by (rule rhy_ok_step [OF v]) (simp_all add: t w wav_start_def v_def Let_def)
      moreover have "wav_voice t = wav_voice s" "wav_open t" "wav_cursor t = wav_cursor s" "wav_written t = 0" "wav_slot t = i"
        using keep [OF u] by (simp_all add: t w wav_start_def opna_mgmt_write_eq Let_def)
      ultimately show ?thesis using inv i True by (simp add: rhy_inv_def)
    qed
  qed
qed

lemma wav_take_le: "unat (wav_take s) \<le> 512"
proof -
  define n where "n = (if SECTOR_BYTES < wav_left s then SECTOR_BYTES else wav_left s)"
  have n: "unat n \<le> 512" by (simp add: n_def SECTOR_BYTES_def word_less_nat_alt)
  have "n AND (wav_frame s - 1) \<le> n" by (rule word_and_le2)
  then have "unat (n - (n AND (wav_frame s - 1))) \<le> unat n" by (simp add: unat_sub word_le_nat_alt)
  then show ?thesis using n by (simp add: wav_take_def n_def Let_def)
qed

lemma wav_pull_ok:
  assumes inv: "rhy_inv s" "wav_open s" and run: "wav_pull apf s = Some t"
  shows "wav_fits s t"
proof -
  define s1 where "s1 = (if RHY_STORE_BYTES \<le> wav_cursor s + wav_written s then s\<lparr>wav_left := 0\<rparr> else s)"
  define s2 where "s2 = opna_mgmt_write OMGMT_RHYADDR (wav_cursor s1 + wav_written s1) s1"
  define n where "n = wav_take s2"
  define r where "r = wav_read apf (wav_slot s2) (wav_pos s2) n s2"
  have s1: "rhy_ok s s1" by (rule rhy_okI) (simp_all add: s1_def)
  have same: "wav_cursor s2 = wav_cursor s" "wav_written s2 = wav_written s" "wav_voice s2 = wav_voice s"
    "wav_open s2 = wav_open s" "wav_slot s2 = wav_slot s"
    by (simp_all add: s2_def s1_def opna_mgmt_write_eq)
  have s2: "rhy_ok s s2" "rhy_addr (opna s2) = ucast (wav_cursor s + wav_written s)"
    unfolding s2_def using rhy_ok_trans [OF s1 rhyaddr_rhy] by (simp_all add: rhyaddr_ok(2) s1_def)
  have fits2: "wav_fits s s2"
    using s2 same inv by (simp add: wav_fits_def wav_sync_def rhy_inv_def)
  have slot: "14 \<le> unat (wav_slot s2)" "unat (wav_slot s2) \<le> 19" using inv same by (simp_all add: rhy_inv_def)
  have "unat n \<le> 512" by (simp add: n_def wav_take_le)
  then have q: "bus_quiet s2 (snd r)" unfolding r_def by (intro wav_read_quiet slot)
  have "opna (snd r) = opna s2"
  proof -
    obtain ok u where u: "tds_transfer apf (wav_slot s2) (wav_pos s2) FDD_TDS_READ n s2 = (ok, u)" by fastforce
    have "opna u = opna s2" using sound_read_ok(2) [OF u] slot \<open>unat n \<le> 512\<close> by simp
    then show ?thesis by (simp add: r_def wav_read_def u bram_seek_def)
  qed
  moreover have q': "rhy_ok s2 (snd r)" "bus.more (snd r) = bus.more s2"
    using q quiet_rhy_ok [of s2 "snd r"] by (simp_all add: bus_quiet_def)
  moreover have "rhy_ok s (snd r)" using rhy_ok_trans [OF s2(1) q'(1)] .
  ultimately have fits3: "wav_fits s (snd r)"
    using fits2 rhy_vars_cong [OF q'(2)] by (auto simp: wav_fits_def wav_sync_def)
  have eq: "wav_pull apf s = (if n = 0 then Some s2 else if fst r = 0 then Some ((snd r)\<lparr>wav_failed := True\<rparr>)
      else for_opt (unat ((n + 3) div 4)) (wav_word n)
        ((snd r)\<lparr>wav_pos := wav_pos (snd r) + n, wav_left := wav_left (snd r) - n\<rparr>))"
    unfolding wav_pull_def Let_def case_prod_beta s1_def [symmetric] s2_def [symmetric] n_def [symmetric]
      r_def [symmetric] by simp
  have upd: "wav_fits s ((snd r)\<lparr>wav_failed := True\<rparr>)" "wav_fits s ((snd r)\<lparr>wav_pos := a, wav_left := b\<rparr>)" for a b
    by (rule wav_fits_step [OF fits3]; simp)+
  show ?thesis
    using run fits2 upd for_opt_inv [where I = "wav_fits s"] wav_word_fits unfolding eq by (metis option.inject)
qed

lemma wav_finish_ok:
  assumes inv: "rhy_inv s" "wav_open s" "unat (wav_voice s) < 6" and fits: "wav_fits s u"
    and run: "wav_finish u = Some t"
  shows "rhy_ok s t \<and> rhy_inv t"
proof (cases "wav_failed u \<or> wav_left u = 0")
  case False
  then have "t = u" using run by (simp add: wav_finish_def)
  then show ?thesis using fits inv by (auto simp: wav_fits_def wav_sync_def rhy_inv_def)
next
  case True
  then obtain e v where d: "enc_drain wav_emit (wav_enc u, u) = Some (e, v)" and t: "t = wav_close (v\<lparr>wav_enc := e\<rparr>)"
    using run by (auto simp: wav_finish_def)
  have v: "wav_fits s v" using drain_fits [OF d fits] .
  define w where "w = v\<lparr>wav_enc := e\<rparr>"
  have w: "wav_fits s w" unfolding w_def by (rule wav_fits_step [OF v]) simp_all
  define p where "p = inject_pair (wav_voice w) (drop_bit 8 (wav_cursor w)) (drop_bit 8 (wav_cursor w + wav_written w - 1)) w"
  have "bus_quiet w p" unfolding p_def by (rule inject_pair_quiet)
  then have q: "rhy_ok w p" "bus.more p = bus.more w"
    using quiet_rhy_ok [of w p] by (simp_all add: bus_quiet_def)
  have "rhy_ok s w" using w by (simp add: wav_fits_def)
  then have p: "rhy_ok s p" "wav_cursor p = wav_cursor w" "wav_written p = wav_written w" "wav_voice p = wav_voice w"
    using rhy_ok_trans [OF _ q(1)] rhy_vars_cong [OF q(2)] by simp_all
  have voice: "unat (wav_voice w + 1) = unat (wav_voice w) + 1" "wav_voice w = wav_voice s"
    using w inv(3) by (simp_all add: wav_fits_def unat_word_ariths)
  have sum: "unat (wav_cursor w + wav_written w) \<le> 16384" "unat (wav_cursor w) \<le> 16384"
    using w by (auto simp: wav_fits_def wav_sync_def unat_word_ariths)
  show ?thesis
  proof (cases "\<not> wav_failed w \<and> wav_written w \<noteq> 0")
    case True
    have "rhy_ok s t"
      using True by (intro rhy_ok_step [OF p(1)])
        (simp_all add: t w_def [symmetric] wav_close_def wav_resolve_def p_def Let_def)
    moreover have "wav_cursor t = wav_cursor w + wav_written w" "wav_voice t = wav_voice w + 1" "\<not> wav_open t"
      using True p(2-4) by (simp_all add: t w_def [symmetric] wav_close_def wav_resolve_def p_def [symmetric] Let_def)
    ultimately show ?thesis using sum voice inv(3) by (simp add: rhy_inv_def)
  next
    case False
    have "rhy_ok s w" using w by (simp add: wav_fits_def)
    then have "rhy_ok s t"
      by (rule rhy_ok_step) (use False in \<open>auto simp: t w_def [symmetric] wav_close_def wav_resolve_def Let_def\<close>)
    moreover have "wav_cursor t = wav_cursor w" "wav_voice t = wav_voice w + 1" "\<not> wav_open t"
      using False by (auto simp: t w_def [symmetric] wav_close_def wav_resolve_def Let_def)
    ultimately show ?thesis using sum voice inv(3) by (simp add: rhy_inv_def)
  qed
qed

lemma skip_done_ok:
  fixes s :: "('h, 'z) rhy_st_scheme"
  assumes "rhy_inv s"
  shows "rhy_ok s (skip_done s) \<and> rhy_inv (skip_done s)"
  unfolding skip_done_def
proof (rule for_to_inv [where I = "\<lambda>_ t. rhy_ok s t \<and> rhy_inv t"])
  fix k :: nat and t :: "('h, 'z) rhy_st_scheme"
  assume I: "rhy_ok s t \<and> rhy_inv t"
  have "rhy_ok s (t\<lparr>wav_voice := wav_voice t + 1\<rparr>)"
    by (rule rhy_ok_step [OF I [THEN conjunct1]]) simp_all
  moreover have "unat (wav_voice t + 1) \<le> 6" if "wav_voice t < 6"
    using that by (simp add: word_less_nat_alt unat_word_ariths)
  ultimately show "rhy_ok s (if wav_voice t < 6 \<and> wav_done t (unat (wav_voice t))
      then t\<lparr>wav_voice := wav_voice t + 1\<rparr> else t) \<and>
    rhy_inv (if wav_voice t < 6 \<and> wav_done t (unat (wav_voice t))
      then t\<lparr>wav_voice := wav_voice t + 1\<rparr> else t)"
    using I by (simp add: rhy_inv_def)
qed (use assms in simp)

lemma wav_resolve_ok:
  assumes "rhy_ok s t" "rhy_inv t" "unat (wav_voice t) < 6" "\<not> wav_open t"
  shows "rhy_ok s (wav_resolve t) \<and> rhy_inv (wav_resolve t)"
proof -
  have "rhy_ok s (wav_resolve t)" by (rule rhy_ok_step [OF assms(1)]) (simp_all add: wav_resolve_def)
  moreover have "unat (wav_voice t + 1) = unat (wav_voice t) + 1" using assms(3) by (simp add: unat_word_ariths)
  ultimately show ?thesis using assms(2-4) by (simp add: rhy_inv_def wav_resolve_def)
qed

lemma wav_step_ok:
  assumes inv: "rhy_inv s" and run: "wav_step apf s = Some (b, t)"
  shows "rhy_ok s t \<and> rhy_inv t"
proof -
  define s1 where "s1 = skip_done s"
  have s1: "rhy_ok s s1" "rhy_inv s1" using skip_done_ok [OF inv] by (simp_all add: s1_def)
  show ?thesis
  proof (cases "6 \<le> wav_voice s1")
    case True
    then show ?thesis using run s1 by (simp add: wav_step_def s1_def [symmetric] Let_def)
  next
    case False
    then have v: "unat (wav_voice s1) < 6" by (simp add: word_le_nat_alt)
    obtain o' s2 where o': "(if wav_open s1 then Some (True, s1) else wav_begin apf s1) = Some (o', s2)"
      and r: "Some (b, t) = (if o' then map_option (Pair False) (Option.bind (wav_pull apf s2) wav_finish)
                else Some (False, wav_resolve s2))"
      using run False unfolding wav_step_def s1_def [symmetric] Let_def
      by (auto split: option.splits prod.splits bool.splits)
    have s2: "rhy_ok s1 s2" "wav_voice s2 = wav_voice s1" "wav_open s2 = o'" "rhy_inv s2"
      using o' s1(2) v wav_begin_ok [of s1 o' s2] by (auto split: if_splits)
    have ok2: "rhy_ok s s2" using rhy_ok_trans [OF s1(1) s2(1)] .
    show ?thesis
    proof (cases o')
      case False
      then show ?thesis using wav_resolve_ok [OF ok2 s2(4)] v s2 r by auto
    next
      case True
      then have "Option.bind (wav_pull apf s2) wav_finish = Some t"
        using r by (cases "Option.bind (wav_pull apf s2) wav_finish") auto
      then obtain u where u: "wav_pull apf s2 = Some u" "wav_finish u = Some t"
        by (auto simp: bind_eq_Some_conv)
      have "wav_open s2" "unat (wav_voice s2) < 6" using True s2 v by auto
      then have "rhy_ok s2 t \<and> rhy_inv t"
        using wav_finish_ok [OF s2(4)] wav_pull_ok [OF s2(4)] u by blast
      then show ?thesis using rhy_ok_trans [OF ok2] by blast
    qed
  qed
qed

end

section \<open>The packed file\<close>

text \<open>\<open>j\<close> bytes of a chunk of \<open>n\<close> handled, at store offset \<open>base\<close>.\<close>

definition chunk_at :: "nat \<Rightarrow> u32 \<Rightarrow> ('h, 'z) bus_scheme \<Rightarrow> nat \<Rightarrow> ('h, 'z) bus_scheme \<Rightarrow> bool" where
  "chunk_at base n s j t \<longleftrightarrow> snd_ok drums s t \<and> bus.more t = bus.more s
     \<and> rhy_addr (opna t) = of_nat (base + min j (unat n))"

lemma chunk_byte:
  assumes "chunk_at base n s j t" "base + unat n \<le> 16384" "j < 2 ^ 32"
  shows "chunk_at base n s (Suc j)
    (if of_nat j < n then opna_mgmt_write OMGMT_RHYDATA v t else t)"
proof (cases "of_nat j < n")
  case True
  then have j: "j < unat n" using assms(3) by (simp add: word_less_nat_alt unat_of_nat)
  then have a: "rhy_addr (opna t) = of_nat (base + j)" using assms(1) by (simp add: chunk_at_def)
  then have "drums (rhy_addr (opna t))" using j assms(2) by (simp only: unat_of_nat) simp
  from store_byte_ok [of drums t, OF this]
  have w: "snd_ok drums t (opna_mgmt_write OMGMT_RHYDATA v t)"
    "rhy_addr (opna (opna_mgmt_write OMGMT_RHYDATA v t)) = of_nat (base + j) + 1"
    by (simp_all add: a)
  have "bus.more (opna_mgmt_write OMGMT_RHYDATA v t) = bus.more t" by (simp add: opna_mgmt_write_eq)
  then show ?thesis
    using True w j assms(1) snd_ok_trans [OF _ w(1)] by (simp add: chunk_at_def min_def)
next
  case False
  then have "unat n \<le> j" using assms(3) by (simp add: word_less_nat_alt unat_of_nat)
  then show ?thesis using False assms(1) by (simp add: chunk_at_def min_def)
qed

lemma chunk_at_quiet:
  assumes "chunk_at base n s j t" "bus_quiet t u" "opna u = opna t"
  shows "chunk_at base n s j u"
proof -
  have "snd_ok drums t u" "bus.more u = bus.more t" using assms(2) by (simp_all add: bus_quiet_def)
  then show ?thesis using assms(1,3) snd_ok_trans [of drums s t u] by (simp add: chunk_at_def)
qed

lemma bin_word_at:
  assumes "chunk_at base n s (4 * wi) t" "base + unat n \<le> 16384" "wi < 2 ^ 29"
  shows "chunk_at base n s (4 * Suc wi) (bin_word n wi t)"
proof -
  define u where "u = snd (bram_read t)"
  have u: "chunk_at base n s (4 * wi) u"
  proof (rule chunk_at_quiet [OF assms(1)])
    show "bus_quiet t u" unfolding u_def by (rule bram_port_quiet)
  qed (simp add: u_def bram_read_def)
  have "chunk_at base n s (4 * wi + 4) (for_to 4 (\<lambda>b s. if of_nat (wi * 4 + b) < n
      then opna_mgmt_write OMGMT_RHYDATA (drop_bit (8 * b) (fst (bram_read t)) AND 0xFF) s else s) u)"
  proof (rule for_to_inv [where I = "\<lambda>b. chunk_at base n s (4 * wi + b)"])
    fix b v assume "b < 4" "chunk_at base n s (4 * wi + b) v"
    then show "chunk_at base n s (4 * wi + Suc b) (if of_nat (wi * 4 + b) < n
        then opna_mgmt_write OMGMT_RHYDATA (drop_bit (8 * b) (fst (bram_read t)) AND 0xFF) v else v)"
      using chunk_byte [of base n s "wi * 4 + b" v] assms(2,3) by (simp add: mult.commute)
  qed (use u in simp)
  moreover have "4 * wi + 4 = 4 * Suc wi" by simp
  ultimately show ?thesis
    by (simp only: bin_word_def u_def Let_def case_prod_beta)
qed

context dataslot
begin

lemma bin_chunks_ok:
  fixes s :: "('h, 'z) bus_scheme"
  assumes "bin_chunks apf payload len [k..<m] s = (ok, t)" "unat len \<le> 16384"
    "m = (unat len + 511) div 512" "k \<le> m" "k < m \<Longrightarrow> rhy_addr (opna s) = of_nat (512 * k)"
  shows "snd_ok drums s t \<and> bus.more t = bus.more s"
  using assms
proof (induction "m - k" arbitrary: k s)
  case 0
  then show ?case by simp
next
  case (Suc d)
  then have km: "k < m" "d = m - Suc k" by auto
  define off :: u32 where "off = of_nat (512 * k)"
  define n where "n = (if SECTOR_BYTES < len - off then SECTOR_BYTES else len - off)"
  obtain ok1 s1 where tr: "tds_transfer apf RHYTHM_SLOT_ID (payload + off) FDD_TDS_READ n s = (ok1, s1)"
    by fastforce
  have k: "512 * k < unat len" using km(1) Suc.prems(3) by linarith
  have "unat off = 512 * k" unfolding off_def using k Suc.prems(2) by (simp only: unat_of_nat) simp
  then have d: "unat (len - off) = unat len - 512 * k"
    using k by (simp add: unat_sub word_le_nat_alt)
  then have n: "unat n = min 512 (unat len - 512 * k)"
    by (auto simp: n_def SECTOR_BYTES_def word_less_nat_alt)
  have q: "bus_quiet s s1" and o1: "opna s1 = opna s"
    using sound_read_quiet [OF tr] sound_read_ok(2) [OF tr] n by (simp_all add: RHYTHM_SLOT_ID_def)
  have split: "[k..<m] = k # [Suc k..<m]" using km(1) by (simp add: upt_conv_Cons)
  define s2 where "s2 = for_to (unat ((n + 3) div 4)) (bin_word n) (bram_seek 0 s1)"
  have "bin_chunks apf payload len (k # [Suc k..<m]) s
      = (if ok1 then bin_chunks apf payload len [Suc k..<m] s2 else (False, s1))"
    unfolding bin_chunks.simps Let_def off_def [symmetric] n_def [symmetric] tr
    by (simp add: s2_def del: for_to_numeral)
  then have res: "(ok, t) = (if ok1 then bin_chunks apf payload len [Suc k..<m] s2 else (False, s1))"
    using Suc.prems(1) by (simp add: split)
  show ?case
  proof (cases ok1)
    case False
    then have "t = s1" using res by simp
    then show ?thesis using q by (simp add: bus_quiet_def)
  next
    case True
    have run: "bin_chunks apf payload len [Suc k..<m] s2 = (ok, t)" using True res by simp
    have "unat (n + 3) = unat n + 3" using n by (simp add: unat_word_ariths)
    then have words: "unat ((n + 3) div 4) = (unat n + 3) div 4" by (simp add: unat_div)
    have c0: "chunk_at (512 * k) n s 0 (bram_seek 0 s1)"
    proof -
      have "bus_quiet s (bram_seek 0 s1)" using bus_quiet_trans [OF q bram_port_quiet(2)] .
      then show ?thesis using Suc.prems(5) km(1) o1 by (simp add: chunk_at_def bus_quiet_def bram_seek_def)
    qed
    have base: "512 * k + unat n \<le> 16384" using n k Suc.prems(2) by simp
    have "chunk_at (512 * k) n s (4 * unat ((n + 3) div 4)) s2"
      unfolding s2_def
    proof (rule for_to_inv [where I = "\<lambda>wi. chunk_at (512 * k) n s (4 * wi)"])
      fix wi u assume "wi < unat ((n + 3) div 4)" "chunk_at (512 * k) n s (4 * wi) u"
      moreover from this have "wi < 2 ^ 29" using words n by simp
      ultimately show "chunk_at (512 * k) n s (4 * Suc wi) (bin_word n wi u)" using bin_word_at base by blast
    qed (use c0 in simp)
    moreover have "unat n \<le> 4 * unat ((n + 3) div 4)" using words by simp
    ultimately have s2: "snd_ok drums s s2" "bus.more s2 = bus.more s" "rhy_addr (opna s2) = of_nat (512 * k + unat n)"
      by (simp_all add: chunk_at_def min_def)
    have "rhy_addr (opna s2) = of_nat (512 * Suc k)" if "Suc k < m"
    proof -
      have "Suc (Suc k) * 512 \<le> unat len + 511"
        using that Suc.prems(3) less_eq_div_iff_mult_less_eq [of 512 "Suc (Suc k)" "unat len + 511"] by simp
      then have "512 * Suc k < unat len" by simp
      then have "unat n = 512" using n by simp
      then show ?thesis using s2(3) by (simp add: algebra_simps)
    qed
    then have "snd_ok drums s2 t \<and> bus.more t = bus.more s2"
      using Suc.hyps(1) [OF km(2) run Suc.prems(2,3)] km(1) by simp
    then show ?thesis using s2 snd_ok_trans by auto
  qed
qed

lemma placed_inv: "placed s t \<Longrightarrow> rhy_inv s \<Longrightarrow> rhy_ok s t \<and> rhy_inv t"
  by (simp add: placed_def rhy_inv_def)

lemma placed_more:
  fixes s t u :: "('h, 'z) rhy_st_scheme"
  assumes "placed s t" "snd_ok drums t u" "bus.more u = bus.more t"
  shows "placed s u"
  using assms rhy_vars_cong [OF assms(3)] rhy_ok_trans [of s t u] by (simp add: placed_def rhy_ok_def)

lemma bin_pairs_placed:
  fixes s :: "('h, 'z) rhy_st_scheme"
  assumes "placed s t"
  shows "placed s (for_to n bin_pair t)"
proof (rule for_to_inv [where I = "\<lambda>_. placed s"])
  fix i and u :: "('h, 'z) rhy_st_scheme"
  assume "placed s u"
  then have "placed s (snd (bram_read u))" by (rule placed_quiet) (rule bram_port_quiet)
  then show "placed s (bin_pair i u)"
    using rhy_ok_step [of s "snd (bram_read u)" "bin_pair i u"]
    by (simp add: bin_pair_def placed_def Let_def case_prod_beta)
qed (rule assms)

lemma bin_load_placed:
  fixes s :: "('h, 'z) rhy_st_scheme"
  assumes run: "bin_load apf s = (ok, t)"
  shows "placed s t"
proof -
  define s1 where "s1 = snd (slot_bytes RHYTHM_SLOT_ID s)"
  define total where "total = fst (slot_bytes RHYTHM_SLOT_ID s)"
  obtain ok1 s2 where tr: "tds_transfer apf RHYTHM_SLOT_ID 0 FDD_TDS_READ (RHYTHM_HDR_WORDS * 4) s1 = (ok1, s2)"
    by fastforce
  define s3 where "s3 = snd (bram_read (bram_seek 0 s2))"
  define s4 where "s4 = snd (bram_read s3)"
  define payload where "payload = fst (bram_read s3)"
  define s5 where "s5 = opna_mgmt_write OMGMT_RHYADDR 0 (for_to 6 bin_pair s4)"
  define len where "len = bin_payload (total - payload)"
  obtain ok2 s6 where ch: "bin_chunks apf payload len [0..<(unat len + 511) div 512] s5 = (ok2, s6)" by fastforce
  define inj where "inj = (\<lambda>ch (s :: ('h, 'z) rhy_st_scheme). inject_pair (of_nat ch) (ucast (rhythm_start s ch)) (ucast (rhythm_end s ch)) s)"
  have eq: "bin_load apf s = (if total < RHYTHM_HDR_WORDS * 4 + 256 then (False, s1)
      else if \<not> ok1 then (False, s2) else if fst (bram_read (bram_seek 0 s2)) \<noteq> RHYTHM_MAGIC then (False, s3)
      else if payload < RHYTHM_HDR_WORDS * 4 \<or> total \<le> payload then (False, s4)
      else if \<not> ok2 then (False, s6) else (True, for_to 6 inj s6))"
    unfolding bin_load_def Let_def case_prod_beta s1_def [symmetric] total_def [symmetric] tr prod.sel
      s3_def [symmetric] s4_def [symmetric] payload_def [symmetric] s5_def [symmetric] len_def [symmetric] ch
      inj_def [symmetric] by (rule refl)
  have s1: "placed s s1" unfolding s1_def by (rule placed_quiet [OF placed_refl slot_bytes_quiet])
  have "bus_quiet s1 s2" using sound_read_quiet [OF tr] by (simp add: RHYTHM_SLOT_ID_def RHYTHM_HDR_WORDS_def)
  with s1 have s2: "placed s s2" by (rule placed_quiet)
  then have s3: "placed s s3" unfolding s3_def
    by (intro placed_quiet [OF _ bram_port_quiet(1)] placed_quiet [OF _ bram_port_quiet(2)])
  then have s4: "placed s s4" unfolding s4_def by (intro placed_quiet [OF _ bram_port_quiet(1)])
  have s5: "placed s s5" unfolding s5_def
    by (rule placed_quiet [OF bin_pairs_placed [OF s4] opna_reg_quiet]) (simp add: OMGMT_RHYADDR_def)
  have "unat len \<le> 16384"
    by (simp add: len_def bin_payload_def RHY_STORE_BYTES_def word_less_nat_alt)
  moreover have "rhy_addr (opna s5) = 0" by (simp add: s5_def rhyaddr_ok(2))
  ultimately have "snd_ok drums s5 s6 \<and> bus.more s6 = bus.more s5" using bin_chunks_ok [OF ch] by simp
  then have s6: "placed s s6" using placed_more [OF s5] by blast
  have "placed s (for_to 6 inj s6)"
    by (rule for_to_inv [where I = "\<lambda>_. placed s"]) (use s6 in \<open>auto simp: inj_def intro: placed_quiet inject_pair_quiet\<close>)
  then show ?thesis using run s1 s2 s3 s4 s6 unfolding eq by (auto split: if_splits)
qed

lemma pick_mode_placed:
  fixes s t :: "('h, 'z) rhy_st_scheme"
  assumes "placed s t"
  shows "placed s (pick_mode t)"
proof -
  have upd: "placed s (u\<lparr>rhy_mode := m\<rparr>)" if "placed s u" for u :: "('h, 'z) rhy_st_scheme" and m
    using that rhy_ok_step [of s u "u\<lparr>rhy_mode := m\<rparr>"] by (simp add: placed_def)
  have sb: "placed s (snd (slot_bytes i u))" if "placed s u" for u :: "('h, 'z) rhy_st_scheme" and i
    using that by (rule placed_quiet) (rule slot_bytes_quiet)
  define u where "u = for_to 6 (\<lambda>v s. let (n, s) = slot_bytes (RHY_WAV_SLOT_BASE + of_nat v) s
      in if n \<noteq> 0 then s\<lparr>rhy_mode := 2\<rparr> else s) t"
  have u: "placed s u" unfolding u_def
    by (rule for_to_inv [where I = "\<lambda>_. placed s"])
      (use assms in \<open>auto simp: Let_def case_prod_beta intro: upd sb\<close>)
  have "pick_mode t = (if rhy_mode u = 0 then (snd (slot_bytes RHYTHM_SLOT_ID u))\<lparr>rhy_mode :=
      if fst (slot_bytes RHYTHM_SLOT_ID u) \<noteq> 0 then 1 else 0\<rparr> else u)"
    unfolding pick_mode_def u_def [symmetric] Let_def [of u] by (simp add: Let_def case_prod_beta)
  then show ?thesis using u upd [OF sb [OF u]] by simp
qed

lemma rhythm_load_ok:
  fixes s :: "('h, 'z) rhy_st_scheme"
  assumes inv: "rhy_inv s" and run: "rhythm_load apf s = Some (b, t)"
  shows "rhy_ok s t \<and> rhy_inv t"
proof -
  define s1 where "s1 = snd (opna_mgmt_read OMGMT_CAPS s)"
  define s2 where "s2 = (if rhy_mode s1 = 0 then pick_mode s1 else s1)"
  have s1: "placed s s1" unfolding s1_def by (rule placed_quiet [OF placed_refl opna_read_quiet])
  then have s2: "placed s s2" by (simp add: s2_def pick_mode_placed)
  have eq: "rhythm_load apf s = (if fst (opna_mgmt_read OMGMT_CAPS s) AND 1 = 0 then Some (False, s1)
      else if rhy_mode s2 = 0 then Some (False, s2) else if rhy_mode s2 = 1 then Some (bin_load apf s2)
      else wav_step apf s2)"
    unfolding rhythm_load_def Let_def case_prod_beta s1_def [symmetric] s2_def [symmetric] by (rule refl)
  have ok2: "rhy_ok s s2" "rhy_inv s2" using placed_inv [OF s2 inv] by auto
  have "rhy_ok s2 t \<and> rhy_inv t" if "bin_load apf s2 = (b, t)"
    using placed_inv [OF bin_load_placed [OF that] ok2(2)] .
  then show ?thesis
    using run placed_inv [OF s1 inv] ok2 wav_step_ok [OF ok2(2)] rhy_ok_trans [OF ok2(1)]
    unfolding eq by (auto split: if_splits)
qed

end

end
