(* ===== verification/Sound_Drive.thy ===== *)
theory Sound_Drive
  imports Sound_Correct
begin

text \<open>
  The drive-noise service against the store: its loader writes the upper half only, its poll
  writes none of it, and neither touches the rhythm loader's bookkeeping.
\<close>

section \<open>The frame\<close>

definition wav_vars :: "('h, 'z) rhy_st_scheme \<Rightarrow> u32 \<times> u32 \<times> u32 \<times> bool \<times> u16" where
  "wav_vars s = (wav_cursor s, wav_written s, wav_voice s, wav_open s, wav_slot s)"

definition drv_ok :: "('h, 'z) drv_st_scheme \<Rightarrow> ('h, 'z) drv_st_scheme \<Rightarrow> bool" where
  "drv_ok s t \<longleftrightarrow> snd_ok kit s t \<and> wav_vars t = wav_vars s"

lemma drv_ok_refl [simp]: "drv_ok s s"
  by (simp add: drv_ok_def)

lemma drv_ok_trans: "drv_ok s t \<Longrightarrow> drv_ok t u \<Longrightarrow> drv_ok s u"
  by (auto simp: drv_ok_def intro: snd_ok_trans)

lemma drv_ok_step:
  assumes "drv_ok s t" "rhy_mem (opna u) = rhy_mem (opna t)" "scsi u = scsi t" "fdd u = fdd t"
    "dtbl u = dtbl t" "outs u = outs t" "tds_log u = tds_log t" "bram u = bram t"
    "wav_vars u = wav_vars t"
  shows "drv_ok s u"
  using assms(1,9) snd_ok_trans [OF _ snd_okI [OF assms(2-8)], of kit s] by (simp add: drv_ok_def)

lemma drv_vars_cong:
  fixes s t :: "('h, 'z) drv_st_scheme"
  assumes "bus.more t = bus.more s"
  shows "dl_cursor t = dl_cursor s" "dl_hdr_done t = dl_hdr_done s" "dl_open t = dl_open s" "dl_seg t = dl_seg s"
    "drv_loaded t = drv_loaded s" "ch_seg t = ch_seg s" "ch_age t = ch_age s" "seek_hold t = seek_hold s"
    "wav_vars t = wav_vars s" "set_value t = set_value s" "drv_start t = drv_start s" "drv_end t = drv_end s"
  using assms by (cases s; cases t; simp add: wav_vars_def)+

lemma quiet_drv_ok:
  fixes s t :: "('h, 'z) drv_st_scheme"
  assumes "bus_quiet s t"
  shows "drv_ok s t"
  using assms drv_vars_cong(9) [of t s] by (simp add: drv_ok_def bus_quiet_def)

section \<open>The loader\<close>

definition drv_inv :: "('h, 'z) drv_st_scheme \<Rightarrow> bool" where
  "drv_inv s \<longleftrightarrow> (dl_hdr_done s \<longrightarrow> 16384 \<le> unat (dl_cursor s) \<and> unat (dl_cursor s) \<le> 32768)"

definition drv_fits :: "('h, 'z) drv_st_scheme \<Rightarrow> ('h, 'z) drv_st_scheme \<Rightarrow> bool" where
  "drv_fits s t \<longleftrightarrow> drv_ok s t \<and> rhy_addr (opna t) = ucast (dl_cursor t)
     \<and> 16384 \<le> unat (dl_cursor t) \<and> unat (dl_cursor t) \<le> 32768"

lemma drv_fits_step:
  assumes "drv_fits s t" "opna u = opna t" "scsi u = scsi t" "fdd u = fdd t"
    "dtbl u = dtbl t" "outs u = outs t" "tds_log u = tds_log t" "bram u = bram t"
    "wav_vars u = wav_vars t" "dl_cursor u = dl_cursor t"
  shows "drv_fits s u"
  using assms drv_ok_step [of s t u] by (simp add: drv_fits_def)

lemma drv_emit_fits: "drv_fits s t \<Longrightarrow> drv_fits s (drv_emit out t)"
proof (induction out arbitrary: t)
  case (Cons b out)
  show ?case
  proof (cases "dl_cursor t < DRV_STORE_END")
    case True
    define u where "u = opna_mgmt_write OMGMT_RHYDATA (ucast b) t"
    have f: "drv_ok s t" "rhy_addr (opna t) = ucast (dl_cursor t)" "16384 \<le> unat (dl_cursor t)"
      using Cons.prems by (auto simp: drv_fits_def)
    have less: "unat (dl_cursor t) < 32768" using True by (simp add: DRV_STORE_END_def word_less_nat_alt)
    then have "kit (rhy_addr (opna t))" using f unat_store_addr by simp
    from store_byte_ok [of kit t, OF this, of "ucast b"]
    have u: "snd_ok kit t u" "rhy_addr (opna u) = ucast (dl_cursor t + 1)"
      unfolding u_def f(2) ucast_store_Suc by blast+
    have more: "bus.more u = bus.more t" by (simp add: u_def opna_mgmt_write_eq)
    have same: "wav_vars u = wav_vars t" "dl_cursor u = dl_cursor t"
      using drv_vars_cong(9,1) [OF more] .
    have "drv_ok s u" using drv_ok_trans [OF f(1)] u(1) same by (simp add: drv_ok_def)
    then have "drv_ok s (u\<lparr>dl_cursor := dl_cursor t + 1\<rparr>)"
      by (rule drv_ok_step) (simp_all add: wav_vars_def)
    moreover have "unat (dl_cursor t + 1) = unat (dl_cursor t) + 1" using less by (simp add: unat_word_ariths)
    ultimately have "drv_fits s (u\<lparr>dl_cursor := dl_cursor t + 1\<rparr>)"
      using u(2) less f(3) by (simp add: drv_fits_def)
    then have "drv_fits s (drv_emit out (u\<lparr>dl_cursor := dl_cursor t + 1\<rparr>))" by (rule Cons.IH)
    then show ?thesis using True by (simp add: drv_emit_def u_def)
  next
    case False
    then show ?thesis using Cons by (simp add: drv_emit_def)
  qed
qed (simp add: drv_emit_def)

lemma drv_byte_fits:
  assumes "drv_byte n wi w b t = Some u" "drv_fits s t"
  shows "drv_fits s u"
proof -
  have "drv_fits s (t\<lparr>dl_enc := e\<rparr>)" for e
    by (rule drv_fits_step [OF assms(2)]) (simp_all add: wav_vars_def)
  then show ?thesis using assms drv_emit_fits by (auto simp: drv_byte_def Let_def split: if_splits)
qed

lemma drv_word_fits:
  assumes "drv_word n wi t = Some u" "drv_fits s t"
  shows "drv_fits s u"
proof -
  have "drv_fits s (snd (bram_read t))"
    by (rule drv_fits_step [OF assms(2)]) (simp_all add: bram_read_def wav_vars_def)
  moreover obtain w where "for_opt 4 (drv_byte n wi w) (snd (bram_read t)) = Some u"
    using assms(1) by (auto simp: drv_word_def Let_def case_prod_beta)
  ultimately show ?thesis using for_opt_inv [where I = "drv_fits s"] drv_byte_fits by metis
qed

lemma drv_drain_fits:
  assumes "enc_drain drv_emit (e, t) = Some (e', u)" "drv_fits s t"
  shows "drv_fits s u"
proof -
  have "drv_fits s (snd (e', u))"
    by (rule loop_partial [OF assms(1) [unfolded enc_drain_def], where I = "\<lambda>es. drv_fits s (snd es)"])
      (use assms(2) in \<open>auto simp: drain_step_def Let_def drv_emit_fits split: if_splits\<close>)
  then show ?thesis by simp
qed

text \<open>Rounding the cursor up to a block stays inside the store.\<close>

lemma round_up_256:
  assumes "16384 \<le> unat (c :: u32)" "unat c \<le> 32768"
  shows "16384 \<le> unat ((c + 255) AND NOT 255)" "unat ((c + 255) AND NOT 255) \<le> 32768"
proof -
  have m: "(255 :: u32) = mask 8" by (simp add: mask_eq_exp_minus_1)
  have "(c + 255) AND NOT 255 = push_bit 8 (drop_bit 8 (c + 255))"
    unfolding m by (rule bit_word_eqI) (auto simp: bit_simps)
  moreover have u: "unat (c + 255) = unat c + 255" using assms(2) by (simp add: unat_word_ariths)
  moreover have "unat (drop_bit 8 (c + 255)) = (unat c + 255) div 256"
    by (simp only: unat_drop_bit_eq u) (simp add: drop_bit_eq_div)
  ultimately have "unat ((c + 255) AND NOT 255) = (unat c + 255) div 256 * 256"
    using assms(2) by (simp add: push_bit_eq_mult unat_word_ariths)
  moreover have "64 \<le> (unat c + 255) div 256" "(unat c + 255) div 256 \<le> 128"
    using div_le_mono [of 16384 "unat c + 255" 256] div_le_mono [of "unat c + 255" 33023 256] assms by simp_all
  ultimately show "16384 \<le> unat ((c + 255) AND NOT 255)" "unat ((c + 255) AND NOT 255) \<le> 32768"
    by simp_all
qed

lemma hdr_segments_ok: "drv_ok s (snd (hdr_segments words n is s)) \<and> dl_hdr_done (snd (hdr_segments words n is s)) = dl_hdr_done s"
proof (induction "is" arbitrary: s)
  case (Cons i "is")
  define u where "u = s\<lparr>seg_off := (seg_off s)(i := ucast (words ! (2 + i) AND 0xFFFF)),
    seg_len := (seg_len s)(i := ucast (drop_bit 16 (words ! (2 + i))))\<rparr>"
  have "drv_ok s u" unfolding u_def by (rule drv_ok_step [OF drv_ok_refl]) (simp_all add: wav_vars_def)
  moreover have "dl_hdr_done u = dl_hdr_done s" by (simp add: u_def)
  moreover have "snd (hdr_segments words n (i # is) s) = s
      \<or> snd (hdr_segments words n (i # is) s) = snd (hdr_segments words n is u)"
    by (simp add: Let_def u_def)
  ultimately show ?case using Cons.IH [of u] drv_ok_trans [of s u] drv_ok_refl [of s] by metis
qed simp

context dataslot
begin

lemma drv_header_ok:
  fixes s :: "('h, 'z) drv_st_scheme"
  assumes "\<not> dl_hdr_done s" "drv_header apf s = (b, t)"
  shows "drv_ok s t \<and> drv_inv t"
proof -
  define s1 where "s1 = snd (slot_bytes FDDSND_SLOT_ID s)"
  define n where "n = fst (slot_bytes FDDSND_SLOT_ID s)"
  obtain ok s2 where tr: "tds_transfer apf FDDSND_SLOT_ID 0 FDD_TDS_READ FDDSND_HDR_BYTES s1 = (ok, s2)" by fastforce
  define s3 where "s3 = snd (collect 7 bram_read (bram_seek 0 s2))"
  define s4 where "s4 = snd (fddsnd_hdr_parse (fst (collect 7 bram_read (bram_seek 0 s2))) n s3)"
  have q1: "bus_quiet s s1" unfolding s1_def by (rule slot_bytes_quiet)
  have "bus_quiet s1 s2" using sound_read_quiet [OF tr] by (simp add: FDDSND_SLOT_ID_def FDDSND_HDR_BYTES_def)
  then have q2: "bus_quiet s s2" using bus_quiet_trans [OF q1] by blast
  have col: "bus_quiet u (snd (collect m bram_read u))" for m and u :: "('h, 'z) drv_st_scheme"
  proof (induction m arbitrary: u)
    case (Suc m)
    have "bus_quiet (snd (bram_read u)) (snd (collect m bram_read (snd (bram_read u))))" by (rule Suc.IH)
    then show ?case using bus_quiet_trans [OF bram_port_quiet(1)] by (simp add: Let_def case_prod_beta)
  qed simp
  have q3: "bus_quiet s s3" unfolding s3_def
    by (rule bus_quiet_trans [OF bus_quiet_trans [OF q2 bram_port_quiet(2)] col])
  have more: "dl_hdr_done s1 = dl_hdr_done s" "dl_hdr_done s2 = dl_hdr_done s" "dl_hdr_done s3 = dl_hdr_done s"
    using q1 q2 q3 drv_vars_cong(2) by (auto simp: bus_quiet_def)
  have s4: "drv_ok s3 s4 \<and> dl_hdr_done s4 = dl_hdr_done s3"
    by (simp add: s4_def fddsnd_hdr_parse_def hdr_segments_ok)
  have s4': "drv_ok s s4" using drv_ok_trans [OF quiet_drv_ok [OF q3]] s4 by blast
  have fin: "drv_ok s (s4\<lparr>dl_cursor := DRV_STORE_BASE, dl_seg := 0, dl_hdr_done := True\<rparr>)"
    by (rule drv_ok_step [OF s4']) (simp_all add: wav_vars_def)
  have "t \<in> {s1, s2, s4, s4\<lparr>dl_cursor := DRV_STORE_BASE, dl_seg := 0, dl_hdr_done := True\<rparr>}"
    using assms(2) unfolding drv_header_def Let_def case_prod_beta s1_def [symmetric] n_def [symmetric] tr prod.sel
      s3_def [symmetric] s4_def [symmetric]
    by (auto split: if_splits)
  then show ?thesis
    using quiet_drv_ok [OF q1] quiet_drv_ok [OF q2] s4' fin more s4 assms(1)
    by (auto simp: drv_inv_def DRV_STORE_BASE_def)
qed

lemma drv_pull_ok:
  fixes s :: "('h, 'z) drv_st_scheme"
  assumes inv: "16384 \<le> unat (dl_cursor s)" "unat (dl_cursor s) \<le> 32768" and run: "drv_pull apf s = Some t"
  shows "drv_fits s t"
proof -
  define s1 where "s1 = opna_mgmt_write OMGMT_RHYADDR (dl_cursor s) s"
  define n where "n = (if SECTOR_BYTES < dl_src_left s1 then SECTOR_BYTES else dl_src_left s1)"
  obtain ok s2 where tr: "tds_transfer apf FDDSND_SLOT_ID (dl_src_off s1) FDD_TDS_READ n s1 = (ok, s2)" by fastforce
  have q1: "bus_quiet s s1" unfolding s1_def by (rule opna_reg_quiet) (simp add: OMGMT_RHYADDR_def)
  then have c1: "dl_cursor s1 = dl_cursor s" "drv_ok s s1"
    using drv_vars_cong(1) [of s1 s] quiet_drv_ok by (auto simp: bus_quiet_def)
  have f1: "drv_fits s s1" using c1 inv by (simp add: drv_fits_def s1_def rhyaddr_ok(2))
  have "unat n \<le> 512" by (simp add: n_def SECTOR_BYTES_def word_less_nat_alt)
  then have q2: "bus_quiet s1 s2" and o2: "opna s2 = opna s1"
    using sound_read_quiet [OF tr] sound_read_ok(2) [OF tr] by (simp_all add: FDDSND_SLOT_ID_def)
  have "dl_cursor s2 = dl_cursor s1" using q2 drv_vars_cong(1) [of s2 s1] by (simp add: bus_quiet_def)
  then have f2: "drv_fits s s2"
    using f1 o2 drv_ok_trans [OF c1(2) quiet_drv_ok [OF q2]] by (simp add: drv_fits_def)
  have upd: "drv_fits s (s2\<lparr>dl_failed := True\<rparr>)" "drv_fits s (bram_seek 0 (s2\<lparr>dl_src_off := a, dl_src_left := b\<rparr>))" for a b
    by (rule drv_fits_step [OF f2]; simp add: bram_seek_def wav_vars_def)+
  have "drv_pull apf s = (if n = 0 then Some s1 else if \<not> ok then Some (s2\<lparr>dl_failed := True\<rparr>)
      else for_opt (unat ((n + 3) div 4)) (drv_word n)
        (bram_seek 0 (s2\<lparr>dl_src_off := dl_src_off s2 + n, dl_src_left := dl_src_left s2 - n\<rparr>)))"
    unfolding drv_pull_def Let_def s1_def [symmetric] n_def [symmetric] tr by simp
  then show ?thesis
    using run f1 upd for_opt_inv [where I = "drv_fits s"] drv_word_fits by (metis option.inject)
qed

lemma drv_finish_ok:
  fixes s :: "('h, 'z) drv_st_scheme"
  assumes "drv_fits s u" "drv_finish u = Some t"
  shows "drv_ok s t \<and> 16384 \<le> unat (dl_cursor t) \<and> unat (dl_cursor t) \<le> 32768"
proof (cases "dl_failed u \<or> dl_src_left u = 0")
  case False
  then have "t = u" using assms(2) by (simp add: drv_finish_def)
  then show ?thesis using assms(1) by (simp add: drv_fits_def)
next
  case True
  then obtain e v where d: "enc_drain drv_emit (dl_enc u, u) = Some (e, v)" and t: "t = drv_close (v\<lparr>dl_enc := e\<rparr>)"
    using assms(2) by (auto simp: drv_finish_def)
  have v: "drv_fits s v" using drv_drain_fits [OF d assms(1)] .
  define w where "w = v\<lparr>dl_enc := e\<rparr>"
  have ok: "drv_ok s v" "16384 \<le> unat (dl_cursor v)" "unat (dl_cursor v) \<le> 32768"
    using v by (simp_all add: drv_fits_def)
  define r where "r = (dl_cursor w + 255) AND NOT 255"
  obtain a b c where close: "t = w\<lparr>drv_start := a, drv_end := b, dl_cursor := r, dl_seg := c, dl_open := False\<rparr>"
    unfolding t w_def [symmetric] r_def drv_close_def Let_def case_prod_beta by blast
  have "drv_ok s w" unfolding w_def by (rule drv_ok_step [OF ok(1)]) (simp_all add: wav_vars_def)
  then have "drv_ok s t" unfolding close by (rule drv_ok_step) (simp_all add: wav_vars_def)
  moreover have "dl_cursor t = r" by (simp add: close)
  moreover have "dl_cursor w = dl_cursor v" by (simp add: w_def)
  ultimately show ?thesis using round_up_256 [OF ok(2,3)] r_def by metis
qed

lemma drive_sound_load_ok:
  fixes s :: "('h, 'z) drv_st_scheme"
  assumes inv: "drv_inv s" and run: "drive_sound_load apf s = Some (b, t)"
  shows "drv_ok s t \<and> drv_inv t"
proof -
  define s1 where "s1 = snd (drive_sound_present s)"
  have q1: "bus_quiet s s1"
    unfolding s1_def drive_sound_present_def Let_def case_prod_beta using opna_read_quiet by simp
  then have ok1: "drv_ok s s1" by (rule quiet_drv_ok)
  have "bus.more s1 = bus.more s" using q1 by (simp add: bus_quiet_def)
  then have inv1: "drv_inv s1" using inv drv_vars_cong(1,2) [of s1 s] by (simp add: drv_inv_def)
  define s2 where "s2 = (if dl_open s1 then s1 else drv_open s1)"
  have s2: "drv_ok s1 s2" "dl_cursor s2 = dl_cursor s1" "dl_hdr_done s2 = dl_hdr_done s1"
    by (auto simp: s2_def drv_open_def wav_vars_def intro: drv_ok_step [OF drv_ok_refl])
  have eq: "drive_sound_load apf s = (if \<not> fst (drive_sound_present s) then Some (True, s1)
      else if \<not> dl_hdr_done s1 then Some (drv_header apf s1)
      else if \<not> dl_open s1 \<and> DRV_SEGS \<le> dl_seg s1 then Some (True, s1\<lparr>drv_loaded := True\<rparr>)
      else map_option (Pair False) (Option.bind (drv_pull apf s2) drv_finish))"
    unfolding drive_sound_load_def Let_def case_prod_beta s1_def [symmetric] s2_def [symmetric] by (rule refl)
  have loaded: "drv_ok s1 (s1\<lparr>drv_loaded := True\<rparr>) \<and> drv_inv (s1\<lparr>drv_loaded := True\<rparr>)"
    using inv1 drv_ok_step [OF drv_ok_refl, of "s1\<lparr>drv_loaded := True\<rparr>" s1] by (simp add: drv_inv_def wav_vars_def)
  have stream: "drv_ok s1 t \<and> drv_inv t"
    if hd: "dl_hdr_done s1" and bd: "Option.bind (drv_pull apf s2) drv_finish = Some t"
  proof -
    obtain u where u: "drv_pull apf s2 = Some u" "drv_finish u = Some t"
      using bd by (auto simp: bind_eq_Some_conv)
    have "drv_fits s2 u" using drv_pull_ok [OF _ _ u(1)] inv1 hd s2 by (simp add: drv_inv_def)
    then have "drv_ok s2 t \<and> 16384 \<le> unat (dl_cursor t) \<and> unat (dl_cursor t) \<le> 32768"
      using u(2) by (rule drv_finish_ok)
    then show ?thesis using drv_ok_trans [OF s2(1)] by (simp add: drv_inv_def)
  qed
  have "drv_ok s1 t \<and> drv_inv t"
  proof (cases "fst (drive_sound_present s) \<and> dl_hdr_done s1 \<and> \<not> (\<not> dl_open s1 \<and> DRV_SEGS \<le> dl_seg s1)")
    case True
    then have "map_option (Pair False) (Option.bind (drv_pull apf s2) drv_finish) = Some (b, t)"
      using run unfolding eq by (auto split: if_splits)
    then show ?thesis using stream True by auto
  next
    case False
    then show ?thesis using run inv1 loaded drv_header_ok unfolding eq by (simp split: if_splits)
  qed
  then show ?thesis using drv_ok_trans [OF ok1] by blast
qed

end

end
