(* ===== verification/Sound_Props.thy ===== *)
theory Sound_Props
  imports Sound_Drive Fdd_Props
begin

text \<open>The properties of the two sample services, and a machine to apply them to.\<close>

section \<open>A machine with nothing bound\<close>

definition sound_demo :: "card drv_st" where
  "sound_demo = rhy_st.extend (fdd_st.extend (fdd_st.truncate (fdd_demo [] []))
     \<lparr>wav_voice = 0, wav_cursor = 0, wav_done = (\<lambda>_. False), rhythm_start = (\<lambda>_. 0), rhythm_end = (\<lambda>_. 0),
      wav_enc = adpcm_enc_init 8000, wav_slot = 0, wav_pos = 0, wav_left = 0, wav_written = 0, wav_ch = 0,
      wav_bits = 0, wav_open = False, wav_failed = False, rhy_mode = 0\<rparr>)
     \<lparr>drv_start = (\<lambda>_. 0), drv_end = (\<lambda>_. 0), drv_loaded = True, dl_hdr_done = False, dl_failed = False,
      dl_open = False, dl_seg = 0, dl_cursor = 0, dl_seg_base = 0, dl_enc = adpcm_enc_init 8000,
      dl_src_off = 0, dl_src_left = 0, seg_off = (\<lambda>_. 0), seg_len = (\<lambda>_. 0), ch_seg = (\<lambda>_. -1)(3 := 4),
      ch_age = (\<lambda>_. 0), last_step_cnt = 0, last_head = False, seek_hold = 0\<rparr>"

section \<open>The store\<close>

text \<open>C38: The two sample loaders share one rhythm store and one bridge and never disturb each other or
  anything else.  From any state in which both cursors are where the code keeps them, a
  \<open>rhythm_load\<close> that returns changes no store byte from 16384 on, a \<open>drive_sound_load\<close> after it
  changes none below, both leave the floppy controller, the SCSI window, the datatable and the
  bridge words from 128 on (the settings window among them) as they were, send the host nothing
  but reads of at most 512 bytes from slots 13 to 20, and leave both cursors in place for the next
  pass, whatever the files, the host and the chip answer.\<close>

theorem sound_store_halves:
  fixes s :: "('h, 'z) drv_st_scheme"
  assumes "dataslot apf slot_file" "rhy_inv s" "drv_inv s"
    "rhythm_load apf s = Some (a, t)" "drive_sound_load apf t = Some (b, u)"
  shows "(\<forall>x. kit x \<longrightarrow> rhy_mem (opna t) x = rhy_mem (opna s) x)
    \<and> (\<forall>x. drums x \<longrightarrow> rhy_mem (opna u) x = rhy_mem (opna t) x)
    \<and> scsi u = scsi s \<and> fdd u = fdd s \<and> dtbl u = dtbl s \<and> log_ext sound_rq s u
    \<and> bram_keeps (\<lambda>w. 128 \<le> unat w) s u \<and> rhy_inv u \<and> drv_inv u"
proof -
  have t: "rhy_ok s t" "rhy_inv t" using dataslot.rhythm_load_ok [OF assms(1,2,4)] by auto
  have "rhy_st.more t = rhy_st.more s" using t(1) by (simp add: rhy_ok_def)
  then have "dl_cursor t = dl_cursor s" "dl_hdr_done t = dl_hdr_done s" by (cases s; cases t; simp)+
  then have "drv_inv t" using assms(3) by (simp add: drv_inv_def)
  from dataslot.drive_sound_load_ok [OF assms(1) this assms(5)]
  have u: "drv_ok t u" "drv_inv u" by auto
  have "rhy_inv u" using t(2) u(1) by (simp add: drv_ok_def wav_vars_def rhy_inv_def)
  then show ?thesis
    using t u log_ext_trans [of sound_rq s t u] bram_keeps_trans [of "\<lambda>w. 128 \<le> unat w" s t u]
    by (simp add: rhy_ok_def drv_ok_def snd_ok_def)
qed

lemma sound_demo_fields [simp]:
  "drv_loaded sound_demo" "ch_seg sound_demo = (\<lambda>_. -1)(3 := 4)"
  by (simp_all add: sound_demo_def fdd_st.defs rhy_st.defs)

text \<open>A full-OPNA machine (every OPNA register reads 1) whose drum voices are all resolved and whose
  kit has been encoded up to its last segment.\<close>

definition loaded_demo :: "card drv_st" where
  "loaded_demo = sound_demo\<lparr>opna := opna_reset\<lparr>opna_in := (\<lambda>_ _. 1)\<rparr>, rhy_mode := 2, wav_voice := 6,
     wav_cursor := 0x800, wav_open := False, dl_hdr_done := True, dl_open := False, dl_seg := 5,
     dl_cursor := 0x5000\<rparr>"

lemma loaded_demo_runs:
  "\<exists>t. rhythm_load card_apf loaded_demo = Some (True, t) \<and> (\<exists>u. drive_sound_load card_apf t = Some (True, u) \<and> drv_loaded u)"
proof -
  define t where "t = snd (opna_mgmt_read OMGMT_CAPS loaded_demo)"
  have skip: "skip_done s = s" if "wav_voice s = 6" for s :: "card drv_st"
    using that by (simp add: skip_done_def)
  have t: "wav_voice t = 6" "rhy_mode t = 2" "dl_hdr_done t" "\<not> dl_open t" "dl_seg t = 5"
    "fst (opna_mgmt_read OMGMT_CAPS loaded_demo) AND 1 \<noteq> 0" "fst (opna_mgmt_read OMGMT_CAPS t) AND 1 \<noteq> 0"
    by (simp_all add: t_def loaded_demo_def opna_mgmt_read_eq opna_read_def Let_def)
  have r: "rhythm_load card_apf loaded_demo = Some (True, t)"
    using t unfolding rhythm_load_def Let_def case_prod_beta t_def [symmetric]
    by (simp add: wav_step_def skip)
  define u where "u = snd (opna_mgmt_read OMGMT_CAPS t)"
  have "dl_hdr_done u" "\<not> dl_open u" "dl_seg u = 5"
    using t by (simp_all add: u_def opna_mgmt_read_eq Let_def case_prod_beta)
  then have "drive_sound_load card_apf t = Some (True, u\<lparr>drv_loaded := True\<rparr>)"
    using t(7) unfolding drive_sound_load_def drive_sound_present_def Let_def case_prod_beta u_def [symmetric]
    by (simp add: DRV_SEGS_def)
  then show ?thesis using r by auto
qed

theorem sound_store_halves_witness:
  "\<exists>t u. rhythm_load card_apf loaded_demo = Some (True, t) \<and> drive_sound_load card_apf t = Some (True, u)
     \<and> scsi u = scsi loaded_demo \<and> dtbl u = dtbl loaded_demo \<and> rhy_inv u \<and> drv_inv u"
proof -
  obtain t u where r: "rhythm_load card_apf loaded_demo = Some (True, t)" "drive_sound_load card_apf t = Some (True, u)"
    using loaded_demo_runs by blast
  have "rhy_inv loaded_demo" "drv_inv loaded_demo"
    by (simp_all add: rhy_inv_def drv_inv_def loaded_demo_def)
  from sound_store_halves [OF card.dataslot_axioms this r] show ?thesis using r by blast
qed

section \<open>Borrowed channels\<close>

text \<open>The channel bookkeeping of one sweep step.\<close>

lemma chan_restore_vars:
  fixes s :: "('h, 'z) drv_st_scheme"
  shows "ch_seg (chan_restore ch s) = (ch_seg s)(ch := -1)" "ch_age (chan_restore ch s) = (ch_age s)(ch := 0)"
    "drv_loaded (chan_restore ch s) = drv_loaded s" "set_value (chan_restore ch s) = set_value s"
    "seek_hold (chan_restore ch s) = seek_hold s"
proof -
  define u where "u = inj_p1 (INJ_LR_BASE + of_nat ch)
    (fst (opna_mgmt_read (OMGMT_LR0 + of_nat ch) (inj_pair ch (ucast (rhythm_start s ch)) (ucast (rhythm_end s ch)) s)) AND 0xFF)
    (snd (opna_mgmt_read (OMGMT_LR0 + of_nat ch) (inj_pair ch (ucast (rhythm_start s ch)) (ucast (rhythm_end s ch)) s)))"
  have inj: "bus.more (inj_p1 r d v) = bus.more v" for r d and v :: "('h, 'z) drv_st_scheme"
    using inject_quiet [of OMGMT_INJ_P1 v] by (simp add: inj_p1_def bus_quiet_def)
  have rd: "bus.more (snd (opna_mgmt_read r v)) = bus.more v" for r and v :: "('h, 'z) drv_st_scheme"
    using opna_read_quiet [of v r] by (simp add: bus_quiet_def)
  have more: "bus.more u = bus.more s" unfolding u_def by (simp add: inj rd inj_pair_def Let_def)
  have eq: "chan_restore ch s = u\<lparr>ch_seg := (ch_seg u)(ch := -1), ch_age := (ch_age u)(ch := 0)\<rparr>"
    by (simp add: chan_restore_def u_def Let_def case_prod_beta)
  show "ch_seg (chan_restore ch s) = (ch_seg s)(ch := -1)" "ch_age (chan_restore ch s) = (ch_age s)(ch := 0)"
    "drv_loaded (chan_restore ch s) = drv_loaded s" "set_value (chan_restore ch s) = set_value s"
    "seek_hold (chan_restore ch s) = seek_hold s"
    unfolding eq using drv_vars_cong(5,6,7,8,10) [OF more] by simp_all
qed

text \<open>With the option off a poll plays nothing: each borrowed channel is one poll older, or back.\<close>

definition lent :: "nat \<Rightarrow> ('h, 'z) drv_st_scheme \<Rightarrow> nat \<Rightarrow> bool" where
  "lent k s ch \<longleftrightarrow> 0 \<le> ch_seg s ch \<and> (0 < k \<longrightarrow> k \<le> unat (ch_age s ch) \<and> unat (ch_age s ch) < 4096)"

definition off_inv :: "nat \<Rightarrow> ('h, 'z) drv_st_scheme \<Rightarrow> bool" where
  "off_inv k s \<longleftrightarrow> drv_loaded s \<and> set_value s SET_DRV_SOUND = 0
     \<and> (\<forall>ch<6. ch_seg s ch < 0 \<or> lent k s ch)"

lemma sweep_off:
  fixes s :: "('h, 'z) drv_st_scheme"
  assumes "ch_seg s ch < 0 \<or> lent k s ch"
  shows "ch_seg (drv_sweep False x m f ch s) ch < 0 \<or> lent (Suc k) (drv_sweep False x m f ch s) ch"
    "c \<noteq> ch \<Longrightarrow> ch_seg (drv_sweep False x m f ch s) c = ch_seg s c"
    "c \<noteq> ch \<Longrightarrow> ch_age (drv_sweep False x m f ch s) c = ch_age s c"
    "drv_loaded (drv_sweep False x m f ch s) = drv_loaded s"
    "set_value (drv_sweep False x m f ch s) = set_value s"
proof -
  define u where "u = (if ch_age s ch < CH_AGE_MAX then s\<lparr>ch_age := (ch_age s)(ch := ch_age s ch + 1)\<rparr> else s)"
  have eq: "drv_sweep False x m f ch s = (if ch_seg s ch < 0 then s
      else if f AND push_bit ch 1 = 0 \<and> ch_age u ch < CH_AGE_MAX then u else chan_restore ch u)"
    by (simp add: drv_sweep_def drv_keep_def u_def Let_def)
  have uv: "ch_seg u = ch_seg s" "drv_loaded u = drv_loaded s" "set_value u = set_value s"
    "c \<noteq> ch \<Longrightarrow> ch_age u c = ch_age s c" for c
    by (simp_all add: u_def)
  have age: "Suc k \<le> unat (ch_age u ch) \<and> unat (ch_age u ch) < 4096"
    if "0 \<le> ch_seg s ch" "ch_age u ch < CH_AGE_MAX"
  proof -
    have "ch_age s ch < CH_AGE_MAX" using that(2) by (simp add: u_def split: if_splits)
    then have "unat (ch_age s ch) < 4096" by (simp add: CH_AGE_MAX_def word_less_nat_alt)
    moreover have "unat (ch_age u ch) = unat (ch_age s ch) + 1"
      using \<open>ch_age s ch < CH_AGE_MAX\<close> calculation by (simp add: u_def unat_word_ariths)
    moreover have "k \<le> unat (ch_age s ch)" using assms that(1) by (cases "k = 0") (auto simp: lent_def)
    moreover have "unat (ch_age u ch) < 4096" using that(2) by (simp add: CH_AGE_MAX_def word_less_nat_alt)
    ultimately show ?thesis by simp
  qed
  show "ch_seg (drv_sweep False x m f ch s) ch < 0 \<or> lent (Suc k) (drv_sweep False x m f ch s) ch"
    using age by (auto simp: eq lent_def uv chan_restore_vars)
  show "c \<noteq> ch \<Longrightarrow> ch_seg (drv_sweep False x m f ch s) c = ch_seg s c"
    "c \<noteq> ch \<Longrightarrow> ch_age (drv_sweep False x m f ch s) c = ch_age s c"
    "drv_loaded (drv_sweep False x m f ch s) = drv_loaded s"
    "set_value (drv_sweep False x m f ch s) = set_value s"
    by (auto simp: eq uv chan_restore_vars)
qed

lemma poll_off:
  fixes s :: "('h, 'z) drv_st_scheme"
  assumes "off_inv k s"
  shows "off_inv (Suc k) (drive_sound_poll s)"
proof -
  define v where "v = fst (mgmt_fdd_rd FMGMT_SNDEV s)"
  define s1 where "s1 = snd (mgmt_fdd_rd FMGMT_SNDEV s)"
  define s2 where "s2 = s1\<lparr>last_step_cnt := ucast (drop_bit 8 v AND 0xFF), last_head := bit v 2\<rparr>"
  define s3 where "s3 = (if seek_hold s2 \<noteq> 0 then s2\<lparr>seek_hold := seek_hold s2 - 1\<rparr> else s2)"
  define f where "f = fst (opna_mgmt_read OMGMT_STATUS1 s3)"
  define s4 where "s4 = snd (opna_mgmt_read OMGMT_STATUS1 s3)"
  have "bus.more s1 = bus.more s"
    by (simp add: s1_def mgmt_fdd_rd_def mgmt_rd_def mgmt_strobe_rd_def Let_def case_prod_beta)
  note v1 = drv_vars_cong(5,6,7,10) [OF this]
  have v3: "drv_loaded s3 = drv_loaded s" "ch_seg s3 = ch_seg s" "ch_age s3 = ch_age s" "set_value s3 = set_value s"
    using v1 by (simp_all add: s3_def s2_def)
  have "bus.more s4 = bus.more s3" using opna_read_quiet [of s3 OMGMT_STATUS1] by (simp add: s4_def bus_quiet_def)
  note v4 = drv_vars_cong(5,6,7,10) [OF this]
  have on: "(settings_drive_sound s1 \<noteq> 0) = False" using assms v1(4) by (simp add: settings_drive_sound_def off_inv_def)
  have "drv_loaded s" using assms by (simp add: off_inv_def)
  then have poll: "drive_sound_poll s = for_to 6 (drv_sweep False (bit v 1) (bit v 0) (f AND 0x3F)) s4"
    unfolding drive_sound_poll_def Let_def case_prod_beta s1_def [symmetric] v_def [symmetric] on if_False
      s2_def [symmetric] s3_def [symmetric] s4_def [symmetric] f_def [symmetric]
    by (simp del: for_to_numeral)
  have s4: "off_inv k s4" using assms v3 v4 by (simp add: off_inv_def lent_def)
  have "drv_loaded (drive_sound_poll s) \<and> set_value (drive_sound_poll s) SET_DRV_SOUND = 0
      \<and> (\<forall>c<6. ch_seg (drive_sound_poll s) c < 0 \<or> lent (if c < 6 then Suc k else k) (drive_sound_poll s) c)"
    unfolding poll
  proof (rule for_to_inv [where I = "\<lambda>n t. drv_loaded t \<and> set_value t SET_DRV_SOUND = 0
      \<and> (\<forall>c<6. ch_seg t c < 0 \<or> lent (if c < n then Suc k else k) t c)"])
    fix n and t :: "('h, 'z) drv_st_scheme"
    assume n: "n < 6" and I: "drv_loaded t \<and> set_value t SET_DRV_SOUND = 0
      \<and> (\<forall>c<6. ch_seg t c < 0 \<or> lent (if c < n then Suc k else k) t c)"
    then have pre: "ch_seg t n < 0 \<or> lent k t n" by fastforce
    show "drv_loaded (drv_sweep False (bit v 1) (bit v 0) (f AND 0x3F) n t)
      \<and> set_value (drv_sweep False (bit v 1) (bit v 0) (f AND 0x3F) n t) SET_DRV_SOUND = 0
      \<and> (\<forall>c<6. ch_seg (drv_sweep False (bit v 1) (bit v 0) (f AND 0x3F) n t) c < 0
          \<or> lent (if c < Suc n then Suc k else k) (drv_sweep False (bit v 1) (bit v 0) (f AND 0x3F) n t) c)"
    proof (intro conjI allI impI)
      fix c :: nat assume c: "c < 6"
      show "ch_seg (drv_sweep False (bit v 1) (bit v 0) (f AND 0x3F) n t) c < 0
          \<or> lent (if c < Suc n then Suc k else k) (drv_sweep False (bit v 1) (bit v 0) (f AND 0x3F) n t) c"
      proof (cases "c = n")
        case True
        then show ?thesis using sweep_off(1) [OF pre] by simp
      next
        case False
        then have "c < Suc n \<longleftrightarrow> c < n" by auto
        then show ?thesis using I c sweep_off(2,3) [OF pre False] by (simp add: lent_def)
      qed
    qed (use I sweep_off(4,5) [OF pre] in simp_all)
  qed (use s4 in \<open>simp add: off_inv_def\<close>)
  then show ?thesis by (simp add: off_inv_def)
qed

text \<open>C39: Turning the drive-noise option off strands no channel.  Whatever the segment each channel was
  borrowed for, however old the borrow and whatever the chip's flags and the floppy's event taps
  read, after 4096 polls with the option off no channel is borrowed any more.\<close>

theorem drive_noise_off_returns:
  fixes s :: "('h, 'z) drv_st_scheme"
  assumes "drv_loaded s" "set_value s SET_DRV_SOUND = 0"
  shows "list_all (\<lambda>ch. ch_seg ((drive_sound_poll ^^ 4096) s) ch < 0) [0..<6]"
proof -
  have "off_inv n ((drive_sound_poll ^^ n) s)" for n
  proof (induction n)
    case 0
    then show ?case using assms by (auto simp: off_inv_def lent_def)
  next
    case (Suc n)
    then show ?case by (simp add: poll_off)
  qed
  from this [of 4096] show ?thesis by (auto simp: list_all_iff off_inv_def lent_def)
qed

theorem drive_noise_off_returns_witness:
  "list_all (\<lambda>ch. ch_seg ((drive_sound_poll ^^ 4096) (sound_demo\<lparr>set_value := (\<lambda>_. 0)\<rparr>)) ch < 0) [0..<6]"
  by (rule drive_noise_off_returns) simp_all

end
