(* ===== verification/Main_Loop.thy ===== *)
theory Main_Loop
  imports Fdd_Props Drive_Sound Gdc
begin

text \<open>
  \<open>firmware/main.c\<close>: the bring-up from the settings load on and one pass of the service loop, over
  the services of the other theories.  The size and rebind registers are inputs of a pass: the
  two samples \<open>stable_size\<close> takes of each drive's size, and the rebind toggles.  The passes of the
  OPNA build are modelled; the OSD's timer interrupt is not.
\<close>

definition HDD_MOUNT_TRIES :: u32 where
  "HDD_MOUNT_TRIES = 16"

definition FDD0_REBIND_BIT :: u32 where
  "FDD0_REBIND_BIT = push_bit 0 1"

definition FDD1_REBIND_BIT :: u32 where
  "FDD1_REBIND_BIT = push_bit 1 1"

text \<open>The registers a pass samples.\<close>

record pass_in =
  rebind_in :: u32
  size_a :: "u32 \<times> u32"
  size_b :: "u32 \<times> u32"

text \<open>The locals of \<open>main\<close>.\<close>

record main_vars =
  mounted_a :: bool
  mounted_b :: bool
  mounted_hdd :: bool
  hdd_tries :: u32
  settings_sized :: bool
  rebind_seen :: u32
  rhythm_done :: bool
  drive_done :: bool

definition stable_size :: "u32 \<times> u32 \<Rightarrow> u32" where
  "stable_size ab = (if fst ab = snd ab then fst ab else 0)"

section \<open>The stages of a pass\<close>

definition main_sizes :: "main_vars \<Rightarrow> ('h, 'z) hw_scheme \<Rightarrow> main_vars \<times> ('h, 'z) hw_scheme" where
  "main_sizes v s =
     (if settings_sized v then (v, s)
      else let (ok, s) = slot_declare_size SETTINGS_SLOT_ID SETTINGS_SLOT_BYTES s
           in (v\<lparr>settings_sized := ok\<rparr>, s))"

definition main_sounds ::
  "'h apf \<Rightarrow> main_vars \<Rightarrow> ('h, 'z) drv_st_scheme \<Rightarrow> (main_vars \<times> ('h, 'z) drv_st_scheme) option" where
  "main_sounds apf v s =
     Option.bind (if rhythm_done v then Some (True, s) else rhythm_load apf s) (\<lambda>(r, s).
     Option.bind (if drive_done v then Some (True, s) else drive_sound_load apf s) (\<lambda>(d, s).
       Some (v\<lparr>rhythm_done := r, drive_done := d\<rparr>, s)))"

text \<open>One drive: mount on the first size, and again on each flip of its toggle.\<close>

definition main_bind ::
  "'h apf \<Rightarrow> nat \<Rightarrow> bool \<Rightarrow> bool \<Rightarrow> u32 \<times> u32 \<Rightarrow> ('h, 'z) fdd_st_scheme \<Rightarrow> bool \<times> ('h, 'z) fdd_st_scheme" where
  "main_bind apf drive mounted flipped samples s =
     (if \<not> mounted \<or> flipped
      then let sectors = stable_size samples
           in if sectors \<noteq> 0 then (True, fdd_mount apf drive sectors s) else (mounted, s)
      else (mounted, s))"

definition main_floppies ::
  "'h apf \<Rightarrow> pass_in \<Rightarrow> main_vars \<times> ('h, 'z) fdd_st_scheme \<Rightarrow> main_vars \<times> ('h, 'z) fdd_st_scheme" where
  "main_floppies apf i vs =
     (let (v, s) = vs;
          flips = rebind_in i XOR rebind_seen v;
          (a, s) = main_bind apf 0 (mounted_a v) (flips AND FDD0_REBIND_BIT \<noteq> 0) (size_a i) s;
          (b, s) = main_bind apf 1 (mounted_b v) (flips AND FDD1_REBIND_BIT \<noteq> 0) (size_b i) s
      in (v\<lparr>mounted_a := a, mounted_b := b, rebind_seen := rebind_in i\<rparr>, s))"

definition main_hdd :: "'h apf \<Rightarrow> main_vars \<Rightarrow> ('h, 'z) scsi_st_scheme \<Rightarrow> main_vars \<times> ('h, 'z) scsi_st_scheme" where
  "main_hdd apf v s =
     (if mounted_hdd v then (v, s)
      else
        let (bytes, s) = slot_bytes HDD0_SLOT_ID s
        in if bytes < SECTOR_BYTES then (v, s)
           else
             let (ok, s) = scsi_mount apf bytes s
             in if ok then (v\<lparr>mounted_hdd := True\<rparr>, s)
                else
                  let v = v\<lparr>hdd_tries := hdd_tries v + 1\<rparr>
                  in (v\<lparr>mounted_hdd := HDD_MOUNT_TRIES \<le> hdd_tries v\<rparr>, s))"

section \<open>The loop body and the bring-up\<close>

definition main_pass ::
  "'h apf \<Rightarrow> 'g chan \<Rightarrow> pass_in \<Rightarrow> main_vars \<times> ('h, 'z) drv_st_scheme \<times> ('g, 'y) gdc_st_scheme
     \<Rightarrow> (main_vars \<times> ('h, 'z) drv_st_scheme \<times> ('g, 'y) gdc_st_scheme) option" where
  "main_pass apf ch i vsg =
     (let (v, s, g) = vsg;
          (v, s) = main_sizes v s
      in map_option (\<lambda>(v, s).
           let (v, s) = main_floppies apf i (v, s);
               (v, s) = main_hdd apf v s;
               s = (if mounted_a v \<or> mounted_b v then drive_sound_poll (fdd_poll apf s) else s);
               g = gdc_poll ch g;
               s = scsi_poll apf s
           in (v, settings_service s, g)) (main_sounds apf v s))"

definition main_boot :: "'h apf \<Rightarrow> u32 \<Rightarrow> ('h, 'z) drv_st_scheme \<Rightarrow> (main_vars \<times> ('h, 'z) drv_st_scheme) option" where
  "main_boot apf rebind s =
     (let s = settings_load (key_bind_init s)
      in Option.bind (rhythm_load apf s) (\<lambda>(r, s).
         Option.bind (drive_sound_load apf s) (\<lambda>(d, s).
           Some (\<lparr>mounted_a = False, mounted_b = False, mounted_hdd = False, hdd_tries = 0,
                   settings_sized = False, rebind_seen = rebind, rhythm_done = r, drive_done = d\<rparr>,
                 emit SOFT_GUEST_HOLD 0 (scsi_init s)))))"

section \<open>Rebinding\<close>

lemma main_bind_idle: "mounted \<Longrightarrow> \<not> flipped \<or> stable_size z = 0 \<Longrightarrow> main_bind apf d mounted flipped z s = (mounted, s)"
  by (auto simp: main_bind_def)

lemma main_floppies_settled:
  assumes "mounted_a v" "mounted_b v" "rebind_in i = rebind_seen v"
  shows "main_floppies apf i (v, s) = (v, s)"
  using assms by (simp add: main_floppies_def main_bind_idle Let_def)

text \<open>C40: A rebind whose size samples disagree is lost.  With both drives mounted, a pass that sees
  drive A's toggle flip while the two samples of its size differ takes the toggle as seen and
  mounts nothing; every later pass with the same toggles and any sizes, stable ones included,
  mounts nothing either, so the drive goes on serving the new image with the old one's geometry.\<close>

theorem torn_rebind_lost:
  assumes "mounted_a v" and "mounted_b v"
    and "rebind_in i XOR rebind_seen v = FDD0_REBIND_BIT"
    and "fst (size_a i) \<noteq> snd (size_a i)"
    and "list_all (\<lambda>j. rebind_in j = rebind_in i) js"
  shows "fold (main_floppies apf) (i # js) (v, s) = (v\<lparr>rebind_seen := rebind_in i\<rparr>, s)"
proof -
  have "main_floppies apf i (v, s) = (v\<lparr>rebind_seen := rebind_in i\<rparr>, s)"
    using assms(1-4)
    by (simp add: main_floppies_def main_bind_idle stable_size_def FDD0_REBIND_BIT_def FDD1_REBIND_BIT_def Let_def)
  moreover have "fold (main_floppies apf) js (v\<lparr>rebind_seen := rebind_in i\<rparr>, s) = (v\<lparr>rebind_seen := rebind_in i\<rparr>, s)"
    using assms(5) by (induction js) (simp_all add: assms(1,2) main_floppies_settled)
  ultimately show ?thesis by simp
qed

theorem torn_rebind_lost_witness:
  "fst (fold (main_floppies card_apf)
      [\<lparr>rebind_in = 1, size_a = (0x0B00, 0x0B40), size_b = (0, 0)\<rparr>, \<lparr>rebind_in = 1, size_a = (0x0B40, 0x0B40), size_b = (0, 0)\<rparr>]
      (\<lparr>mounted_a = True, mounted_b = True, mounted_hdd = True, hdd_tries = 0, settings_sized = True,
        rebind_seen = 0, rhythm_done = True, drive_done = True\<rparr>, fdd_demo [] []))
   = \<lparr>mounted_a = True, mounted_b = True, mounted_hdd = True, hdd_tries = 0, settings_sized = True,
        rebind_seen = 1, rhythm_done = True, drive_done = True\<rparr>"
  by (subst torn_rebind_lost) (simp_all add: FDD0_REBIND_BIT_def)

end
