(* ===== verification/Spec2Isabelle.thy ===== *)
theory Spec2Isabelle
  imports Scsi_Props Settings_Props Fdd_Props Gdc_Props Adpcm_Props Sound_Props Main_Loop
begin

text \<open>
  The softcore firmware of the PC-98 core, \<open>src/firmware\<close>: the C program that runs beside the
  emulated machine, serves its floppy drives, its SCSI disk and its graphics drawing processor,
  fills the OPNA's sample store, and keeps the settings and key bindings of each disk.

  The program.  \<open>main.c\<close> loads the settings, starts the sample loaders, releases the guest and then
  polls every service for ever.  The services reach the outside through two windows.  The disk
  bridge (\<open>disk_tds.c\<close>, \<open>softcpu_fdd_bridge.sv\<close>) is a 1024-word RAM that the APF host fills from, or
  drains into, a file by a dataslot command; words 0 to 127 stage one 512-byte sector or chunk (SCSI,
  floppy, samples), words 128 to 255 are the persisted settings window, words 256 to 511 stage a
  1024-byte floppy sector, words 512 to 767 hold the floppy read-ahead.  The management bus carries 16-bit registers of the floppy controller,
  the SCSI window and the OPNA.  The services share both windows, so what each leaves alone is as
  much of its contract as what it does.

  State.  One record grows with the services, each extending the one before it: \<open>hw\<close> (the bridge,
  the host, the datatable, the trace of stores to write-only registers), \<open>bus\<close> (the three devices),
  \<open>scsi_st\<close>, \<open>key_st\<close>, \<open>set_st\<close>, \<open>fdd_st\<close>, \<open>rhy_st\<close>, \<open>drv_st\<close> (the statics of each C file).  An operation
  of a service works on any extension of its own record.  The drawing processor has its own record,
  \<open>gdc_st\<close>, and its own bus.  Integers keep their C width as words; a result that may not come is an
  option.

  Theories and sources.

  \<^item> \<open>Prelude\<close>: widths, byte lanes, the counting loop \<open>for_to\<close>.  \<open>Loop\<close>: the C \<open>while\<close> that may run for
    ever, as a \<open>partial_function\<close>; \<open>None\<close> is not returning.
  \<^item> \<open>Bridge\<close>: \<open>disk_tds.c\<close> and the bridge registers.  The host is the parameter \<open>apf\<close>; \<open>dataslot\<close> is what
    the services rely on (a read changes only the RAM span it names and no file, a write no RAM, and
    a served one moves the file's bytes),
    \<open>prompt_dataslot\<close> adds that a command inside a file is answered in time with its bytes.
    \<open>card_apf\<close> is a host for which both hold.
  \<^item> \<open>Mgmt\<close>: the management bus and the firmware's side of its devices.  The guest's side is input:
    request lines, queued FIFO bytes and status words are streams a read advances.
  \<^item> \<open>Divider\<close>: the shift-and-subtract division of \<open>gdc_service.c\<close>, \<open>adpcma_enc.c\<close> and \<open>scsi_service.c\<close>,
    against the interface \<open>divider\<close>.
  \<^item> \<open>Scsi\<close>, \<open>Scsi_Correct\<close>, \<open>Scsi_Props\<close>: \<open>scsi_service.c\<close>.
  \<^item> \<open>Key_Bind\<close>: \<open>key_bind.c\<close>, \<open>dpad.c\<close>.  \<open>Settings_Store\<close>, \<open>Settings_Correct\<close>, \<open>Profile_Table\<close>,
    \<open>Table_Migration\<close>, \<open>Settings_Profiles\<close>, \<open>Settings_Props\<close>: the persistent half of \<open>settings_ui.c\<close>; the
    table of profiles implements the interface \<open>profile_table\<close>.
  \<^item> \<open>Fdd\<close>, \<open>Fdd_Correct\<close>, \<open>Fdd_Serve\<close>, \<open>Fdd_Mount\<close>, \<open>Fdd_D88\<close>, \<open>Fdd_Props\<close>: \<open>fdd_service.c\<close>.
  \<^item> \<open>Gdc\<close>, \<open>Gdc_Correct\<close>, \<open>Gdc_Pixels\<close>, \<open>Gdc_Props\<close>: \<open>gdc_service.c\<close>.  The byte-wide bus master is the
    parameter \<open>chan\<close>; over \<open>vram_channel\<close> (a byte store) the commands refine an abstract drawing machine
    that knows only pixels.
  \<^item> \<open>Adpcm\<close>, \<open>Adpcm_Correct\<close>, \<open>Adpcm_Voice\<close>, \<open>Adpcm_Flush\<close>, \<open>Adpcm_Props\<close>: \<open>adpcma_enc.c\<close>, and the decoder
    of \<open>jt10_adpcm.v\<close> it is written against.
  \<^item> \<open>Rhythm\<close>, \<open>Drive_Sound\<close>, \<open>Sound_Store\<close>, \<open>Sound_Correct\<close>, \<open>Sound_Drive\<close>, \<open>Sound_Props\<close>: \<open>rhythm.c\<close>,
    \<open>drive_sound.c\<close>, \<open>fddsnd_hdr.h\<close>.
  \<^item> \<open>Main_Loop\<close>: \<open>main.c\<close>.

  What is shown.

  \<^item> SCSI: a read returns and a write replaces exactly the addressed bytes; every command completes
    with a status that agrees with the sense data; nothing outside the image and the first sector
    of the bridge is touched; the geometry follows the header the host really delivered.
  \<^item> Settings: a disk gets back its profile after any sequence of swaps and after a power cycle,
    from the 512 bytes the host keeps and nothing else;
    saving one profile keeps the others while the table has room, and so does widening an older
    table in place; any window at all leaves valid options.
  \<^item> Floppy: a run of reads streams the image, from the card or the read-ahead; a write replaces its
    sector; every run of mounts, ejects, inserts, unbinds and polls keeps the controller and the
    drive slots in step and the settings store sound.  A D88 image is declared with the
    geometry of its headers, but never with more than 60 cylinders, and two drives read in turn can be
    handed each other's read-ahead.
  \<^item> GDC: lines and block writes draw exactly their pixels, a rectangle the closed border of its grid; every access stays in the
    selected plane; every command is retired once by the pass that sees it.
  \<^item> Samples: at every source rate the loaders accept, a voice of up to 65521 samples encodes to whole 256-byte blocks the decoder
    follows nibble for nibble; one of 65536 or more never finishes.  The two loaders keep to
    their halves of the store, and borrowed channels come back.
  \<^item> Main loop: a floppy rebind seen while the size registers tear is never mounted.

  Bounds.  Waiting for the host and for the OPNA is bounded by \<open>DISK_SPIN_LIMIT\<close>, the firmware's own
  4,000,000 polls, counted down as the code does; no fuel is added.  Loops with a static bound are
  \<open>for_to\<close>; loops that end because a C variable falls are \<open>function\<close>s with a measure; the loops of the
  sample loaders and the WAV chunk walk, which data can keep running, are \<open>loop\<close>, and what is said of
  their result holds of a run that returns.  The bound 65521 leaves one output step of the highest
  source rate, 10.4 samples, between the last sample and the wrap of the 16.16 position at 65536.

  Not modelled.  A host that delivers a command's data only after the firmware has stopped waiting for
  it: the answer of \<open>apf\<close> takes effect at the trigger.  The timer interrupt and what runs in it: the settings menu's drawing and cursor,
  the virtual keyboard (\<open>vkb_ui.c\<close>, \<open>vkb_layout.c\<close>, \<open>vkb_draw.c\<close>); the interleaving of that interrupt with
  the main loop; the glyph copy of \<open>osd_font.c\<close>; the assembly files; the heart-beat marks and spins that
  only pass time; the encoder's test hook, which is null on the softcore; the FPGA core but for
  the registers the firmware sees.
\<close>

end
